(* ===== verification/Router_Prelude.thy ===== *)
theory Router_Prelude
  imports Complex_Main "HOL-Library.Word" "HOL-Library.Char_ord" "HOL-Library.List_Lexorder"
    "HOL-Library.Product_Lexorder"
begin

text \<open>
  What every other theory of the development shares: the names of the machine types, the
  saturating and wrapping integer operations of the Rust standard library, big-endian byte
  strings, the string functions of the standard library the router calls (\<open>trim\<close>,
  \<open>strip_prefix\<close>, \<open>split\<close>, \<open>lines\<close>, \<open>parse\<close>), counting in task lists, and the three
  interfaces (locales) the components are verified against: a keyed table, a system with an
  invariant, and a stream of keyed messages that is demultiplexed.

  A Rust \<open>str\<close> is the list of its UTF-8 bytes (a HOL \<open>char\<close> is a byte). A byte array
  \<open>[u8; n]\<close> is a byte list; that it has length \<open>n\<close> is stated where it matters.
\<close>

section \<open>Machine types\<close>

type_synonym u8 = "8 word"
type_synonym u16 = "16 word"
type_synonym u32 = "32 word"
type_synonym u64 = "64 word"
type_synonym u128 = "128 word"
type_synonym bytes = "8 word list"
type_synonym node_id = "8 word list"

named_theorems word_simps and codec_simps and frame_simps

subsection \<open>Saturating arithmetic on unsigned words\<close>

definition sat_add :: "'a::len word \<Rightarrow> 'a word \<Rightarrow> 'a word" where
  "sat_add a b = (if unat a + unat b < 2 ^ LENGTH('a) then a + b else - 1)"

definition sat_sub :: "'a::len word \<Rightarrow> 'a word \<Rightarrow> 'a word" where
  "sat_sub a b = (if b \<le> a then a - b else 0)"

lemma unat_below: "unat a < 2 ^ LENGTH('a)" for a :: "'a::len word"
  by (rule unsigned_less)

lemma unat_sat_add [word_simps]:
  "unat (sat_add a b) = min (unat a + unat b) (2 ^ LENGTH('a) - 1)" for a b :: "'a::len word"
proof (cases "unat a + unat b < 2 ^ LENGTH('a)")
  case True
  then show ?thesis
    by (simp add: sat_add_def unat_word_ariths)
next
  case False
  then show ?thesis
    by (simp add: sat_add_def unsigned_minus_1_eq_mask mask_eq_exp_minus_1)
qed

lemma unat_sat_sub [word_simps]: "unat (sat_sub a b) = unat a - unat b"
  by (simp add: sat_sub_def unat_sub word_le_nat_alt)

lemma sat_add_0 [simp]: "sat_add 0 b = b" "sat_add a 0 = a"
  by (simp_all add: sat_add_def)

lemma sat_add_mono_left: "a \<le> sat_add a b" for a b :: "'a::len word"
proof -
  have "unat a \<le> 2 ^ LENGTH('a) - 1"
    using unat_below [of a] by linarith
  then show ?thesis
    by (simp add: word_le_nat_alt word_simps)
qed

lemma sat_add_eq_0_iff: "sat_add a b = 0 \<longleftrightarrow> a = 0 \<and> b = 0"
proof -
  have "sat_add a b = 0 \<longleftrightarrow> unat (sat_add a b) = 0"
    by (simp add: unat_eq_zero)
  also have "\<dots> \<longleftrightarrow> unat a + unat b = 0"
    using one_less_power [of "2::nat" "LENGTH('a)"] by (auto simp: word_simps min_def)
  finally show ?thesis
    by (simp add: unat_eq_zero)
qed

subsection \<open>Incrementing and decrementing a counter\<close>

lemma unat_inc_below [word_simps]:
  fixes a c :: "'a::len word"
  assumes "a < c"
  shows "unat (a + 1) = Suc (unat a)"
proof -
  have "unat a + 1 < 2 ^ LENGTH('a)"
    using assms unat_below [of c] unfolding word_less_nat_alt by linarith
  then show ?thesis
    by (simp add: unat_word_ariths)
qed

lemma unat_dec_pos [word_simps]: "0 < unat a \<Longrightarrow> unat (a - 1) = unat a - 1" for a :: "'a::len word"
  by (metis unat_gt_0 unat_minus_one)

lemma dec_zero_wraps: "(0 :: 'a::len word) - 1 = - 1"
  by simp

subsection \<open>Signed 64-bit timestamps\<close>

text \<open>
  An \<open>i64\<close> is an integer kept in range by the operation that produces it:
  \<open>wrap_i64\<close> is two's complement wrap-around (release builds), \<open>sat_i64\<close> is the
  saturation of \<open>saturating_sub\<close>, and \<open>as_i64\<close> is the cast of a \<open>u64\<close>.
\<close>

definition wrap_i64 :: "int \<Rightarrow> int" where
  "wrap_i64 x = (x + 2 ^ 63) mod 2 ^ 64 - 2 ^ 63"

definition sat_i64 :: "int \<Rightarrow> int" where
  "sat_i64 x = max (- (2 ^ 63)) (min (2 ^ 63 - 1) x)"

definition as_i64 :: "u64 \<Rightarrow> int" where
  "as_i64 w = sint w"

definition i64_range :: "int \<Rightarrow> bool" where
  "i64_range x \<longleftrightarrow> - (2 ^ 63) \<le> x \<and> x < 2 ^ 63"

lemma wrap_i64_id [simp]: "i64_range x \<Longrightarrow> wrap_i64 x = x"
  by (simp add: wrap_i64_def i64_range_def)

lemma sat_i64_id [simp]: "i64_range x \<Longrightarrow> sat_i64 x = x"
  by (simp add: sat_i64_def i64_range_def)

lemma as_i64_small:
  assumes "unat w < 2 ^ 63"
  shows "as_i64 w = int (unat w)"
proof -
  have u: "uint w < 2 ^ 63"
  proof -
    have "int (unat w) < int (2 ^ 63)"
      using assms by (simp only: of_nat_less_iff)
    then show ?thesis by simp
  qed
  have "sint w = signed_take_bit 63 (uint w)"
    by (simp add: sint_uint)
  also have "\<dots> = uint w"
    by (rule signed_take_bit_int_eq_self) (use u uint_ge_0 [of w] in linarith)+
  finally show ?thesis
    by (simp add: as_i64_def)
qed

section \<open>Big-endian byte strings\<close>

fun be_nat :: "bytes \<Rightarrow> nat" where
  "be_nat [] = 0"
| "be_nat (b # bs) = unat b * 256 ^ length bs + be_nat bs"

fun be_bytes :: "nat \<Rightarrow> nat \<Rightarrow> bytes" where
  "be_bytes 0 n = []"
| "be_bytes (Suc k) n = word_of_nat (n div 256 ^ k) # be_bytes k n"

definition u64_from_be :: "bytes \<Rightarrow> u64" where
  "u64_from_be bs = word_of_nat (be_nat bs)"

definition u64_to_be :: "u64 \<Rightarrow> bytes" where
  "u64_to_be w = be_bytes 8 (unat w)"

lemma length_be_bytes [simp]: "length (be_bytes k n) = k"
  by (induction k) simp_all

lemma be_nat_bound: "be_nat bs < 256 ^ length bs"
proof (induction bs)
  case (Cons b bs)
  have b: "Suc (unat b) \<le> 256"
    using unat_below [of b] by simp
  have "be_nat (b # bs) < unat b * 256 ^ length bs + 256 ^ length bs"
    using Cons by simp
  also have "\<dots> = Suc (unat b) * 256 ^ length bs"
    by simp
  also have "\<dots> \<le> 256 * 256 ^ length bs"
    using b by (rule mult_le_mono1)
  finally show ?case
    by simp
qed simp

lemma be_nat_append: "be_nat (xs @ ys) = be_nat xs * 256 ^ length ys + be_nat ys"
  by (induction xs) (simp_all add: algebra_simps power_add)

lemma be_nat_zeros [simp]: "be_nat (replicate n 0) = 0"
  by (induction n) simp_all

lemma be_nat_zero_iff: "be_nat bs = 0 \<longleftrightarrow> (\<forall>b \<in> set bs. b = 0)"
  by (induction bs) (auto simp: unat_eq_zero)

lemma be_nat_be_bytes: "be_nat (be_bytes k n) = n mod 256 ^ k"
proof (induction k)
  case (Suc k)
  have "unat (word_of_nat (n div 256 ^ k) :: u8) = (n div 256 ^ k) mod 256"
    by (simp add: unat_of_nat)
  then show ?case
    using Suc mod_mult2_eq [of n "256 ^ k" 256] by (simp add: mult.commute)
qed simp

lemma be_bytes_shift: "be_bytes k (m * 256 ^ k + n) = be_bytes k n"
proof -
  have "be_bytes j (m * 256 ^ k + n) = be_bytes j n" if "j \<le> k" for j
    using that
  proof (induction j)
    case (Suc j)
    define d where "d = k - Suc j"
    have k: "k = j + Suc d"
      using Suc.prems by (simp add: d_def)
    have "(m * 256 ^ k + n) div 256 ^ j = m * 256 ^ Suc d + n div 256 ^ j"
      using div_mult_self1 [of "256 ^ j" n "m * 256 ^ Suc d"]
      by (simp add: k power_add ac_simps)
    then have "(m * 256 ^ k + n) div 256 ^ j mod 256 = n div 256 ^ j mod 256"
      using mod_mult_self2 [of "n div 256 ^ j" 256 "m * 256 ^ d"] by (simp add: ac_simps)
    then have "(word_of_nat ((m * 256 ^ k + n) div 256 ^ j) :: u8) = word_of_nat (n div 256 ^ j)"
      by (simp add: word_of_nat_eq_iff take_bit_eq_mod del: of_nat_add of_nat_mult)
    then show ?case
      using Suc by simp
  qed simp
  then show ?thesis by simp
qed

lemma be_bytes_be_nat: "be_bytes (length bs) (be_nat bs) = bs"
proof (induction bs)
  case (Cons b bs)
  have "be_nat (b # bs) div 256 ^ length bs = unat b"
    using be_nat_bound [of bs] by simp
  with Cons show ?case
    by (simp add: be_bytes_shift)
qed simp

lemma be_nat_inject: "length xs = length ys \<Longrightarrow> be_nat xs = be_nat ys \<Longrightarrow> xs = ys"
  by (metis be_bytes_be_nat)

lemma length_u64_to_be [simp]: "length (u64_to_be w) = 8"
  by (simp add: u64_to_be_def)

lemma u64_from_to_be [simp]: "u64_from_be (u64_to_be w) = w"
proof -
  have "unat w mod 256 ^ 8 = unat w"
    using unat_below [of w] by simp
  then show ?thesis
    by (simp add: u64_from_be_def u64_to_be_def be_nat_be_bytes)
qed

lemma u64_to_from_be: "length bs = 8 \<Longrightarrow> u64_to_be (u64_from_be bs) = bs"
proof -
  assume l: "length bs = 8"
  then have "be_nat bs < 2 ^ 64"
    using be_nat_bound [of bs] by simp
  then have "unat (u64_from_be bs) = be_nat bs"
    by (simp add: u64_from_be_def unat_of_nat)
  then show ?thesis
    using be_bytes_be_nat [of bs] l by (simp add: u64_to_be_def)
qed

lemma u64_to_be_inject: "u64_to_be v = u64_to_be w \<longleftrightarrow> v = w"
  by (metis u64_from_to_be)

section \<open>Durations\<close>

text \<open>Instants and durations are counted in nanoseconds; \<open>secs n\<close> is \<open>Duration::from_secs(n)\<close>.\<close>

definition secs :: "u64 \<Rightarrow> int" where
  "secs n = 10 ^ 9 * int (unat n)"

section \<open>Counting in lists of tasks\<close>

definition count_if :: "('a \<Rightarrow> bool) \<Rightarrow> 'a list \<Rightarrow> nat" where
  "count_if P xs = length (filter P xs)"

lemma count_if_simps [simp]:
  "count_if P [] = 0"
  "count_if P (x # xs) = (if P x then Suc (count_if P xs) else count_if P xs)"
  "count_if P (xs @ ys) = count_if P xs + count_if P ys"
  by (simp_all add: count_if_def)

lemma count_if_update:
  "i < length xs \<Longrightarrow>
    count_if P (xs[i := y]) + (if P (xs ! i) then 1 else 0) = count_if P xs + (if P y then 1 else 0)"
proof (induction xs arbitrary: i)
  case (Cons x xs)
  then show ?case by (cases i) auto
qed simp

lemma count_if_update_same:
  "i < length xs \<Longrightarrow> P y = P (xs ! i) \<Longrightarrow> count_if P (xs[i := y]) = count_if P xs"
  using count_if_update [of i xs P y] by (simp split: if_splits)

lemma count_if_update_gain:
  "i < length xs \<Longrightarrow> P y \<Longrightarrow> \<not> P (xs ! i) \<Longrightarrow> count_if P (xs[i := y]) = Suc (count_if P xs)"
  using count_if_update [of i xs P y] by simp

lemma count_if_update_loss:
  "i < length xs \<Longrightarrow> \<not> P y \<Longrightarrow> P (xs ! i) \<Longrightarrow> Suc (count_if P (xs[i := y])) = count_if P xs"
  using count_if_update [of i xs P y] by simp

lemma count_if_pos: "i < length xs \<Longrightarrow> P (xs ! i) \<Longrightarrow> 0 < count_if P xs"
  by (auto simp: count_if_def filter_empty_conv intro: nth_mem)

lemma count_if_0_iff: "count_if P xs = 0 \<longleftrightarrow> (\<forall>x \<in> set xs. \<not> P x)"
  by (simp add: count_if_def filter_empty_conv)

end
