(* ===== verification/Rust_Strings.thy ===== *)
theory Rust_Strings
  imports Router_Prelude
begin

text \<open>
  The string functions of the Rust standard library that the router calls, on UTF-8 byte
  strings: prefix stripping, Unicode \<open>trim\<close>, \<open>split\<close>, \<open>lines\<close>, substring search, integer
  parsing (\<open>parse\<close>, \<open>from_str_radix\<close>) and formatting (\<open>{}\<close>, \<open>{:064x}\<close>).
\<close>

section \<open>Prefixes and trimming\<close>

definition strip_prefix :: "string \<Rightarrow> string \<Rightarrow> string option" where
  "strip_prefix p s = (if take (length p) s = p then Some (drop (length p) s) else None)"

lemma strip_prefix_Some_iff: "strip_prefix p s = Some r \<longleftrightarrow> s = p @ r"
  by (auto simp: strip_prefix_def) (metis append_take_drop_id)

lemma strip_prefix_append [simp]: "strip_prefix p (p @ s) = Some s"
  by (simp add: strip_prefix_Some_iff)

text \<open>
  \<open>first_strip toks s\<close> removes the first token of \<open>toks\<close> that \<open>s\<close> starts with;
  \<open>trim_with\<close> repeats it. \<open>trim\<close> is the instance for the UTF-8 encodings of the code points
  with the Unicode property White\_Space, applied at both ends.
\<close>

fun first_strip :: "string list \<Rightarrow> string \<Rightarrow> string option" where
  "first_strip [] s = None"
| "first_strip (t # ts) s =
     (if t \<noteq> [] \<and> take (length t) s = t then Some (drop (length t) s) else first_strip ts s)"

lemma first_strip_shorter: "first_strip ts s = Some r \<Longrightarrow> length r < length s"
  by (induction ts) (cases s; auto split: if_splits)+

function trim_with :: "string list \<Rightarrow> string \<Rightarrow> string" where
  "trim_with ts s = (case first_strip ts s of None \<Rightarrow> s | Some r \<Rightarrow> trim_with ts r)"
  by pat_completeness auto
termination
  by (relation "measure (\<lambda>(ts, s). length s)") (auto dest: first_strip_shorter)

declare trim_with.simps [simp del]

lemma first_strip_trim_with [simp]: "first_strip ts (trim_with ts s) = None"
proof (induction ts s rule: trim_with.induct)
  case (1 ts s)
  then show ?case
    by (subst trim_with.simps) (simp split: option.split)
qed

lemma trim_with_id: "first_strip ts s = None \<Longrightarrow> trim_with ts s = s"
  by (subst trim_with.simps) simp

lemma trim_with_idem [simp]: "trim_with ts (trim_with ts s) = trim_with ts s"
  by (simp add: trim_with_id)

lemma first_strip_suffix: "first_strip ts s = Some r \<Longrightarrow> \<exists>p. s = p @ r"
proof (induction ts)
  case (Cons t ts)
  then show ?case
    by (auto split: if_splits) (metis append_take_drop_id)
qed simp

lemma trim_with_suffix: "\<exists>p. s = p @ trim_with ts s"
proof (induction ts s rule: trim_with.induct)
  case (1 ts s)
  show ?case
  proof (cases "first_strip ts s")
    case None
    then show ?thesis by (simp add: trim_with_id)
  next
    case (Some r)
    then obtain p where "s = p @ r"
      using first_strip_suffix by blast
    moreover obtain q where "r = q @ trim_with ts r"
      using 1 Some by blast
    ultimately have "s = (p @ q) @ trim_with ts s"
      using Some by (subst trim_with.simps) simp
    then show ?thesis by blast
  qed
qed

lemma first_strip_None_append: "first_strip ts (s @ u) = None \<Longrightarrow> first_strip ts s = None"
proof (induction ts)
  case (Cons t ts)
  show ?case
  proof (cases "t \<noteq> [] \<and> take (length t) s = t")
    case True
    then have "length t \<le> length s"
      by (metis length_take min.cobounded1)
    with True Cons.prems show ?thesis by simp
  next
    case False
    with Cons show ?thesis by (auto split: if_splits)
  qed
qed simp

definition ws_tokens :: "string list" where
  "ws_tokens =
     [[CHR 0x09], [CHR 0x0A], [CHR 0x0B], [CHR 0x0C], [CHR 0x0D], [CHR 0x20],
      [CHR 0xC2, CHR 0x85], [CHR 0xC2, CHR 0xA0], [CHR 0xE1, CHR 0x9A, CHR 0x80],
      [CHR 0xE2, CHR 0x80, CHR 0x80], [CHR 0xE2, CHR 0x80, CHR 0x81],
      [CHR 0xE2, CHR 0x80, CHR 0x82], [CHR 0xE2, CHR 0x80, CHR 0x83],
      [CHR 0xE2, CHR 0x80, CHR 0x84], [CHR 0xE2, CHR 0x80, CHR 0x85],
      [CHR 0xE2, CHR 0x80, CHR 0x86], [CHR 0xE2, CHR 0x80, CHR 0x87],
      [CHR 0xE2, CHR 0x80, CHR 0x88], [CHR 0xE2, CHR 0x80, CHR 0x89],
      [CHR 0xE2, CHR 0x80, CHR 0x8A], [CHR 0xE2, CHR 0x80, CHR 0xA8],
      [CHR 0xE2, CHR 0x80, CHR 0xA9], [CHR 0xE2, CHR 0x80, CHR 0xAF],
      [CHR 0xE2, CHR 0x81, CHR 0x9F], [CHR 0xE3, CHR 0x80, CHR 0x80]]"

definition trim_start :: "string \<Rightarrow> string" where
  "trim_start s = trim_with ws_tokens s"

definition trim_end :: "string \<Rightarrow> string" where
  "trim_end s = rev (trim_with (map rev ws_tokens) (rev s))"

definition trim :: "string \<Rightarrow> string" where
  "trim s = trim_end (trim_start s)"

definition trim_start_matches :: "string \<Rightarrow> string \<Rightarrow> string" where
  "trim_start_matches p s = trim_with [p] s"

lemma trim_end_prefix: "\<exists>u. s = trim_end s @ u"
proof -
  obtain p where "rev s = p @ trim_with (map rev ws_tokens) (rev s)"
    using trim_with_suffix by blast
  then have "s = trim_end s @ rev p"
    by (metis rev_append rev_rev_ident trim_end_def)
  then show ?thesis ..
qed

lemma trim_start_trim [simp]: "trim_start (trim s) = trim s"
proof -
  obtain u where u: "trim_start s = trim s @ u"
    using trim_end_prefix [of "trim_start s"] by (auto simp: trim_def)
  have "first_strip ws_tokens (trim s @ u) = None"
    unfolding u [symmetric] by (simp add: trim_start_def)
  then have "first_strip ws_tokens (trim s) = None"
    by (rule first_strip_None_append)
  then show ?thesis
    by (simp add: trim_start_def trim_with_id)
qed

lemma trim_idem [simp]: "trim (trim s) = trim s"
proof -
  have "trim_end (trim s) = trim s"
    by (simp add: trim_def trim_end_def)
  then show ?thesis
    by (simp add: trim_def [of "trim s"])
qed

lemma length_trim_le: "length (trim s) \<le> length s"
proof -
  obtain p where "s = p @ trim_start s"
    using trim_with_suffix unfolding trim_start_def by blast
  moreover obtain u where "trim_start s = trim s @ u"
    using trim_end_prefix [of "trim_start s"] by (auto simp: trim_def)
  ultimately show ?thesis
    by (metis length_append le_add1 le_add2 le_trans)
qed

text \<open>On printable ASCII nothing is trimmed; hexadecimal and base58 text is of this kind.\<close>

definition graph_char :: "char \<Rightarrow> bool" where
  "graph_char c \<longleftrightarrow> 33 \<le> (of_char c :: nat) \<and> (of_char c :: nat) < 127"

lemma first_strip_hd: "s = [] \<or> hd s \<notin> set (map hd (filter (\<lambda>t. t \<noteq> []) ts)) \<Longrightarrow> first_strip ts s = None"
proof (induction ts)
  case (Cons t ts)
  show ?case
  proof (cases "t \<noteq> [] \<and> take (length t) s = t")
    case True
    then have "s \<noteq> [] \<and> hd s = hd t"
      by (cases s; cases t) auto
    with True Cons.prems show ?thesis by auto
  next
    case False
    moreover have "first_strip ts s = None"
      using Cons by (auto split: if_splits)
    ultimately show ?thesis by auto
  qed
qed simp

lemma ws_heads_not_graph:
  "c \<in> set (map hd (filter (\<lambda>t. t \<noteq> []) ws_tokens)) \<Longrightarrow> \<not> graph_char c"
  "c \<in> set (map hd (filter (\<lambda>t. t \<noteq> []) (map rev ws_tokens))) \<Longrightarrow> \<not> graph_char c"
  by (auto simp: ws_tokens_def graph_char_def)

lemma trim_graph: "\<forall>c \<in> set s. graph_char c \<Longrightarrow> trim s = s"
proof -
  assume g: "\<forall>c \<in> set s. graph_char c"
  have "s = [] \<or> hd s \<notin> set (map hd (filter (\<lambda>t. t \<noteq> []) ws_tokens))"
    using g ws_heads_not_graph(1) hd_in_set by blast
  then have a: "trim_start s = s"
    by (simp only: trim_start_def first_strip_hd trim_with_id)
  have "rev s = [] \<or> hd (rev s) \<notin> set (map hd (filter (\<lambda>t. t \<noteq> []) (map rev ws_tokens)))"
    using g ws_heads_not_graph(2) hd_in_set [of "rev s"] by (metis set_rev)
  then have "trim_end s = s"
    by (simp only: trim_end_def first_strip_hd trim_with_id rev_rev_ident)
  with a show ?thesis
    by (simp add: trim_def)
qed

lemma trim_space_graph: "\<forall>c \<in> set s. graph_char c \<Longrightarrow> trim (CHR 0x20 # s) = s"
proof -
  assume g: "\<forall>c \<in> set s. graph_char c"
  have "first_strip ws_tokens (CHR 0x20 # s) = Some s"
    by (simp add: ws_tokens_def)
  then have "trim_start (CHR 0x20 # s) = trim_start s"
    by (subst trim_start_def, subst trim_with.simps) (simp add: trim_start_def)
  then show ?thesis
    using trim_graph [OF g] by (simp add: trim_def)
qed

section \<open>Splitting and searching\<close>

text \<open>
  \<open>split_on p s\<close> is \<open>s.split(p)\<close> for a non-empty pattern; \<open>first_line s\<close> is
  \<open>s.lines().next()\<close>, which drops a carriage return only in front of a line feed.
\<close>

function split_on :: "string \<Rightarrow> string \<Rightarrow> string list" where
  "split_on p s =
     (if s = [] then [[]]
      else if p \<noteq> [] \<and> take (length p) s = p then [] # split_on p (drop (length p) s)
      else (case split_on p (tl s) of
              [] \<Rightarrow> [[hd s]]
            | x # xs \<Rightarrow> (hd s # x) # xs))"
  by pat_completeness auto
termination
  by (relation "measure (\<lambda>(p, s). length s)") auto

declare split_on.simps [simp del]

fun contains_sub :: "string \<Rightarrow> string \<Rightarrow> bool" where
  "contains_sub p [] = (p = [])"
| "contains_sub p (c # s) = (take (length p) (c # s) = p \<or> contains_sub p s)"

definition first_line :: "string \<Rightarrow> string option" where
  "first_line s =
     (if s = [] then None
      else let l = takeWhile (\<lambda>c. c \<noteq> CHR 0x0A) s in
        if length l < length s \<and> l \<noteq> [] \<and> last l = CHR 0x0D then Some (butlast l) else Some l)"

lemma split_on_Nil: "split_on p [] = [[]]"
  by (subst split_on.simps) simp

lemma split_on_Cons:
  "split_on p (c # s) =
    (if p \<noteq> [] \<and> take (length p) (c # s) = p then [] # split_on p (drop (length p) (c # s))
     else (case split_on p s of [] \<Rightarrow> [[c]] | x # xs \<Rightarrow> (c # x) # xs))"
  by (subst split_on.simps) (simp only: list.distinct if_False list.sel)

lemmas split_on_eval = split_on_Nil split_on_Cons

lemma split_on_nonempty: "split_on p s \<noteq> []"
  by (subst split_on.simps) (auto split: list.split)

lemma contains_sub_iff: "contains_sub p s \<longleftrightarrow> (\<exists>u v. s = u @ p @ v)"
proof (induction s)
  case (Cons c s)
  have "take (length p) (c # s) = p \<longleftrightarrow> (\<exists>v. c # s = p @ v)"
    by (metis append_eq_conv_conj append_take_drop_id)
  with Cons show ?case
    by (auto simp: Cons_eq_append_conv)
qed simp

section \<open>Parsing and printing integers\<close>

text \<open>
  \<open>parse_uint r m s\<close> is \<open>from_str_radix\<close> of an unsigned type with maximum \<open>m\<close>: an optional
  plus sign, then at least one digit, with an overflow check after each digit. \<open>parse_i64\<close> also
  takes a minus sign.
\<close>

definition digit_val :: "nat \<Rightarrow> char \<Rightarrow> nat option" where
  "digit_val r c =
     (let n = (of_char c :: nat);
          d = (if 48 \<le> n \<and> n \<le> 57 then Some (n - 48)
               else if 97 \<le> n \<and> n \<le> 122 then Some (n - 87)
               else if 65 \<le> n \<and> n \<le> 90 then Some (n - 55) else None)
      in case d of None \<Rightarrow> None | Some v \<Rightarrow> if v < r then Some v else None)"

fun parse_digits :: "nat \<Rightarrow> nat \<Rightarrow> nat \<Rightarrow> string \<Rightarrow> nat option" where
  "parse_digits r m acc [] = Some acc"
| "parse_digits r m acc (c # cs) =
     (case digit_val r c of
        None \<Rightarrow> None
      | Some d \<Rightarrow> if acc * r + d \<le> m then parse_digits r m (acc * r + d) cs else None)"

definition parse_uint :: "nat \<Rightarrow> nat \<Rightarrow> string \<Rightarrow> nat option" where
  "parse_uint r m s =
     (case s of
        [] \<Rightarrow> None
      | c # cs \<Rightarrow>
          if c = CHR ''+'' then (if cs = [] then None else parse_digits r m 0 cs)
          else parse_digits r m 0 s)"

definition parse_u64 :: "string \<Rightarrow> u64 option" where
  "parse_u64 s = map_option word_of_nat (parse_uint 10 (2 ^ 64 - 1) s)"

definition parse_u32 :: "string \<Rightarrow> u32 option" where
  "parse_u32 s = map_option word_of_nat (parse_uint 10 (2 ^ 32 - 1) s)"

definition parse_i64 :: "string \<Rightarrow> int option" where
  "parse_i64 s =
     (case s of
        [] \<Rightarrow> None
      | c # cs \<Rightarrow>
          if c = CHR ''-'' then
            (if cs = [] then None else map_option (\<lambda>n. - int n) (parse_digits 10 (2 ^ 63) 0 cs))
          else map_option int (parse_uint 10 (2 ^ 63 - 1) s))"

lemma digit_val_less: "digit_val r c = Some d \<Longrightarrow> d < r"
  by (auto simp: digit_val_def Let_def split: option.splits if_splits)

fun digits_nat :: "nat \<Rightarrow> nat list \<Rightarrow> nat" where
  "digits_nat r [] = 0"
| "digits_nat r (d # ds) = d * r ^ length ds + digits_nat r ds"

text \<open>The checked accumulation computes the positional value, and fails exactly on overflow.\<close>

lemma parse_digits_value:
  assumes "0 < r"
  shows "parse_digits r m acc s = Some v \<Longrightarrow>
    \<exists>ds. map (digit_val r) s = map Some ds \<and> v = acc * r ^ length s + digits_nat r ds
      \<and> (acc \<le> m \<longrightarrow> v \<le> m)"
proof (induction s arbitrary: acc)
  case (Cons c s)
  then obtain d where d: "digit_val r c = Some d" "acc * r + d \<le> m"
    "parse_digits r m (acc * r + d) s = Some v"
    by (auto split: option.splits if_splits)
  from Cons.IH [OF d(3)] obtain ds where
    "map (digit_val r) s = map Some ds" "v = (acc * r + d) * r ^ length s + digits_nat r ds" "v \<le> m"
    using d(2) by auto
  moreover have "length ds = length s"
    using \<open>map (digit_val r) s = map Some ds\<close> by (metis length_map)
  ultimately show ?case
    using d(1) by (intro exI [of _ "d # ds"]) (simp add: algebra_simps)
qed simp

lemma parse_digits_bound: "parse_digits r m acc s = Some v \<Longrightarrow> acc \<le> m \<Longrightarrow> v \<le> m"
  by (induction s arbitrary: acc) (auto split: option.splits if_splits)

lemma parse_uint_bound: "parse_uint r m s = Some v \<Longrightarrow> v \<le> m"
  using parse_digits_bound [of r m 0] by (simp add: parse_uint_def split: list.splits if_splits del: parse_digits.simps)

definition digit_char :: "nat \<Rightarrow> char" where
  "digit_char d = ''0123456789abcdef'' ! d"

fun show_nat :: "nat \<Rightarrow> string" where
  "show_nat n = (if n < 10 then [digit_char n] else show_nat (n div 10) @ [digit_char (n mod 10)])"

declare show_nat.simps [simp del]

fun hex_fixed :: "nat \<Rightarrow> nat \<Rightarrow> string" where
  "hex_fixed 0 n = []"
| "hex_fixed (Suc k) n = digit_char (n div 16 ^ k mod 16) # hex_fixed k n"

lemma length_hex_fixed [simp]: "length (hex_fixed k n) = k"
  by (induction k) simp_all

end
