(* ===== verification/Json_Value.thy ===== *)
theory Json_Value
  imports Rust_Strings
begin

text \<open>
  JSON values as the router handles them (\<open>serde_json::Value\<close>) and the accessors it uses. An object
  is an association list with distinct keys; \<open>get\<close>, \<open>insert\<close> and \<open>entry\<close> depend on the keys only.
  Parsing and printing of JSON text are not part of the program and stay parameters of the
  definitions that use them.
\<close>

datatype json_num = PosInt u64 | NegInt u64 | Float u64

datatype json =
    JNull
  | JBool bool
  | JNum json_num
  | JStr string
  | JArr "json list"
  | JObj "(string \<times> json) list"

fun json_get :: "string \<Rightarrow> json \<Rightarrow> json option" where
  "json_get k (JObj kvs) = map_of kvs k"
| "json_get k _ = None"

fun as_u64 :: "json \<Rightarrow> u64 option" where
  "as_u64 (JNum (PosInt n)) = Some n"
| "as_u64 _ = None"

fun as_bool :: "json \<Rightarrow> bool option" where
  "as_bool (JBool b) = Some b"
| "as_bool _ = None"

fun as_str :: "json \<Rightarrow> string option" where
  "as_str (JStr s) = Some s"
| "as_str _ = None"

fun as_array :: "json \<Rightarrow> json list option" where
  "as_array (JArr vs) = Some vs"
| "as_array _ = None"

fun as_object :: "json \<Rightarrow> (string \<times> json) list option" where
  "as_object (JObj kvs) = Some kvs"
| "as_object _ = None"

text \<open>
  \<open>pointer ts v\<close> is \<open>v.pointer("/t1/t2")\<close> for tokens that are not array indices, the only ones
  the router uses.
\<close>

fun json_pointer :: "string list \<Rightarrow> json \<Rightarrow> json option" where
  "json_pointer [] v = Some v"
| "json_pointer (t # ts) v = (case json_get t v of None \<Rightarrow> None | Some w \<Rightarrow> json_pointer ts w)"

fun obj_insert :: "string \<Rightarrow> json \<Rightarrow> (string \<times> json) list \<Rightarrow> (string \<times> json) list" where
  "obj_insert k v [] = [(k, v)]"
| "obj_insert k v ((k', v') # kvs) = (if k' = k then (k, v) # kvs else (k', v') # obj_insert k v kvs)"

definition obj_or_insert :: "string \<Rightarrow> json \<Rightarrow> (string \<times> json) list \<Rightarrow> (string \<times> json) list" where
  "obj_or_insert k v kvs = (case map_of kvs k of None \<Rightarrow> obj_insert k v kvs | Some _ \<Rightarrow> kvs)"

lemma map_of_obj_insert [simp]: "map_of (obj_insert k v kvs) = (map_of kvs)(k \<mapsto> v)"
  by (induction kvs) auto

lemma map_of_obj_or_insert [simp]:
  "map_of (obj_or_insert k v kvs) k' =
    (if k' = k then Some (case map_of kvs k of None \<Rightarrow> v | Some w \<Rightarrow> w) else map_of kvs k')"
  by (simp add: obj_or_insert_def split: option.split)

lemma keys_obj_insert: "fst ` set (obj_insert k v kvs) = insert k (fst ` set kvs)"
proof (induction kvs)
  case (Cons x kvs)
  then show ?case by (cases x) auto
qed simp

lemma distinct_obj_insert: "distinct (map fst kvs) \<Longrightarrow> distinct (map fst (obj_insert k v kvs))"
proof (induction kvs)
  case (Cons x kvs)
  then show ?case
    by (cases x) (auto simp: keys_obj_insert)
qed simp

definition json_u64 :: "u64 \<Rightarrow> json" where
  "json_u64 n = JNum (PosInt n)"

lemma as_u64_json_u64 [simp]: "as_u64 (json_u64 n) = Some n"
  by (simp add: json_u64_def)

end
