(* ===== verification/Node_Auth.thy ===== *)
theory Node_Auth
  imports Rust_Strings
begin

text \<open>
  The connect challenge and the textual form of node ids (\<open>src/node_auth.rs\<close>). Keccak-256, the hex
  codec and Ed25519 are packages outside the repository and are parameters: \<open>keccak\<close> hashes a byte
  string, \<open>enc\<close> and \<open>dec\<close> are \<open>hex::encode\<close> and \<open>hex::decode\<close>, \<open>vk_of\<close> builds a verifying key and
  \<open>vk_verify\<close> checks a signature with it. What the router relies on of the hex codec is \<open>hex_laws\<close>.
\<close>

section \<open>The hex codec\<close>

definition hex_digit_char :: "char \<Rightarrow> bool" where
  "hex_digit_char c \<longleftrightarrow> c \<in> set ''0123456789abcdef''"

definition hex_laws :: "(bytes \<Rightarrow> string) \<Rightarrow> (string \<Rightarrow> string + bytes) \<Rightarrow> bool" where
  "hex_laws enc dec \<longleftrightarrow> (\<forall>bs. dec (enc bs) = Inr bs \<and> list_all hex_digit_char (enc bs))"

lemma hex_lawsD:
  assumes "hex_laws enc dec"
  shows "dec (enc bs) = Inr bs" "list_all hex_digit_char (enc bs)"
  using assms by (simp_all add: hex_laws_def)

lemma hex_digit_graph: "hex_digit_char c \<Longrightarrow> graph_char c"
  by (auto simp: hex_digit_char_def graph_char_def)

lemma hex_no_prefix: "list_all hex_digit_char s \<Longrightarrow> strip_prefix ''0x'' s = None"
  by (cases s; cases "tl s") (auto simp: strip_prefix_def hex_digit_char_def)

text \<open>A lower-case codec that has the laws; witnesses instantiate the parameters with it.\<close>

definition sample_enc :: "bytes \<Rightarrow> string" where
  "sample_enc bs = concat (map (\<lambda>b. hex_fixed 2 (unat b)) bs)"

fun sample_dec :: "string \<Rightarrow> string + bytes" where
  "sample_dec [] = Inr []"
| "sample_dec [c] = Inl ''odd length''"
| "sample_dec (c # d # cs) =
     (case (digit_val 16 c, digit_val 16 d) of
        (Some x, Some y) \<Rightarrow>
          (case sample_dec cs of Inl e \<Rightarrow> Inl e | Inr bs \<Rightarrow> Inr (word_of_nat (16 * x + y) # bs))
      | _ \<Rightarrow> Inl ''invalid character'')"

lemma hex_digit_table:
  "list_all (\<lambda>d. digit_val 16 (digit_char d) = Some d \<and> hex_digit_char (digit_char d)) [0..<16]"
  by (simp add: upt_rec digit_char_def digit_val_def hex_digit_char_def Let_def)

lemma digit_val_digit_char: "d < 16 \<Longrightarrow> digit_val 16 (digit_char d) = Some d"
  and hex_digit_digit_char: "d < 16 \<Longrightarrow> hex_digit_char (digit_char d)"
  using hex_digit_table by (simp_all add: list_all_iff)

lemma hex_fixed_two: "hex_fixed 2 n = [digit_char (n div 16 mod 16), digit_char (n mod 16)]"
  by (simp add: numeral_2_eq_2)

lemma sample_dec_enc: "sample_dec (sample_enc bs) = Inr bs"
proof (induction bs)
  case (Cons b bs)
  have "16 * (unat b div 16 mod 16) + unat b mod 16 = unat b"
    using unat_below [of b] by simp
  then show ?case
    using Cons by (simp add: sample_enc_def hex_fixed_two digit_val_digit_char)
qed (simp add: sample_enc_def)

lemma sample_enc_digits: "list_all hex_digit_char (sample_enc bs)"
  by (induction bs) (simp_all add: sample_enc_def hex_fixed_two hex_digit_digit_char)

lemma sample_hex_laws: "hex_laws sample_enc sample_dec"
  by (simp add: hex_laws_def sample_dec_enc sample_enc_digits)

section \<open>Node ids as text\<close>

definition node_id_hex :: "(bytes \<Rightarrow> string) \<Rightarrow> node_id \<Rightarrow> string" where
  "node_id_hex enc n = ''0x'' @ enc n"

definition parse_node_id_hex :: "(string \<Rightarrow> string + bytes) \<Rightarrow> string \<Rightarrow> string + node_id" where
  "parse_node_id_hex dec s =
     (let hex_str = (case strip_prefix ''0x'' (trim s) of Some r \<Rightarrow> r | None \<Rightarrow> trim s) in
      case dec hex_str of
        Inl e \<Rightarrow> Inl (''invalid node_id hex: '' @ e)
      | Inr bs \<Rightarrow> if length bs \<noteq> 32 then Inl ''node_id must be 32 bytes'' else Inr bs)"

lemma node_id_hex_graph: "hex_laws enc dec \<Longrightarrow> \<forall>c \<in> set (node_id_hex enc n). graph_char c"
  using hex_lawsD(2) [of enc dec n] hex_digit_graph
  by (auto simp: node_id_hex_def graph_char_def list_all_iff)

lemma node_id_hex_inject:
  assumes "hex_laws enc dec"
  shows "node_id_hex enc m = node_id_hex enc n \<longleftrightarrow> m = n"
proof
  assume "node_id_hex enc m = node_id_hex enc n"
  then have "dec (enc m) = dec (enc n)"
    by (simp add: node_id_hex_def)
  then show "m = n"
    by (simp add: hex_lawsD(1) [OF assms])
qed simp

lemma parse_node_id_length: "parse_node_id_hex dec s = Inr n \<Longrightarrow> length n = 32"
  by (auto simp: parse_node_id_hex_def Let_def split: sum.splits if_splits option.splits)

text \<open>The text of a 32-byte node id parses back to the id, with or without the \<open>0x\<close> prefix and
  with any white space around it that \<open>trim\<close> removes; nothing that parses has another length.\<close>

theorem node_id_text_roundtrip:
  assumes "hex_laws enc dec" "length n = 32" "trim s = node_id_hex enc n \<or> trim s = enc n"
  shows "parse_node_id_hex dec s = Inr n"
  using assms(2,3) hex_lawsD(1) [OF assms(1), of n] hex_no_prefix [OF hex_lawsD(2) [OF assms(1)], of n]
  using strip_prefix_append [of "''0x''" "enc n"]
  by (auto simp: parse_node_id_hex_def Let_def node_id_hex_def)

theorem node_id_text_roundtrip_witness:
  "parse_node_id_hex sample_dec (node_id_hex sample_enc (replicate 32 7)) = Inr (replicate 32 7)"
  by (rule node_id_text_roundtrip [OF sample_hex_laws])
    (simp_all add: trim_graph [OF node_id_hex_graph [OF sample_hex_laws]])

section \<open>The connect challenge\<close>

definition connect_domain :: bytes where
  "connect_domain = map of_char ''sparkl-router-connect:''"

text \<open>\<open>fill_bytes n\<close> are the \<open>n\<close> bytes that the generator of random numbers fills a buffer with.\<close>

definition random_nonce :: "(nat \<Rightarrow> bytes) \<Rightarrow> bytes" where
  "random_nonce fill_bytes = fill_bytes 32"

definition connect_challenge_input :: "bytes \<Rightarrow> u64 \<Rightarrow> bytes" where
  "connect_challenge_input nonce block = connect_domain @ nonce @ u64_to_be block"

definition connect_challenge_payload :: "(bytes \<Rightarrow> bytes) \<Rightarrow> bytes \<Rightarrow> u64 \<Rightarrow> bytes" where
  "connect_challenge_payload keccak nonce block = keccak (connect_challenge_input nonce block)"

text \<open>Two challenges with the same payload are the same challenge, nonce and block both, or
  exhibit a Keccak collision: the encoding that is hashed is injective.\<close>

theorem challenge_payload_binds:
  assumes "length n = 32" "length m = 32"
    and "connect_challenge_payload keccak n b = connect_challenge_payload keccak m c"
  shows "n = m \<and> b = c \<or> (\<exists>x y. x \<noteq> y \<and> keccak x = keccak y)"
proof (cases "connect_challenge_input n b = connect_challenge_input m c")
  case True
  with assms(1,2) show ?thesis
    by (simp add: connect_challenge_input_def u64_to_be_inject)
next
  case False
  with assms(3) show ?thesis
    unfolding connect_challenge_payload_def by blast
qed

theorem challenge_payload_binds_witness:
  "connect_challenge_input (replicate 32 1) 5 = connect_challenge_input (replicate 32 1) 5 \<and>
   (replicate 32 (1 :: u8) = replicate 32 1 \<and> (5 :: u64) = 5 \<or>
    (\<exists>x y :: bytes. x \<noteq> y \<and> id x = id y))"
  using challenge_payload_binds [of "replicate 32 1" "replicate 32 1" id 5 5] by simp

definition verify_connect_signature ::
  "(string \<Rightarrow> string + bytes) \<Rightarrow> (bytes \<Rightarrow> string + 'vk) \<Rightarrow> ('vk \<Rightarrow> bytes \<Rightarrow> bytes \<Rightarrow> string + unit) \<Rightarrow>
   bytes \<Rightarrow> string \<Rightarrow> bytes \<Rightarrow> string + unit" where
  "verify_connect_signature dec vk_of vk_verify payload signature_hex pubkey =
     (case dec (trim_start_matches ''0x'' signature_hex) of
        Inl e \<Rightarrow> Inl (''invalid signature hex: '' @ e)
      | Inr sig \<Rightarrow>
          if length sig \<noteq> 64 then Inl ''signature must be 64 bytes''
          else (case vk_of pubkey of
                  Inl e \<Rightarrow> Inl (''invalid ed25519 pubkey: '' @ e)
                | Inr vk \<Rightarrow>
                    (case vk_verify vk payload sig of
                       Inl e \<Rightarrow> Inl (''signature verification failed: '' @ e)
                     | Inr u \<Rightarrow> Inr ())))"

definition node_id_from_ed25519_pubkey :: "(bytes \<Rightarrow> bytes) \<Rightarrow> bytes \<Rightarrow> node_id" where
  "node_id_from_ed25519_pubkey keccak pk = keccak pk"

lemma verify_connect_signature_ok:
  "verify_connect_signature dec vk_of vk_verify payload s pk = Inr () \<longleftrightarrow>
    (\<exists>sig vk. dec (trim_start_matches ''0x'' s) = Inr sig \<and> length sig = 64 \<and> vk_of pk = Inr vk \<and>
       vk_verify vk payload sig = Inr ())"
  by (auto simp: verify_connect_signature_def split: sum.splits)

end
