(* ===== verification/Offerings.thy ===== *)
theory Offerings
  imports Json_Value Node_Auth "HOL-Library.AList"
begin

text \<open>
  Provider offerings (\<open>src/consumer/offerings.rs\<close>): the flat description of one model at one node,
  read from the JSON the node advertises, with the router's own load laid over it, and the status
  of a tunnel by the age of its last pong. \<open>as u32\<close> keeps the low 32 bits; arithmetic on \<open>u64\<close> is
  that of a release build, which wraps.
\<close>

record provider_offering =
  po_node_id :: string
  po_model_id :: string
  po_tunnel_status :: string
  po_context_length :: u32
  po_quantization :: string
  po_parameter_count :: string
  po_source_url :: string
  po_features :: "(string \<times> string) list"
  po_concurrency :: u32
  po_active_requests :: u32
  po_queued_requests :: u32
  po_active_sessions :: u32
  po_available_slots :: u32

section \<open>Reading an entry\<close>

definition u64_or_0 :: "json option \<Rightarrow> u64" where
  "u64_or_0 v = (case Option.bind v as_u64 of Some n \<Rightarrow> n | None \<Rightarrow> 0)"

definition u32_or_0 :: "json option \<Rightarrow> u32" where
  "u32_or_0 v = ucast (u64_or_0 v)"

definition str_or_empty :: "json option \<Rightarrow> string" where
  "str_or_empty v = (case Option.bind v as_str of Some s \<Rightarrow> s | None \<Rightarrow> [])"

definition or_else :: "'a option \<Rightarrow> 'a option \<Rightarrow> 'a option" where
  "or_else x y = (case x of None \<Rightarrow> y | Some _ \<Rightarrow> x)"

definition insert_feature :: "(string \<times> string) list \<Rightarrow> string \<times> json \<Rightarrow> (string \<times> string) list" where
  "insert_feature out kv =
     (case as_str (snd kv) of Some s \<Rightarrow> AList.update (fst kv) s out | None \<Rightarrow> out)"

definition parse_features_map :: "json option \<Rightarrow> (string \<times> string) list" where
  "parse_features_map v =
     (case v of
        Some (JObj kvs) \<Rightarrow> foldl insert_feature [] kvs
      | _ \<Rightarrow> [])"

definition catalog_active :: "json \<Rightarrow> u32" where
  "catalog_active entry =
     u32_or_0 (or_else (json_pointer [''sparkl'', ''active_requests''] entry)
                       (json_pointer [''sparkl'', ''active_sessions''] entry))"

definition entry_concurrency :: "json \<Rightarrow> u32" where
  "entry_concurrency entry = u32_or_0 (json_pointer [''sparkl'', ''concurrency''] entry)"

definition slots_left :: "u32 \<Rightarrow> u32 \<Rightarrow> u32" where
  "slots_left concurrency active = (if 0 < concurrency then sat_sub concurrency active else - 1)"

definition build_offering_with_load ::
  "(bytes \<Rightarrow> string) \<Rightarrow> node_id \<Rightarrow> string \<Rightarrow> json \<Rightarrow> string \<Rightarrow> u32 option \<Rightarrow> u32 option \<Rightarrow> provider_offering" where
  "build_offering_with_load enc n model entry status router_active router_queued =
     (let active = (case router_active of Some a \<Rightarrow> a | None \<Rightarrow> catalog_active entry);
          queued = (case router_queued of Some q \<Rightarrow> q | None \<Rightarrow> 0);
          concurrency = entry_concurrency entry;
          sparkl = json_get ''sparkl'' entry in
      \<lparr>po_node_id = node_id_hex enc n, po_model_id = model, po_tunnel_status = status,
       po_context_length = u32_or_0 (json_get ''context_length'' entry),
       po_quantization = str_or_empty (Option.bind sparkl (json_get ''quantization'')),
       po_parameter_count = str_or_empty (Option.bind sparkl (json_get ''parameter_count'')),
       po_source_url = str_or_empty (Option.bind sparkl (json_get ''source_url'')),
       po_features = parse_features_map (Option.bind sparkl (json_get ''features'')),
       po_concurrency = concurrency, po_active_requests = active, po_queued_requests = queued,
       po_active_sessions = active, po_available_slots = slots_left concurrency active\<rparr>)"

definition build_offering ::
  "(bytes \<Rightarrow> string) \<Rightarrow> node_id \<Rightarrow> string \<Rightarrow> json \<Rightarrow> string \<Rightarrow> provider_offering" where
  "build_offering enc n model entry status = build_offering_with_load enc n model entry status None None"

section \<open>Tunnel status\<close>

definition tunnel_status_for_pong :: "int \<Rightarrow> int \<Rightarrow> u64 \<Rightarrow> string" where
  "tunnel_status_for_pong now last_pong stale_secs =
     (let age = sat_i64 (now - last_pong) in
       if age \<le> as_i64 stale_secs then ''online''
       else if age \<le> as_i64 (stale_secs * 2) then ''degraded''
       else ''offline'')"

section \<open>Lemmas\<close>

lemma slots_left_le: "0 < c \<Longrightarrow> unat (slots_left c a) = unat c - unat a"
  by (simp add: slots_left_def unat_sat_sub)

lemma dom_insert_feature:
  "dom (map_of (insert_feature out kv)) = dom (map_of out) \<union> {k. \<exists>s. (k, JStr s) = kv}"
  by (cases kv; cases "snd kv") (auto simp: insert_feature_def update_conv' split: if_splits)

lemma parse_features_domain:
  "dom (map_of (parse_features_map (Some (JObj kvs)))) = {k. \<exists>s. (k, JStr s) \<in> set kvs}"
proof -
  have "dom (map_of (foldl insert_feature out kvs)) = dom (map_of out) \<union> {k. \<exists>s. (k, JStr s) \<in> set kvs}" for out
    by (induction kvs arbitrary: out) (simp, simp add: dom_insert_feature, blast)
  from this [of "[]"] show ?thesis
    by (simp add: parse_features_map_def)
qed

lemma doubled_threshold:
  fixes s :: u64
  assumes "unat s < 2 ^ 62"
  shows "as_i64 s = int (unat s)" "as_i64 (s * 2) = 2 * int (unat s)"
proof -
  have "unat (s * 2) = unat s * 2"
    using assms by (simp add: unat_mult_lem [THEN iffD1])
  then show "as_i64 s = int (unat s)" "as_i64 (s * 2) = 2 * int (unat s)"
    using assms as_i64_small [of s] as_i64_small [of "s * 2"] by simp_all
qed

text \<open>With a threshold below \<open>2 ^ 62\<close> seconds and timestamps in range, a tunnel is online up to
  the threshold, degraded up to twice the threshold and offline beyond.\<close>

theorem tunnel_status_by_age:
  assumes "unat stale < 2 ^ 62" "i64_range (now - last_pong)"
  shows "tunnel_status_for_pong now last_pong stale =
    (if now - last_pong \<le> int (unat stale) then ''online''
     else if now - last_pong \<le> 2 * int (unat stale) then ''degraded'' else ''offline'')"
  using assms by (simp add: tunnel_status_for_pong_def Let_def doubled_threshold)

theorem tunnel_status_by_age_witness:
  "tunnel_status_for_pong 1000 940 40 = ''degraded''"
  using tunnel_status_by_age [of 40 1000 940] by (simp add: i64_range_def)

text \<open>A declared concurrency that is a multiple of \<open>2 ^ 32\<close> is read as 0, which the router takes
  for unlimited: such an offering reports \<open>u32::MAX\<close> free slots whatever its load.\<close>

theorem concurrency_truncates_to_unlimited:
  assumes "json_pointer [''sparkl'', ''concurrency''] entry = Some (json_u64 c)" "2 ^ 32 dvd unat c"
  shows "po_concurrency (build_offering_with_load enc n m entry st a q) = 0 \<and>
    po_available_slots (build_offering_with_load enc n m entry st a q) = - 1"
proof -
  have "(word_of_nat (unat c) :: u32) = 0"
    unfolding word_of_nat_eq_0_iff using assms(2) by simp
  then have "(ucast c :: u32) = 0"
    by (simp only: of_nat_unat)
  then have "entry_concurrency entry = 0"
    unfolding entry_concurrency_def u32_or_0_def u64_or_0_def assms(1) by simp
  then show ?thesis
    by (simp add: build_offering_with_load_def Let_def slots_left_def)
qed

theorem concurrency_truncates_to_unlimited_witness:
  "po_available_slots (build_offering sample_enc [] ''m''
     (JObj [(''sparkl'', JObj [(''concurrency'', json_u64 4294967296)])]) ''online'') = - 1"
  unfolding build_offering_def
  by (rule concurrency_truncates_to_unlimited [where c = 4294967296, THEN conjunct2])
    (simp_all add: unsigned_numeral take_bit_eq_mod)

end
