(* ===== verification/Router_Interfaces.thy ===== *)
theory Router_Interfaces
  imports Router_Prelude
begin

text \<open>
  The interfaces the components are verified against. Each locale fixes the operations a client
  calls and assumes the laws the provider promises; the client facts are proved once here, and
  every component that provides the interface interprets it on its own operations.
  \<^item> \<open>keyed_table\<close>: a table with lookup, store and erase per key (tunnel registry, pending map,
    session cache, usage batches);
  \<^item> \<open>invariant_system\<close>: a partial step function with an inductive invariant, and its extension
    \<open>measured_system\<close> with a quantity every step conserves up to a known inflow and
    \<open>amortised_system\<close> with a potential that pays for the steps;
  \<^item> \<open>simulation\<close>: a system whose steps are those of an abstract one, named by labels;
  \<^item> \<open>demultiplexer\<close>: messages of many keys arriving on one stream, each key seeing its own.
\<close>

section \<open>Keyed tables\<close>

datatype ('k, 'v) table_op = Put 'k 'v | Del 'k

fun apply_ops :: "('k \<Rightarrow> 'v \<Rightarrow> 's \<Rightarrow> 's) \<Rightarrow> ('k \<Rightarrow> 's \<Rightarrow> 's) \<Rightarrow> ('k, 'v) table_op list \<Rightarrow> 's \<Rightarrow> 's" where
  "apply_ops put del [] s = s"
| "apply_ops put del (Put k v # ops) s = apply_ops put del ops (put k v s)"
| "apply_ops put del (Del k # ops) s = apply_ops put del ops (del k s)"

fun net_effect :: "'k \<Rightarrow> 'v option \<Rightarrow> ('k, 'v) table_op list \<Rightarrow> 'v option" where
  "net_effect k d [] = d"
| "net_effect k d (Put k' v # ops) = net_effect k (if k' = k then Some v else d) ops"
| "net_effect k d (Del k' # ops) = net_effect k (if k' = k then None else d) ops"

fun op_key :: "('k, 'v) table_op \<Rightarrow> 'k" where
  "op_key (Put k v) = k"
| "op_key (Del k) = k"

lemma net_effect_untouched: "k \<notin> op_key ` set ops \<Longrightarrow> net_effect k d ops = d"
  by (induction k d ops rule: net_effect.induct) auto

lemma net_effect_append: "net_effect k d (xs @ ys) = net_effect k (net_effect k d xs) ys"
  by (induction k d xs rule: net_effect.induct) auto

locale keyed_table =
  fixes lookup :: "'s \<Rightarrow> 'k \<Rightarrow> 'v option"
    and put :: "'k \<Rightarrow> 'v \<Rightarrow> 's \<Rightarrow> 's"
    and del :: "'k \<Rightarrow> 's \<Rightarrow> 's"
  assumes lookup_put: "lookup (put k v s) k' = (if k' = k then Some v else lookup s k')"
    and lookup_del: "lookup (del k s) k' = (if k' = k then None else lookup s k')"
begin

lemmas table_laws = lookup_put lookup_del

text \<open>The state of a key after any history is decided by the last operation on that key.\<close>

lemma lookup_history: "lookup (apply_ops put del ops s) k = net_effect k (lookup s k) ops"
proof (induction ops arbitrary: s)
  case (Cons x ops)
  then show ?case
    by (cases x) (simp_all add: table_laws)
qed simp

lemma history_frame: "k \<notin> op_key ` set ops \<Longrightarrow> lookup (apply_ops put del ops s) k = lookup s k"
  by (simp add: lookup_history net_effect_untouched)

lemma erased_last: "lookup (apply_ops put del (ops @ [Del k]) s) k = None"
  by (simp add: lookup_history net_effect_append)

lemma stored_last: "lookup (apply_ops put del (ops @ [Put k v]) s) k = Some v"
  by (simp add: lookup_history net_effect_append)

end

section \<open>Systems with an invariant\<close>

fun run_steps :: "('s \<Rightarrow> 'e \<Rightarrow> 's option) \<Rightarrow> 's \<Rightarrow> 'e list \<Rightarrow> 's option" where
  "run_steps step s [] = Some s"
| "run_steps step s (e # es) = (case step s e of None \<Rightarrow> None | Some t \<Rightarrow> run_steps step t es)"

inductive reachable_by :: "('s \<Rightarrow> 'e \<Rightarrow> 's option) \<Rightarrow> 's \<Rightarrow> 's \<Rightarrow> bool"
  for step :: "'s \<Rightarrow> 'e \<Rightarrow> 's option" and s0 :: 's where
  reach_start: "reachable_by step s0 s0"
| reach_step: "reachable_by step s0 s \<Longrightarrow> step s e = Some t \<Longrightarrow> reachable_by step s0 t"

lemma run_steps_append:
  "run_steps step s (xs @ ys) =
    (case run_steps step s xs of None \<Rightarrow> None | Some t \<Rightarrow> run_steps step t ys)"
  by (induction step s xs rule: run_steps.induct) (auto split: option.split)

lemma run_steps_reachable:
  "reachable_by step s0 s \<Longrightarrow> run_steps step s es = Some t \<Longrightarrow> reachable_by step s0 t"
  by (induction step s es rule: run_steps.induct)
    (auto split: option.splits intro: reachable_by.intros)

lemma reachable_run:
  assumes "reachable_by step s0 t"
  shows "\<exists>es. run_steps step s0 es = Some t"
  using assms
proof (induction rule: reachable_by.induct)
  case reach_start
  have "run_steps step s0 [] = Some s0" by simp
  then show ?case ..
next
  case (reach_step s e t)
  then obtain es where "run_steps step s0 es = Some s" by blast
  with reach_step.hyps have "run_steps step s0 (es @ [e]) = Some t"
    by (simp add: run_steps_append)
  then show ?case ..
qed

locale invariant_system =
  fixes start :: 's
    and step :: "'s \<Rightarrow> 'e \<Rightarrow> 's option"
    and inv :: "'s \<Rightarrow> bool"
  assumes inv_start: "inv start"
    and inv_step: "inv s \<Longrightarrow> step s e = Some t \<Longrightarrow> inv t"
begin

lemma inv_reachable: "reachable_by step start s \<Longrightarrow> inv s"
  by (induction rule: reachable_by.induct) (auto intro: inv_start inv_step)

lemma inv_run_from: "inv s \<Longrightarrow> run_steps step s es = Some t \<Longrightarrow> inv t"
proof (induction es arbitrary: s)
  case (Cons e es)
  then show ?case
    by (auto split: option.splits intro: inv_step)
qed simp

lemma inv_run: "run_steps step start es = Some t \<Longrightarrow> inv t"
  using inv_run_from inv_start by blast

end

fun run_inflow :: "('s \<Rightarrow> 'e \<Rightarrow> 's option) \<Rightarrow> ('s \<Rightarrow> 'e \<Rightarrow> nat) \<Rightarrow> 's \<Rightarrow> 'e list \<Rightarrow> nat" where
  "run_inflow step inflow s [] = 0"
| "run_inflow step inflow s (e # es) =
     inflow s e + (case step s e of None \<Rightarrow> 0 | Some t \<Rightarrow> run_inflow step inflow t es)"

locale measured_system = invariant_system start step inv
  for start :: 's and step :: "'s \<Rightarrow> 'e \<Rightarrow> 's option" and inv :: "'s \<Rightarrow> bool" +
  fixes level :: "'s \<Rightarrow> nat"
    and inflow :: "'s \<Rightarrow> 'e \<Rightarrow> nat"
  assumes level_step: "inv s \<Longrightarrow> step s e = Some t \<Longrightarrow> level t = level s + inflow s e"
begin

lemma level_run_from:
  "inv s \<Longrightarrow> run_steps step s es = Some t \<Longrightarrow> level t = level s + run_inflow step inflow s es"
proof (induction es arbitrary: s)
  case (Cons e es)
  from Cons.prems(2) obtain u where u: "step s e = Some u" "run_steps step u es = Some t"
    by (auto split: option.splits)
  have "level t = level u + run_inflow step inflow u es"
    using Cons.IH Cons.prems(1) u inv_step by blast
  with level_step [OF Cons.prems(1) u(1)] u(1) show ?case by simp
qed simp

lemma level_run: "run_steps step start es = Some t \<Longrightarrow> level t = level start + run_inflow step inflow start es"
  using level_run_from inv_start by blast

end

text \<open>What every step costs is paid by the potential and a budget per event, so the cost of a whole run is
  bounded by its budget.\<close>

locale amortised_system = invariant_system start step inv
  for start :: 's and step :: "'s \<Rightarrow> 'e \<Rightarrow> 's option" and inv :: "'s \<Rightarrow> bool" +
  fixes potential :: "'s \<Rightarrow> nat"
    and cost :: "'e \<Rightarrow> nat"
    and budget :: "'e \<Rightarrow> nat"
  assumes amortised: "inv s \<Longrightarrow> step s e = Some t \<Longrightarrow> cost e + potential t \<le> potential s + budget e"
begin

lemma amortised_run_from:
  "inv s \<Longrightarrow> run_steps step s es = Some t \<Longrightarrow>
    sum_list (map cost es) + potential t \<le> potential s + sum_list (map budget es)"
proof (induction es arbitrary: s)
  case (Cons e es)
  from Cons.prems(2) obtain u where u: "step s e = Some u" "run_steps step u es = Some t"
    by (auto split: option.splits)
  with Cons.IH [OF inv_step [OF Cons.prems(1) u(1)] u(2)] amortised [OF Cons.prems(1) u(1)]
  show ?case by simp
qed simp

lemma amortised_run:
  "run_steps step start es = Some t \<Longrightarrow>
    sum_list (map cost es) + potential t \<le> potential start + sum_list (map budget es)"
  using amortised_run_from inv_start by blast

end

section \<open>Simulations\<close>

text \<open>A system that implements an abstract one: every concrete step is the abstract step named by its
  label, seen through \<open>abs\<close>.\<close>

fun run_labels :: "('s \<Rightarrow> 'e \<Rightarrow> 's option) \<Rightarrow> ('s \<Rightarrow> 'e \<Rightarrow> 'a) \<Rightarrow> 's \<Rightarrow> 'e list \<Rightarrow> 'a list" where
  "run_labels step label s [] = []"
| "run_labels step label s (e # es) =
     label s e # (case step s e of None \<Rightarrow> [] | Some t \<Rightarrow> run_labels step label t es)"

locale simulation = invariant_system start step inv
  for start :: 's and step :: "'s \<Rightarrow> 'e \<Rightarrow> 's option" and inv :: "'s \<Rightarrow> bool" +
  fixes abs :: "'s \<Rightarrow> 't"
    and abs_step :: "'t \<Rightarrow> 'a \<Rightarrow> 't option"
    and label :: "'s \<Rightarrow> 'e \<Rightarrow> 'a"
  assumes simulates: "inv s \<Longrightarrow> step s e = Some t \<Longrightarrow> abs_step (abs s) (label s e) = Some (abs t)"
begin

lemma simulates_run_from:
  "inv s \<Longrightarrow> run_steps step s es = Some t \<Longrightarrow>
    run_steps abs_step (abs s) (run_labels step label s es) = Some (abs t)"
proof (induction es arbitrary: s)
  case (Cons e es)
  from Cons.prems(2) obtain u where u: "step s e = Some u" "run_steps step u es = Some t"
    by (auto split: option.splits)
  with Cons.IH [OF inv_step [OF Cons.prems(1) u(1)] u(2)] simulates [OF Cons.prems(1) u(1)]
  show ?case by simp
qed simp

lemma simulates_run:
  "run_steps step start es = Some t \<Longrightarrow>
    run_steps abs_step (abs start) (run_labels step label start es) = Some (abs t)"
  using simulates_run_from inv_start by blast

end

section \<open>Demultiplexers\<close>

locale demultiplexer =
  fixes inv :: "'s \<Rightarrow> bool"
    and view :: "'k \<Rightarrow> 's \<Rightarrow> 'l"
    and global_step :: "'s \<Rightarrow> 'k \<Rightarrow> 'm \<Rightarrow> 's"
    and local_step :: "'l \<Rightarrow> 'm \<Rightarrow> 'l"
  assumes inv_global: "inv s \<Longrightarrow> inv (global_step s k m)"
    and view_own: "inv s \<Longrightarrow> view k (global_step s k m) = local_step (view k s) m"
    and view_other: "inv s \<Longrightarrow> k' \<noteq> k \<Longrightarrow> view k' (global_step s k m) = view k' s"
begin

lemma inv_stream: "inv s \<Longrightarrow> inv (foldl (\<lambda>s (k, m). global_step s k m) s ms)"
  by (induction ms arbitrary: s) (auto intro: inv_global)

text \<open>What a key sees of an interleaved stream is its own messages, in order.\<close>

lemma view_stream:
  "inv s \<Longrightarrow> view k (foldl (\<lambda>s (k, m). global_step s k m) s ms) =
    foldl local_step (view k s) (map snd (filter (\<lambda>(k', m). k' = k) ms))"
proof (induction ms arbitrary: s)
  case (Cons x ms)
  obtain k' m where x: "x = (k', m)" by (cases x)
  have "inv (global_step s k' m)"
    using Cons.prems by (rule inv_global)
  with Cons show ?case
    by (cases "k' = k") (simp_all add: x view_own view_other)
qed simp

lemma streams_with_equal_views:
  assumes "inv s" "filter (\<lambda>(k', m). k' = k) ms = filter (\<lambda>(k', m). k' = k) ns"
  shows "view k (foldl (\<lambda>s (k, m). global_step s k m) s ms) =
    view k (foldl (\<lambda>s (k, m). global_step s k m) s ns)"
  using assms by (simp add: view_stream)

end

end
