(* ===== verification/Capacity.thy ===== *)
theory Capacity
  imports Rust_Strings Router_Interfaces
begin

text \<open>
  Admission control, \<open>src/capacity/mod.rs\<close>: the capacity tracker, its slots shared through
  \<open>Arc\<close>, and the lock-free \<open>acquire\<close> loop as a state machine with one step per atomic access,
  so that every interleaving of concurrent requests, guard drops, cancellations and node removals
  is a run of the model.

  A \<open>Slot\<close> is an element of \<open>heap\<close>, and an \<open>Arc<Slot>\<close> is its index: a task keeps the index it
  got, also after the map entry is gone. The notification primitive and the timer are not part of
  the program: when and how the wait of a task ends is an event (\<open>Wake\<close>) of the environment,
  and so is the spurious failure a weak compare-exchange may have.
\<close>

section \<open>Keys, slots, errors\<close>

datatype cap_key = ModelCapacityKey (key_node: node_id) (key_model: string)

instantiation cap_key :: linorder
begin

definition less_eq_cap_key :: "cap_key \<Rightarrow> cap_key \<Rightarrow> bool" where
  "less_eq_cap_key a b \<longleftrightarrow>
     (key_model a, map unat (key_node a)) \<le> (key_model b, map unat (key_node b))"

definition less_cap_key :: "cap_key \<Rightarrow> cap_key \<Rightarrow> bool" where
  "less_cap_key a b \<longleftrightarrow>
     (key_model a, map unat (key_node a)) < (key_model b, map unat (key_node b))"

instance
proof
  fix x y z :: cap_key
  show "x < y \<longleftrightarrow> x \<le> y \<and> \<not> y \<le> x"
    unfolding less_eq_cap_key_def less_cap_key_def by (rule less_le_not_le)
  show "x \<le> x"
    unfolding less_eq_cap_key_def by (rule order_refl)
  show "x \<le> y \<Longrightarrow> y \<le> z \<Longrightarrow> x \<le> z"
    unfolding less_eq_cap_key_def by (rule order_trans)
  show "x \<le> y \<or> y \<le> x"
    unfolding less_eq_cap_key_def by (rule linear)
  assume "x \<le> y" "y \<le> x"
  then have "(key_model x, map unat (key_node x)) = (key_model y, map unat (key_node y))"
    unfolding less_eq_cap_key_def by (rule antisym)
  moreover have "inj (unat :: u8 \<Rightarrow> nat)"
    by (rule injI) (rule word_unat_eq_iff [THEN iffD2])
  ultimately show "x = y"
    by (cases x; cases y) (simp add: inj_map_eq_map)
qed

end

record slot =
  slot_active :: u32
  slot_queued :: u32

record capacity_snapshot =
  active_requests :: u32
  queued_requests :: u32
  snap_concurrency :: u32

datatype acquire_error =
    QueueFull (err_active: u32) (err_concurrency: u32) (err_queued: u32)
  | WaitTimeout (err_active: u32) (err_concurrency: u32) (err_queued: u32)

text \<open>
  The program counter of one request in \<open>acquire\<close> and after it: the key, the declared
  concurrency, the queue bound, the slot it holds an \<open>Arc\<close> of, and the values it has loaded.
  \<open>Holding\<close> is a live \<open>CapacityGuard\<close>; \<open>Abandoned\<close> is a request whose future was dropped while
  it waited.
\<close>

datatype task =
    Entering cap_key u32 u32
  | Looping cap_key u32 u32 nat
  | CasActive cap_key u32 u32 nat u32
  | CheckQueue cap_key u32 u32 nat u32
  | CasQueued cap_key u32 u32 nat u32
  | Waiting cap_key u32 u32 nat
  | TimedOut u32 nat
  | TimedOutRead u32 nat u32
  | Holding cap_key bool
  | Failed acquire_error
  | Abandoned nat
  | Finished

record cap_state =
  slots :: "cap_key \<Rightarrow> nat option"
  heap :: "slot list"
  tasks :: "task list"

definition new_tracker :: cap_state where
  "new_tracker = \<lparr>slots = (\<lambda>_. None), heap = [], tasks = []\<rparr>"

section \<open>Operations of the tracker\<close>

definition slot_for :: "cap_key \<Rightarrow> cap_state \<Rightarrow> nat \<times> cap_state" where
  "slot_for k s =
     (case slots s k of
        Some r \<Rightarrow> (r, s)
      | None \<Rightarrow>
          (let r = length (heap s) in
            (r, s\<lparr>slots := (slots s)(k := Some r),
                  heap := heap s @ [\<lparr>slot_active = 0, slot_queued = 0\<rparr>]\<rparr>)))"

definition snapshot :: "cap_key \<Rightarrow> cap_state \<Rightarrow> capacity_snapshot \<times> cap_state" where
  "snapshot k s =
     (let (r, s') = slot_for k s in
       (\<lparr>active_requests = slot_active (heap s' ! r),
         queued_requests = slot_queued (heap s' ! r),
         snap_concurrency = 0\<rparr>, s'))"

definition snapshot_with_concurrency :: "cap_key \<Rightarrow> u32 \<Rightarrow> cap_state \<Rightarrow> capacity_snapshot \<times> cap_state" where
  "snapshot_with_concurrency k c s =
     (let (snap, s') = snapshot k s in (snap\<lparr>snap_concurrency := c\<rparr>, s'))"

definition all_snapshots :: "cap_state \<Rightarrow> cap_key \<Rightarrow> (u32 \<times> u32) option" where
  "all_snapshots s k =
     map_option (\<lambda>r. (slot_active (heap s ! r), slot_queued (heap s ! r))) (slots s k)"

definition clear_node :: "node_id \<Rightarrow> cap_state \<Rightarrow> cap_state" where
  "clear_node n s = s\<lparr>slots := (\<lambda>k. if key_node k \<noteq> n then slots s k else None)\<rparr>"

definition set_active :: "nat \<Rightarrow> u32 \<Rightarrow> cap_state \<Rightarrow> cap_state" where
  "set_active r v s = s\<lparr>heap := (heap s)[r := (heap s ! r)\<lparr>slot_active := v\<rparr>]\<rparr>"

definition set_queued :: "nat \<Rightarrow> u32 \<Rightarrow> cap_state \<Rightarrow> cap_state" where
  "set_queued r v s = s\<lparr>heap := (heap s)[r := (heap s ! r)\<lparr>slot_queued := v\<rparr>]\<rparr>"

definition release_inner :: "cap_key \<Rightarrow> cap_state \<Rightarrow> cap_state" where
  "release_inner k s =
     (case slots s k of
        None \<Rightarrow> s
      | Some r \<Rightarrow> set_active r (slot_active (heap s ! r) - 1) s)"

section \<open>The acquire loop, one atomic access per step\<close>

text \<open>
  \<open>task_step ok t s\<close> is the next atomic access of a task that does not wait; \<open>ok\<close> is false when
  a weak compare-exchange fails although the value is the expected one.
\<close>

fun task_step :: "bool \<Rightarrow> task \<Rightarrow> cap_state \<Rightarrow> (task \<times> cap_state) option" where
  "task_step ok (Entering k c m) s =
     (if c = 0 then Some (Holding k True, s)
      else let (r, s') = slot_for k s in Some (Looping k c m r, s'))"
| "task_step ok (Looping k c m r) s =
     (let a = slot_active (heap s ! r) in
       if a < c then Some (CasActive k c m r a, s) else Some (CheckQueue k c m r a, s))"
| "task_step ok (CasActive k c m r a) s =
     (if ok \<and> slot_active (heap s ! r) = a then Some (Holding k False, set_active r (a + 1) s)
      else Some (Looping k c m r, s))"
| "task_step ok (CheckQueue k c m r a) s =
     (let q = slot_queued (heap s ! r) in
       if m = 0 \<or> m \<le> q then Some (Failed (QueueFull a c q), s)
       else Some (CasQueued k c m r q, s))"
| "task_step ok (CasQueued k c m r q) s =
     (if ok \<and> slot_queued (heap s ! r) = q then Some (Waiting k c m r, set_queued r (q + 1) s)
      else Some (Looping k c m r, s))"
| "task_step ok (TimedOut c r) s = Some (TimedOutRead c r (slot_queued (heap s ! r)), s)"
| "task_step ok (TimedOutRead c r q) s =
     Some (Failed (WaitTimeout (slot_active (heap s ! r)) c q), s)"
| "task_step ok _ s = None"

text \<open>The wait ends, by a notification or by the timeout: the task leaves the queue either way.\<close>

fun wake_step :: "bool \<Rightarrow> task \<Rightarrow> cap_state \<Rightarrow> (task \<times> cap_state) option" where
  "wake_step notified (Waiting k c m r) s =
     Some (if notified then Looping k c m r else TimedOut c r,
           set_queued r (slot_queued (heap s ! r) - 1) s)"
| "wake_step notified _ s = None"

text \<open>Dropping the guard runs \<open>Drop for CapacityGuard\<close>.\<close>

fun drop_guard :: "task \<Rightarrow> cap_state \<Rightarrow> (task \<times> cap_state) option" where
  "drop_guard (Holding k unlimited) s =
     Some (Finished, if \<not> unlimited then release_inner k s else s)"
| "drop_guard _ s = None"

text \<open>
  The future of a waiting request is dropped (the client went away): nothing after the
  \<open>await\<close> runs, so the queue counter keeps the unit the task added.
\<close>

fun cancel_step :: "task \<Rightarrow> cap_state \<Rightarrow> (task \<times> cap_state) option" where
  "cancel_step (Waiting k c m r) s = Some (Abandoned r, s)"
| "cancel_step _ s = None"

datatype cap_event =
    Spawn cap_key u32 u32
  | Run nat bool
  | Wake nat bool
  | DropGuard nat
  | Cancel nat
  | Snapshot cap_key
  | ClearNode node_id

definition at_task :: "nat \<Rightarrow> (task \<Rightarrow> cap_state \<Rightarrow> (task \<times> cap_state) option) \<Rightarrow> cap_state \<Rightarrow> cap_state option" where
  "at_task i f s =
     (if i < length (tasks s) then
        (case f (tasks s ! i) s of
           None \<Rightarrow> None
         | Some (t, s') \<Rightarrow> Some (s'\<lparr>tasks := (tasks s)[i := t]\<rparr>))
      else None)"

fun cap_step :: "cap_state \<Rightarrow> cap_event \<Rightarrow> cap_state option" where
  "cap_step s (Spawn k c m) = Some (s\<lparr>tasks := tasks s @ [Entering k c m]\<rparr>)"
| "cap_step s (Run i ok) = at_task i (task_step ok) s"
| "cap_step s (Wake i notified) = at_task i (wake_step notified) s"
| "cap_step s (DropGuard i) = at_task i drop_guard s"
| "cap_step s (Cancel i) = at_task i cancel_step s"
| "cap_step s (Snapshot k) = Some (snd (snapshot k s))"
| "cap_step s (ClearNode n) = Some (clear_node n s)"

section \<open>Queue accounting, in every run\<close>

fun in_queue :: "nat \<Rightarrow> task \<Rightarrow> bool" where
  "in_queue r (Waiting k c m r') = (r' = r)"
| "in_queue r (Abandoned r') = (r' = r)"
| "in_queue r _ = False"

fun task_wf :: "nat \<Rightarrow> task \<Rightarrow> bool" where
  "task_wf n (Looping k c m r) = (r < n)"
| "task_wf n (CasActive k c m r a) = (r < n \<and> a < c)"
| "task_wf n (CheckQueue k c m r a) = (r < n)"
| "task_wf n (CasQueued k c m r q) = (r < n \<and> q < m)"
| "task_wf n (Waiting k c m r) = (r < n)"
| "task_wf n (TimedOut c r) = (r < n)"
| "task_wf n (TimedOutRead c r q) = (r < n)"
| "task_wf n (Abandoned r) = (r < n)"
| "task_wf n _ = True"

definition queue_inv :: "cap_state \<Rightarrow> bool" where
  "queue_inv s \<longleftrightarrow>
     (\<forall>t \<in> set (tasks s). task_wf (length (heap s)) t) \<and>
     (\<forall>k r. slots s k = Some r \<longrightarrow> r < length (heap s)) \<and>
     (\<forall>r < length (heap s). unat (slot_queued (heap s ! r)) = count_if (in_queue r) (tasks s))"

lemma queue_invD:
  assumes "queue_inv s"
  shows "i < length (tasks s) \<Longrightarrow> task_wf (length (heap s)) (tasks s ! i)"
    and "slots s k = Some r \<Longrightarrow> r < length (heap s)"
    and "r < length (heap s) \<Longrightarrow> unat (slot_queued (heap s ! r)) = count_if (in_queue r) (tasks s)"
  using assms by (auto simp: queue_inv_def)

lemma task_wf_mono: "task_wf m t \<Longrightarrow> m \<le> n \<Longrightarrow> task_wf n t"
  by (cases t) auto

lemma in_queue_wf: "task_wf n t \<Longrightarrow> in_queue r t \<Longrightarrow> r < n"
  by (cases t) auto

lemma slot_for_cases:
  obtains (known) r where "slots s k = Some r" "slot_for k s = (r, s)"
  | (fresh) "slots s k = None"
    "slot_for k s = (length (heap s), s\<lparr>slots := (slots s)(k := Some (length (heap s))),
       heap := heap s @ [\<lparr>slot_active = 0, slot_queued = 0\<rparr>]\<rparr>)"
  by (cases "slots s k") (auto simp: slot_for_def Let_def)

lemma slot_for_tasks [simp]: "tasks (snd (slot_for k s)) = tasks s"
  by (cases rule: slot_for_cases [of s k]) simp_all

lemma queue_inv_slot_for:
  assumes "queue_inv s"
  shows "queue_inv (snd (slot_for k s)) \<and> fst (slot_for k s) < length (heap (snd (slot_for k s)))
    \<and> length (heap s) \<le> length (heap (snd (slot_for k s)))"
proof (cases rule: slot_for_cases [of s k])
  case known
  with assms show ?thesis
    by (auto dest: queue_invD(2))
next
  case fresh
  have "count_if (in_queue (length (heap s))) (tasks s) = 0"
    using assms by (auto simp: queue_inv_def count_if_0_iff dest!: in_queue_wf)
  then show ?thesis
    using assms fresh
    by (auto simp: queue_inv_def nth_append less_Suc_eq intro: task_wf_mono)
qed

lemma queue_inv_task_update:
  assumes "queue_inv s" "i < length (tasks s)" "task_wf (length (heap s)) t"
    and "\<And>r. in_queue r t = in_queue r (tasks s ! i)"
  shows "queue_inv (s\<lparr>tasks := (tasks s)[i := t]\<rparr>)"
  using assms by (auto simp: queue_inv_def count_if_update_same dest!: set_update_subset_insert [THEN subsetD])

lemma queue_inv_set_active:
  "queue_inv s \<Longrightarrow> queue_inv (set_active r v s)"
  by (cases "r < length (heap s)")
    (auto simp: queue_inv_def set_active_def nth_list_update list_update_beyond)

lemma queue_inv_set_queued:
  assumes "queue_inv s" "i < length (tasks s)" "r < length (heap s)" "task_wf (length (heap s)) t"
    and "unat v + (if in_queue r (tasks s ! i) then 1 else 0) =
      unat (slot_queued (heap s ! r)) + (if in_queue r t then 1 else 0)"
    and "\<And>r'. r' \<noteq> r \<Longrightarrow> in_queue r' t = in_queue r' (tasks s ! i)"
  shows "queue_inv ((set_queued r v s)\<lparr>tasks := (tasks s)[i := t]\<rparr>)"
proof -
  have "unat v = count_if (in_queue r) ((tasks s)[i := t])"
    using assms(5) queue_invD(3) [OF assms(1,3)] count_if_update [OF assms(2), of "in_queue r" t]
    by (simp split: if_splits)
  then show ?thesis
    using assms
    by (auto simp: queue_inv_def set_queued_def nth_list_update count_if_update_same
        dest!: set_update_subset_insert [THEN subsetD])
qed

lemma at_task_Some:
  assumes "at_task i f s = Some s'"
  obtains t s'' where "i < length (tasks s)" "f (tasks s ! i) s = Some (t, s'')"
    "s' = s''\<lparr>tasks := (tasks s)[i := t]\<rparr>"
  using assms by (auto simp: at_task_def split: if_splits option.splits)

lemma queue_inv_task_step:
  assumes inv: "queue_inv s" and i: "i < length (tasks s)"
    and step: "task_step ok (tasks s ! i) s = Some (t, s')"
  shows "queue_inv (s'\<lparr>tasks := (tasks s)[i := t]\<rparr>)"
proof -
  note wf = queue_invD(1) [OF inv i]
  note upd = queue_inv_task_update [OF inv i]
  show ?thesis
  proof (cases "tasks s ! i")
    case (Entering k c m)
    obtain r s1 where sf: "slot_for k s = (r, s1)" by fastforce
    have inv1: "queue_inv s1" "r < length (heap s1)" "tasks s1 = tasks s"
      using queue_inv_slot_for [OF inv, of k] slot_for_tasks [of k s] by (simp_all add: sf)
    show ?thesis
    proof (cases "c = 0")
      case True
      with step Entering upd [of "Holding k True"] show ?thesis
        by auto
    next
      case False
      with step Entering sf have t: "t = Looping k c m r" "s' = s1" by auto
      show ?thesis
        unfolding t using queue_inv_task_update [OF inv1(1), of i "Looping k c m r"] inv1 i Entering
        by simp
    qed
  next
    case (CasActive k c m r a)
    show ?thesis
    proof (cases "ok \<and> slot_active (heap s ! r) = a")
      case True
      with step CasActive have t: "t = Holding k False" "s' = set_active r (a + 1) s" by auto
      have "queue_inv (set_active r (a + 1) s)" by (rule queue_inv_set_active [OF inv])
      from queue_inv_task_update [OF this, of i "Holding k False"] show ?thesis
        unfolding t using i CasActive by (simp add: set_active_def)
    next
      case False
      with step CasActive wf upd [of "Looping k c m r"] show ?thesis by auto
    qed
  next
    case (CasQueued k c m r q)
    show ?thesis
    proof (cases "ok \<and> slot_queued (heap s ! r) = q")
      case True
      with step CasQueued have t: "t = Waiting k c m r" "s' = set_queued r (q + 1) s" by auto
      have "q < m" using wf CasQueued by simp
      then have "unat (q + 1) = Suc (unat q)" by (rule unat_inc_below)
      then show ?thesis
        unfolding t using True wf CasQueued i by (intro queue_inv_set_queued [OF inv]) auto
    next
      case False
      with step CasQueued wf upd [of "Looping k c m r"] show ?thesis by auto
    qed
  qed (use step wf upd [of t] in \<open>auto simp: Let_def split: if_splits\<close>)
qed

lemma queue_inv_wake:
  assumes inv: "queue_inv s" and i: "i < length (tasks s)"
    and step: "wake_step notified (tasks s ! i) s = Some (t, s')"
  shows "queue_inv (s'\<lparr>tasks := (tasks s)[i := t]\<rparr>)"
proof (cases "tasks s ! i")
  case (Waiting k c m r)
  have r: "r < length (heap s)"
    using queue_invD(1) [OF inv i] Waiting by simp
  have "0 < unat (slot_queued (heap s ! r))"
    using queue_invD(3) [OF inv r] count_if_pos [OF i, of "in_queue r"] Waiting by simp
  with step Waiting r show ?thesis
    by (cases notified) (auto simp: unat_dec_pos intro!: queue_inv_set_queued [OF inv i])
qed (use step in simp_all)

lemma queue_inv_release: "queue_inv s \<Longrightarrow> queue_inv (release_inner k s)"
  by (simp add: release_inner_def queue_inv_set_active split: option.split)

lemma release_inner_tasks [simp]: "tasks (release_inner k s) = tasks s"
  by (simp add: release_inner_def set_active_def split: option.split)

lemma queue_inv_drop:
  assumes inv: "queue_inv s" and i: "i < length (tasks s)"
    and step: "drop_guard (tasks s ! i) s = Some (t, s')"
  shows "queue_inv (s'\<lparr>tasks := (tasks s)[i := t]\<rparr>)"
proof (cases "tasks s ! i")
  case (Holding k u)
  with step have t: "t = Finished" "s' = (if \<not> u then release_inner k s else s)" by auto
  have s': "queue_inv s'" "tasks s' = tasks s"
    using t inv by (simp_all add: queue_inv_release)
  show ?thesis
    using queue_inv_task_update [OF s'(1), of i Finished] s'(2) i Holding t(1) by simp
qed (use step in simp_all)

lemma queue_inv_step: "queue_inv s \<Longrightarrow> cap_step s e = Some t \<Longrightarrow> queue_inv t"
proof (cases e)
  case (Spawn k c m)
  assume "queue_inv s" "cap_step s e = Some t"
  with Spawn show ?thesis by (auto simp: queue_inv_def)
next
  case (Cancel i)
  assume "queue_inv s" "cap_step s e = Some t"
  with Cancel show ?thesis
    by (auto elim!: at_task_Some cancel_step.elims simp: queue_invD(1)
        intro!: queue_inv_task_update dest: queue_invD(1))
next
  case (Snapshot k)
  assume "queue_inv s" "cap_step s e = Some t"
  with Snapshot queue_inv_slot_for [of s k] show ?thesis
    by (simp add: snapshot_def case_prod_beta)
next
  case (ClearNode n)
  assume "queue_inv s" "cap_step s e = Some t"
  with ClearNode show ?thesis
    by (auto simp: queue_inv_def clear_node_def split: if_splits)
qed (auto elim!: at_task_Some intro: queue_inv_task_step queue_inv_wake queue_inv_drop)

interpretation queueing: invariant_system new_tracker cap_step queue_inv
  by unfold_locales (simp add: queue_inv_def new_tracker_def, rule queue_inv_step)

section \<open>Admission safety, while nodes are cleared only when idle\<close>

fun holds :: "cap_key \<Rightarrow> task \<Rightarrow> bool" where
  "holds k (Holding k' unlimited) = (k' = k \<and> \<not> unlimited)"
| "holds k _ = False"

text \<open>
  \<open>busy n t\<close>: the task holds a guard or an \<open>Arc<Slot>\<close> of a key of node \<open>n\<close>, still in use.
\<close>

fun busy :: "node_id \<Rightarrow> task \<Rightarrow> bool" where
  "busy n (Looping k c m r) = (key_node k = n)"
| "busy n (CasActive k c m r a) = (key_node k = n)"
| "busy n (CheckQueue k c m r a) = (key_node k = n)"
| "busy n (CasQueued k c m r q) = (key_node k = n)"
| "busy n (Waiting k c m r) = (key_node k = n)"
| "busy n (Holding k unlimited) = (key_node k = n \<and> \<not> unlimited)"
| "busy n _ = False"

text \<open>
  The runs the bound on admitted requests is about: the declared concurrency of a key never
  exceeds \<open>C\<close> and its queue bound never exceeds \<open>M\<close>, and a node is cleared only when no
  request of it is under way.
\<close>

fun admissible :: "(cap_key \<Rightarrow> u32) \<Rightarrow> (cap_key \<Rightarrow> u32) \<Rightarrow> cap_state \<Rightarrow> cap_event \<Rightarrow> bool" where
  "admissible C M s (Spawn k c m) = (c \<le> C k \<and> m \<le> M k)"
| "admissible C M s (ClearNode n) = list_all (\<lambda>t. \<not> busy n t) (tasks s)"
| "admissible C M s _ = True"

definition steady_step :: "(cap_key \<Rightarrow> u32) \<Rightarrow> (cap_key \<Rightarrow> u32) \<Rightarrow> cap_state \<Rightarrow> cap_event \<Rightarrow> cap_state option" where
  "steady_step C M s e = (if admissible C M s e then cap_step s e else None)"

fun task_admit :: "(cap_key \<Rightarrow> u32) \<Rightarrow> (cap_key \<Rightarrow> u32) \<Rightarrow> (cap_key \<Rightarrow> nat option) \<Rightarrow> task \<Rightarrow> bool" where
  "task_admit C M sl (Entering k c m) = (c \<le> C k \<and> m \<le> M k)"
| "task_admit C M sl (Looping k c m r) = (c \<le> C k \<and> m \<le> M k \<and> sl k = Some r)"
| "task_admit C M sl (CasActive k c m r a) = (c \<le> C k \<and> m \<le> M k \<and> sl k = Some r)"
| "task_admit C M sl (CheckQueue k c m r a) = (c \<le> C k \<and> m \<le> M k \<and> sl k = Some r)"
| "task_admit C M sl (CasQueued k c m r q) = (c \<le> C k \<and> m \<le> M k \<and> sl k = Some r)"
| "task_admit C M sl (Waiting k c m r) = (c \<le> C k \<and> m \<le> M k \<and> sl k = Some r)"
| "task_admit C M sl (Holding k unlimited) = (unlimited \<or> sl k \<noteq> None)"
| "task_admit C M sl _ = True"

definition slot_admit :: "(cap_key \<Rightarrow> u32) \<Rightarrow> (cap_key \<Rightarrow> u32) \<Rightarrow> cap_state \<Rightarrow> cap_key \<Rightarrow> nat \<Rightarrow> bool" where
  "slot_admit C M s k r \<longleftrightarrow>
     unat (slot_active (heap s ! r)) = count_if (holds k) (tasks s) \<and>
     slot_active (heap s ! r) \<le> C k \<and> slot_queued (heap s ! r) \<le> M k"

definition admit_inv :: "(cap_key \<Rightarrow> u32) \<Rightarrow> (cap_key \<Rightarrow> u32) \<Rightarrow> cap_state \<Rightarrow> bool" where
  "admit_inv C M s \<longleftrightarrow> queue_inv s \<and>
     (\<forall>t \<in> set (tasks s). task_admit C M (slots s) t) \<and>
     (\<forall>k k' r. slots s k = Some r \<longrightarrow> slots s k' = Some r \<longrightarrow> k = k') \<and>
     (\<forall>k r. slots s k = Some r \<longrightarrow> slot_admit C M s k r)"

lemma admit_invD:
  assumes "admit_inv C M s"
  shows "queue_inv s"
    and "i < length (tasks s) \<Longrightarrow> task_admit C M (slots s) (tasks s ! i)"
    and "slots s k = Some r \<Longrightarrow> slots s k' = Some r \<Longrightarrow> k = k'"
    and "slots s k = Some r \<Longrightarrow> slot_admit C M s k r"
    and "slots s k = Some r \<Longrightarrow> r < length (heap s)"
  using assms by (auto simp: admit_inv_def queue_inv_def)

lemma admit_invI:
  assumes "queue_inv s'" "admit_inv C M s" "slots s' = slots s" "i < length (tasks s)"
    and "tasks s' = (tasks s)[i := t]" "task_admit C M (slots s) t"
    and "\<And>k r. slots s k = Some r \<Longrightarrow> slot_admit C M s k r \<Longrightarrow> slot_admit C M s' k r"
  shows "admit_inv C M s'"
  using assms by (auto simp: admit_inv_def dest!: set_update_subset_insert [THEN subsetD])

lemma slot_admit_task:
  assumes "slot_admit C M s k r" "i < length (tasks s)" "holds k t = holds k (tasks s ! i)"
  shows "slot_admit C M (s\<lparr>tasks := (tasks s)[i := t]\<rparr>) k r"
  using assms by (simp add: slot_admit_def count_if_update_same)

lemma admit_inv_slot_for:
  assumes inv: "admit_inv C M s"
  shows "admit_inv C M (snd (slot_for k s)) \<and> slots (snd (slot_for k s)) k = Some (fst (slot_for k s))"
proof (cases rule: slot_for_cases [of s k])
  case known
  with inv show ?thesis by simp
next
  case fresh
  have q: "queue_inv (snd (slot_for k s))"
    using queue_inv_slot_for [OF admit_invD(1) [OF inv]] by blast
  have none: "count_if (holds k) (tasks s) = 0"
  proof -
    have "task_admit C M (slots s) t \<Longrightarrow> \<not> holds k t" for t
      using fresh(1) by (cases t) auto
    then show ?thesis
      using inv by (auto simp: count_if_0_iff admit_inv_def)
  qed
  have "task_admit C M (slots s) t \<Longrightarrow> task_admit C M ((slots s)(k := Some (length (heap s)))) t" for t
    using fresh(1) by (cases t) auto
  then have adm: "task_admit C M ((slots s)(k := Some (length (heap s)))) t" if "t \<in> set (tasks s)" for t
    using that inv by (simp add: admit_inv_def)
  have sl: "slot_admit C M (snd (slot_for k s)) k' r"
    if "((slots s)(k := Some (length (heap s)))) k' = Some r" for k' r
    using that fresh none admit_invD(4,5) [OF inv]
    by (auto simp: slot_admit_def nth_append split: if_splits)
  have inj: "k' = k''" if "((slots s)(k := Some (length (heap s)))) k' = Some r"
    "((slots s)(k := Some (length (heap s)))) k'' = Some r" for k' k'' r
    using that admit_invD(3) [OF inv] by (auto split: if_splits dest: admit_invD(5) [OF inv])
  have eq: "slots (snd (slot_for k s)) = (slots s)(k := Some (length (heap s)))"
    "tasks (snd (slot_for k s)) = tasks s" "fst (slot_for k s) = length (heap s)"
    using fresh(2) by simp_all
  show ?thesis
    unfolding admit_inv_def eq
    by (intro conjI allI ballI impI) (rule q, erule adm, erule (1) inj, erule sl, simp)
qed

lemma slot_admit_active:
  assumes inv: "admit_inv C M s" and i: "i < length (tasks s)" and k: "slots s k = Some r"
    and v: "unat v + (if holds k (tasks s ! i) then 1 else 0) =
      unat (slot_active (heap s ! r)) + (if holds k t then 1 else 0)" "v \<le> C k"
    and other: "\<And>k'. k' \<noteq> k \<Longrightarrow> holds k' t = holds k' (tasks s ! i)"
    and k': "slots s k' = Some r'" "slot_admit C M s k' r'"
  shows "slot_admit C M ((set_active r v s)\<lparr>tasks := (tasks s)[i := t]\<rparr>) k' r'"
proof (cases "k' = k")
  case True
  then have r': "r' = r" "r < length (heap s)"
    using k k' admit_invD(5) [OF inv] by auto
  have "unat v = count_if (holds k) ((tasks s)[i := t])"
    using v(1) k'(2) True r' count_if_update [OF i, of "holds k" t]
    by (simp add: slot_admit_def split: if_splits)
  then show ?thesis
    using True r' v k'(2) by (simp add: slot_admit_def set_active_def)
next
  case False
  then have "r' \<noteq> r"
    using k k' admit_invD(3) [OF inv] by blast
  with False k'(2) other i show ?thesis
    by (simp add: slot_admit_def set_active_def count_if_update_same)
qed

lemma slot_admit_queued:
  assumes "admit_inv C M s" "i < length (tasks s)" "slots s k = Some r" "v \<le> M k"
    and "\<And>k'. holds k' t = holds k' (tasks s ! i)"
    and "slots s k' = Some r'" "slot_admit C M s k' r'"
  shows "slot_admit C M ((set_queued r v s)\<lparr>tasks := (tasks s)[i := t]\<rparr>) k' r'"
proof (cases "r' = r")
  case True
  then have "k' = k" "r < length (heap s)"
    using assms admit_invD(3,5) [OF assms(1)] by blast+
  then show ?thesis
    using True assms by (simp add: slot_admit_def set_queued_def count_if_update_same)
next
  case False
  then show ?thesis
    using assms by (simp add: slot_admit_def set_queued_def count_if_update_same)
qed

lemma admit_inv_task_step:
  assumes inv: "admit_inv C M s" and i: "i < length (tasks s)"
    and step: "task_step ok (tasks s ! i) s = Some (t, s')"
  shows "admit_inv C M (s'\<lparr>tasks := (tasks s)[i := t]\<rparr>)"
proof -
  note adm = admit_invD(2) [OF inv i]
  have q: "queue_inv (s'\<lparr>tasks := (tasks s)[i := t]\<rparr>)"
    using queue_inv_task_step [OF admit_invD(1) [OF inv] i step] .
  have same: "admit_inv C M (s\<lparr>tasks := (tasks s)[i := u]\<rparr>)"
    if "queue_inv (s\<lparr>tasks := (tasks s)[i := u]\<rparr>)" "task_admit C M (slots s) u"
      "\<And>k. holds k u = holds k (tasks s ! i)" for u
    using that by (intro admit_invI [OF that(1) inv _ i]) (auto intro: slot_admit_task [OF _ i])
  show ?thesis
  proof (cases "tasks s ! i")
    case (Entering k c m)
    show ?thesis
    proof (cases "c = 0")
      case True
      with step Entering have t: "t = Holding k True" "s' = s" by auto
      show ?thesis
        using same [of t] q Entering unfolding t by simp
    next
      case False
      obtain r s1 where sf: "slot_for k s = (r, s1)" by fastforce
      with step Entering False have t: "t = Looping k c m r" "s' = s1" by auto
      have s1: "admit_inv C M s1" "slots s1 k = Some r" "tasks s1 = tasks s"
        using admit_inv_slot_for [OF inv, of k] slot_for_tasks [of k s] by (simp_all add: sf)
      show ?thesis
        using q adm Entering s1 i unfolding t
        using slot_admit_task [of C M s1 _ _ i t]
        by (intro admit_invI [OF _ s1(1), of _ i t]) (auto simp: t)
    qed
  next
    case (CasActive k c m r a)
    show ?thesis
    proof (cases "ok \<and> slot_active (heap s ! r) = a")
      case True
      with step CasActive have t: "t = Holding k False" "s' = set_active r (a + 1) s" by auto
      have k: "slots s k = Some r" and c: "c \<le> C k" using adm CasActive by auto
      have a: "a < c" using queue_invD(1) [OF admit_invD(1) [OF inv] i] CasActive by simp
      then have a1: "unat (a + 1) = Suc (unat a)" by (rule unat_inc_below)
      then have "a + 1 \<le> C k"
        using a c by (simp add: word_le_nat_alt word_less_nat_alt)
      then show ?thesis
        using q True a1 k CasActive unfolding t
        by (intro admit_invI [OF _ inv _ i, of _ t])
          (auto simp: t set_active_def [of r "a + 1" s, THEN arg_cong [of _ _ slots]]
            intro!: slot_admit_active [OF inv i k])
    next
      case False
      with step CasActive have t: "t = Looping k c m r" "s' = s" by auto
      show ?thesis
        using same [of t] q adm CasActive unfolding t by simp
    qed
  next
    case (CasQueued k c m r q')
    show ?thesis
    proof (cases "ok \<and> slot_queued (heap s ! r) = q'")
      case True
      with step CasQueued have t: "t = Waiting k c m r" "s' = set_queued r (q' + 1) s" by auto
      have k: "slots s k = Some r" and m: "m \<le> M k" using adm CasQueued by auto
      have lt: "q' < m" using queue_invD(1) [OF admit_invD(1) [OF inv] i] CasQueued by simp
      then have "unat (q' + 1) = Suc (unat q')" by (rule unat_inc_below)
      then have "q' + 1 \<le> M k"
        using lt m by (simp add: word_le_nat_alt word_less_nat_alt)
      then show ?thesis
        using q k adm CasQueued unfolding t
        by (intro admit_invI [OF _ inv _ i, of _ t])
          (auto simp: t set_queued_def [of r "q' + 1" s, THEN arg_cong [of _ _ slots]]
            intro!: slot_admit_queued [OF inv i k])
    next
      case False
      with step CasQueued have t: "t = Looping k c m r" "s' = s" by auto
      show ?thesis
        using same [of t] q adm CasQueued unfolding t by simp
    qed
  qed (use step adm q same [of t] in \<open>auto simp: Let_def split: if_splits\<close>)
qed

lemma admit_inv_wake:
  assumes inv: "admit_inv C M s" and i: "i < length (tasks s)"
    and step: "wake_step notified (tasks s ! i) s = Some (t, s')"
  shows "admit_inv C M (s'\<lparr>tasks := (tasks s)[i := t]\<rparr>)"
proof (cases "tasks s ! i")
  case (Waiting k c m r)
  have q: "queue_inv (s'\<lparr>tasks := (tasks s)[i := t]\<rparr>)"
    using queue_inv_wake [OF admit_invD(1) [OF inv] i step] .
  have s': "s' = set_queued r (slot_queued (heap s ! r) - 1) s"
    "t = (if notified then Looping k c m r else TimedOut c r)"
    using step Waiting by auto
  have k: "slots s k = Some r"
    using admit_invD(2) [OF inv i] Waiting by simp
  have r: "r < length (heap s)"
    using admit_invD(5) [OF inv k] .
  have "0 < unat (slot_queued (heap s ! r))"
    using queue_invD(3) [OF admit_invD(1) [OF inv] r] count_if_pos [OF i, of "in_queue r"] Waiting
    by simp
  then have "slot_queued (heap s ! r) - 1 \<le> M k"
    using admit_invD(4) [OF inv k] by (auto simp: slot_admit_def word_le_nat_alt unat_dec_pos)
  then show ?thesis
    using q k s' admit_invD(2) [OF inv i] Waiting
    by (intro admit_invI [OF _ inv _ i, of _ t])
      (auto simp: set_queued_def [of r v s for v, THEN arg_cong [of _ _ slots]]
        intro!: slot_admit_queued [OF inv i k])
qed (use step in simp_all)

lemma admit_inv_drop:
  assumes inv: "admit_inv C M s" and i: "i < length (tasks s)"
    and step: "drop_guard (tasks s ! i) s = Some (t, s')"
  shows "admit_inv C M (s'\<lparr>tasks := (tasks s)[i := t]\<rparr>)"
proof (cases "tasks s ! i")
  case (Holding k u)
  have q: "queue_inv (s'\<lparr>tasks := (tasks s)[i := t]\<rparr>)"
    using queue_inv_drop [OF admit_invD(1) [OF inv] i step] .
  show ?thesis
  proof (cases u)
    case True
    with step Holding have t: "t = Finished" "s' = s" by auto
    show ?thesis
      using q Holding True unfolding t
      by (intro admit_invI [OF _ inv _ i]) (auto intro: slot_admit_task [OF _ i])
  next
    case False
    obtain r where k: "slots s k = Some r"
      using admit_invD(2) [OF inv i] Holding False by auto
    with step Holding False
    have t: "t = Finished" "s' = set_active r (slot_active (heap s ! r) - 1) s"
      by (auto simp: release_inner_def)
    have adm: "slot_admit C M s k r"
      using admit_invD(4) [OF inv k] .
    then have pos: "0 < unat (slot_active (heap s ! r))"
      using count_if_pos [OF i, of "holds k"] Holding False by (simp add: slot_admit_def)
    then have "slot_active (heap s ! r) - 1 \<le> C k"
      using adm by (auto simp: slot_admit_def word_le_nat_alt unat_dec_pos)
    then show ?thesis
      using q k pos Holding False unfolding t
      by (intro admit_invI [OF _ inv _ i, of _ Finished])
        (auto simp: set_active_def [of r v s for v, THEN arg_cong [of _ _ slots]] unat_dec_pos
          intro!: slot_admit_active [OF inv i k])
  qed
qed (use step in simp_all)

lemma admit_inv_clear:
  assumes inv: "admit_inv C M s" and idle: "list_all (\<lambda>t. \<not> busy n t) (tasks s)"
  shows "admit_inv C M (clear_node n s)"
proof -
  have "task_admit C M (slots s) t \<Longrightarrow> \<not> busy n t \<Longrightarrow> task_admit C M (slots (clear_node n s)) t" for t
    by (cases t) (auto simp: clear_node_def)
  then have "\<forall>t \<in> set (tasks s). task_admit C M (slots (clear_node n s)) t"
    using inv idle by (auto simp: admit_inv_def list_all_iff)
  moreover have "queue_inv (clear_node n s)"
    using queue_inv_step [OF admit_invD(1) [OF inv], of "ClearNode n"] by simp
  ultimately show ?thesis
    using inv by (auto simp: admit_inv_def clear_node_def slot_admit_def split: if_splits)
qed

lemma admit_inv_step:
  assumes inv: "admit_inv C M s" and step: "steady_step C M s e = Some t"
  shows "admit_inv C M t"
proof -
  have adm: "admissible C M s e" and st: "cap_step s e = Some t"
    using step by (auto simp: steady_step_def split: if_splits)
  show ?thesis
  proof (cases e)
    case (Spawn k c m)
    moreover have "queue_inv t"
      using queue_inv_step [OF admit_invD(1) [OF inv] st] .
    ultimately show ?thesis
      using inv adm st by (auto simp: admit_inv_def slot_admit_def)
  next
    case (Cancel i)
    with st obtain k c m r where i: "i < length (tasks s)" "tasks s ! i = Waiting k c m r"
      and t: "t = s\<lparr>tasks := (tasks s)[i := Abandoned r]\<rparr>"
      by (auto elim!: at_task_Some cancel_step.elims)
    have "queue_inv t"
      using queue_inv_step [OF admit_invD(1) [OF inv] st] .
    then show ?thesis
      using i unfolding t
      by (intro admit_invI [OF _ inv _ i(1), of _ "Abandoned r"])
        (auto intro: slot_admit_task [OF _ i(1)])
  next
    case (Snapshot k)
    with st admit_inv_slot_for [OF inv, of k] show ?thesis
      by (simp add: snapshot_def case_prod_beta)
  next
    case (ClearNode n)
    with st adm admit_inv_clear [OF inv, of n] show ?thesis by simp
  qed (use st in \<open>auto elim!: at_task_Some
      intro: admit_inv_task_step [OF inv] admit_inv_wake [OF inv] admit_inv_drop [OF inv]\<close>)
qed

interpretation admission: invariant_system new_tracker "steady_step C M" "admit_inv C M" for C M
  by unfold_locales (simp add: admit_inv_def queue_inv_def new_tracker_def, rule admit_inv_step)

lemma holders_counted:
  assumes "admit_inv C M s"
  shows "count_if (holds k) (tasks s) =
    (case slots s k of Some r \<Rightarrow> unat (slot_active (heap s ! r)) | None \<Rightarrow> 0)"
proof (cases "slots s k")
  case None
  then have "task_admit C M (slots s) t \<Longrightarrow> \<not> holds k t" for t
    by (cases t) auto
  then have "count_if (holds k) (tasks s) = 0"
    using assms by (auto simp: admit_inv_def count_if_0_iff)
  with None show ?thesis by simp
next
  case (Some r)
  with admit_invD(4) [OF assms Some] show ?thesis
    by (simp add: slot_admit_def)
qed

section \<open>Cancelled waiters\<close>

fun abandoned :: "nat \<Rightarrow> task \<Rightarrow> bool" where
  "abandoned r (Abandoned r') = (r' = r)"
| "abandoned r _ = False"

lemma abandoned_in_queue: "count_if (abandoned r) ts \<le> count_if (in_queue r) ts"
proof (induction ts)
  case (Cons t ts)
  then show ?case by (cases t) auto
qed simp

lemma abandoned_update:
  "i < length ts \<Longrightarrow> \<not> abandoned r (ts ! i) \<Longrightarrow> count_if (abandoned r) ts \<le> count_if (abandoned r) (ts[i := t])"
  using count_if_update [of i ts "abandoned r" t] by (simp split: if_splits)

lemma abandoned_stays:
  "task_step ok t s = Some (u, s') \<Longrightarrow> \<not> abandoned r t \<and> tasks s' = tasks s"
  "wake_step b t s = Some (u, s') \<Longrightarrow> \<not> abandoned r t \<and> tasks s' = tasks s"
  "drop_guard t s = Some (u, s') \<Longrightarrow> \<not> abandoned r t \<and> tasks s' = tasks s"
  "cancel_step t s = Some (u, s') \<Longrightarrow> \<not> abandoned r t \<and> tasks s' = tasks s"
  using slot_for_tasks [of _ s]
  by (cases t; auto simp: Let_def set_active_def set_queued_def split: if_splits prod.splits; metis snd_conv)+

lemma abandoned_mono_step:
  assumes "cap_step s e = Some t"
  shows "count_if (abandoned r) (tasks s) \<le> count_if (abandoned r) (tasks t)"
  using assms
proof (cases e)
  case (Snapshot k)
  with assms slot_for_tasks [of k s] show ?thesis
    by (auto simp: snapshot_def case_prod_beta)
next
  case (ClearNode n)
  with assms show ?thesis by (auto simp: clear_node_def)
qed (auto elim!: at_task_Some dest!: abandoned_stays [where r = r] intro!: abandoned_update)

lemma abandoned_mono_run:
  "run_steps cap_step s es = Some t \<Longrightarrow> count_if (abandoned r) (tasks s) \<le> count_if (abandoned r) (tasks t)"
proof (induction es arbitrary: s)
  case (Cons e es)
  then obtain u where "cap_step s e = Some u" "run_steps cap_step u es = Some t"
    by (auto split: option.splits)
  with Cons.IH abandoned_mono_step show ?case
    using order_trans by blast
qed simp

section \<open>The queue bound\<close>

text \<open>
  \<open>f64\<close> values with the IEEE cases \<open>max_queue_depth\<close> depends on. The rounding of a finite
  product is the parameter \<open>rnd\<close>; the cast \<open>as u32\<close> saturates and sends NaN to 0.
\<close>

datatype f64 = Finite rat | PosInf | NegInf | NaN

fun f64_mul :: "(rat \<Rightarrow> f64) \<Rightarrow> f64 \<Rightarrow> f64 \<Rightarrow> f64" where
  "f64_mul rnd (Finite a) (Finite b) = rnd (a * b)"
| "f64_mul rnd (Finite a) PosInf = (if a = 0 then NaN else if 0 < a then PosInf else NegInf)"
| "f64_mul rnd (Finite a) NegInf = (if a = 0 then NaN else if 0 < a then NegInf else PosInf)"
| "f64_mul rnd PosInf (Finite b) = (if b = 0 then NaN else if 0 < b then PosInf else NegInf)"
| "f64_mul rnd NegInf (Finite b) = (if b = 0 then NaN else if 0 < b then NegInf else PosInf)"
| "f64_mul rnd PosInf PosInf = PosInf"
| "f64_mul rnd NegInf NegInf = PosInf"
| "f64_mul rnd PosInf NegInf = NegInf"
| "f64_mul rnd NegInf PosInf = NegInf"
| "f64_mul rnd _ _ = NaN"

fun f64_floor :: "f64 \<Rightarrow> f64" where
  "f64_floor (Finite a) = Finite (of_int \<lfloor>a\<rfloor>)"
| "f64_floor x = x"

fun f64_as_u32 :: "f64 \<Rightarrow> u32" where
  "f64_as_u32 (Finite a) =
     (let n = (if 0 \<le> a then \<lfloor>a\<rfloor> else 0) in if n < 2 ^ 32 then word_of_int n else - 1)"
| "f64_as_u32 PosInf = - 1"
| "f64_as_u32 NegInf = 0"
| "f64_as_u32 NaN = 0"

definition max_queue_depth :: "(rat \<Rightarrow> f64) \<Rightarrow> u32 \<Rightarrow> f64 \<Rightarrow> u32" where
  "max_queue_depth rnd concurrency ratio =
     (if concurrency = 0 then 0
      else
        (let depth = f64_as_u32 (f64_floor (f64_mul rnd (Finite (of_nat (unat concurrency))) ratio))
         in max depth 1))"

lemma max_queue_depth_finite:
  assumes "c \<noteq> 0" "rnd (of_nat (unat c) * q) = Finite p" "0 \<le> p" "p < 2 ^ 32"
  shows "unat (max_queue_depth rnd c (Finite q)) = max (nat \<lfloor>p\<rfloor>) 1"
proof -
  have "\<lfloor>p\<rfloor> < 2 ^ 32"
    using assms(4) by (simp add: floor_less_iff)
  then have "unat (word_of_int \<lfloor>p\<rfloor> :: u32) = nat \<lfloor>p\<rfloor>"
    using assms(3) by (simp add: unat_eq_nat_uint uint_word_of_int)
  then show ?thesis
    using assms \<open>\<lfloor>p\<rfloor> < 2 ^ 32\<close>
    by (simp add: max_queue_depth_def Let_def max_def word_le_nat_alt)
qed

section \<open>Properties\<close>

fun waits_on :: "nat \<Rightarrow> task \<Rightarrow> bool" where
  "waits_on r (Waiting k c m r') = (r' = r)"
| "waits_on r _ = False"

lemma count_in_queue:
  "count_if (in_queue r) ts = count_if (waits_on r) ts + count_if (abandoned r) ts"
proof (induction ts)
  case (Cons t ts)
  then show ?case by (cases t) auto
qed simp

lemma task_step_heap: "task_step ok t s = Some (u, s') \<Longrightarrow> length (heap s) \<le> length (heap s')"
  by (cases t; cases rule: slot_for_cases [of s "case t of Entering k c m \<Rightarrow> k"])
    (auto simp: Let_def set_active_def set_queued_def split: if_splits)

lemma heap_grows_step: "cap_step s e = Some t \<Longrightarrow> length (heap s) \<le> length (heap t)"
proof (cases e)
  case (Snapshot k)
  assume "cap_step s e = Some t"
  with Snapshot show ?thesis
    by (cases rule: slot_for_cases [of s k]) (auto simp: snapshot_def)
qed (auto elim!: at_task_Some wake_step.elims drop_guard.elims cancel_step.elims
    dest: task_step_heap
    simp: clear_node_def set_queued_def release_inner_def set_active_def split: option.splits if_splits)

lemma heap_grows: "run_steps cap_step s es = Some t \<Longrightarrow> length (heap s) \<le> length (heap t)"
proof (induction es arbitrary: s)
  case (Cons e es)
  then obtain u where "cap_step s e = Some u" "run_steps cap_step u es = Some t"
    by (auto split: option.splits)
  with Cons.IH heap_grows_step show ?case
    using order_trans by blast
qed simp

definition example_key :: cap_key where
  "example_key = ModelCapacityKey [7] ''m''"

text \<open>C1: Admission control is safe. In every state that concurrent requests can reach (any
  interleaving of their atomic accesses, with timeouts, wake-ups, cancellations and snapshots, and
  with nodes cleared while idle), the number of live guards of a model never exceeds the declared
  concurrency, and the slot's \<open>active\<close> counter is exactly that number.\<close>

theorem admission_bound:
  assumes "reachable_by (steady_step C M) new_tracker s"
  shows "count_if (holds k) (tasks s) \<le> unat (C k) \<and>
    count_if (holds k) (tasks s) =
      (case slots s k of Some r \<Rightarrow> unat (slot_active (heap s ! r)) | None \<Rightarrow> 0)"
proof -
  have inv: "admit_inv C M s"
    using assms by (rule admission.inv_reachable)
  have "(case slots s k of Some r \<Rightarrow> unat (slot_active (heap s ! r)) | None \<Rightarrow> 0) \<le> unat (C k)"
  proof (cases "slots s k")
    case (Some r)
    with admit_invD(4) [OF inv Some] show ?thesis
      by (simp add: slot_admit_def word_le_nat_alt)
  qed simp
  with holders_counted [OF inv, of k] show ?thesis by simp
qed

theorem admission_bound_witness:
  "\<exists>s. run_steps (steady_step (\<lambda>_. 1) (\<lambda>_. 1)) new_tracker
      [Spawn example_key 1 1, Run 0 True, Run 0 True, Run 0 True,
       Spawn example_key 1 1, Run 1 True, Run 1 True, Run 1 True, Run 1 True] = Some s
    \<and> tasks s = [Holding example_key False, Waiting example_key 1 1 0]
    \<and> count_if (holds example_key) (tasks s) \<le> unat ((\<lambda>_. 1 :: u32) example_key)"
proof -
  let ?es = "[Spawn example_key 1 1, Run 0 True, Run 0 True, Run 0 True,
       Spawn example_key 1 1, Run 1 True, Run 1 True, Run 1 True, Run 1 True]"
  have "map_option tasks (run_steps (steady_step (\<lambda>_. 1) (\<lambda>_. 1)) new_tracker ?es) =
      Some [Holding example_key False, Waiting example_key 1 1 0]"
    by code_simp
  then obtain s where s: "run_steps (steady_step (\<lambda>_. 1) (\<lambda>_. 1)) new_tracker ?es = Some s"
    "tasks s = [Holding example_key False, Waiting example_key 1 1 0]"
    by auto
  have "reachable_by (steady_step (\<lambda>_. 1) (\<lambda>_. 1)) new_tracker s"
    using run_steps_reachable [OF reach_start s(1)] .
  from admission_bound [OF this, of example_key] s show ?thesis by blast
qed

text \<open>C17: The queue counter never drifts: in every reachable state of the tracker, whatever nodes
  are cleared, the \<open>queued\<close> counter of every slot is the number of requests waiting on it plus the
  number of requests whose future was dropped while they waited.\<close>

theorem queue_accounting:
  assumes "reachable_by cap_step new_tracker s" "r < length (heap s)"
  shows "unat (slot_queued (heap s ! r)) =
    count_if (waits_on r) (tasks s) + count_if (abandoned r) (tasks s)"
  using queue_invD(3) [OF queueing.inv_reachable [OF assms(1)] assms(2)] by (simp add: count_in_queue)

theorem queue_accounting_witness:
  "\<exists>s. run_steps cap_step new_tracker
      [Spawn example_key 1 2, Run 0 True, Run 0 True, Run 0 True,
       Spawn example_key 1 2, Run 1 True, Run 1 True, Run 1 True, Run 1 True] = Some s
    \<and> unat (slot_queued (heap s ! 0)) = count_if (waits_on 0) (tasks s) + count_if (abandoned 0) (tasks s)
    \<and> count_if (waits_on 0) (tasks s) = 1"
proof -
  let ?es = "[Spawn example_key 1 2, Run 0 True, Run 0 True, Run 0 True,
       Spawn example_key 1 2, Run 1 True, Run 1 True, Run 1 True, Run 1 True]"
  have "map_option (\<lambda>s. (tasks s, length (heap s))) (run_steps cap_step new_tracker ?es) =
      Some ([Holding example_key False, Waiting example_key 1 2 0], 1)"
    by code_simp
  then obtain s where s: "run_steps cap_step new_tracker ?es = Some s"
    "tasks s = [Holding example_key False, Waiting example_key 1 2 0]" "length (heap s) = 1"
    by auto
  have "0 < length (heap s)" using s by simp
  from queue_accounting [OF run_steps_reachable [OF reach_start s(1)] this] s show ?thesis
    by auto
qed

text \<open>A cancelled waiter is never forgotten. Whatever happens afterwards, the \<open>queued\<close> counter of
  a slot stays at least the number of requests that were cancelled while waiting on it: each
  cancellation takes one place of the queue away for as long as the slot lives.\<close>

theorem cancelled_waiters_stay_counted:
  assumes "reachable_by cap_step new_tracker s" "run_steps cap_step s es = Some t"
    "r < length (heap s)"
  shows "count_if (abandoned r) (tasks s) \<le> unat (slot_queued (heap t ! r))"
proof -
  have "queue_inv t"
    using queueing.inv_run_from [OF queueing.inv_reachable [OF assms(1)] assms(2)] .
  moreover have "r < length (heap t)"
    using heap_grows [OF assms(2)] assms(3) by simp
  ultimately have "unat (slot_queued (heap t ! r)) = count_if (in_queue r) (tasks t)"
    by (rule queue_invD(3))
  with abandoned_mono_run [OF assms(2), of r] abandoned_in_queue [of r "tasks t"] show ?thesis
    by simp
qed

theorem cancelled_waiters_stay_counted_witness:
  "\<exists>s t. run_steps cap_step new_tracker
      [Spawn example_key 1 1, Run 0 True, Run 0 True, Run 0 True,
       Spawn example_key 1 1, Run 1 True, Run 1 True, Run 1 True, Run 1 True, Cancel 1] = Some s
    \<and> run_steps cap_step s [DropGuard 0, Snapshot example_key] = Some t
    \<and> count_if (abandoned 0) (tasks s) = 1
    \<and> count_if (abandoned 0) (tasks s) \<le> unat (slot_queued (heap t ! 0))"
proof -
  let ?es = "[Spawn example_key 1 1, Run 0 True, Run 0 True, Run 0 True,
       Spawn example_key 1 1, Run 1 True, Run 1 True, Run 1 True, Run 1 True, Cancel 1]"
  let ?fs = "[DropGuard 0, Snapshot example_key]"
  have "map_option (\<lambda>s. (tasks s, length (heap s), map_option tasks (run_steps cap_step s ?fs)))
      (run_steps cap_step new_tracker ?es) =
      Some ([Holding example_key False, Abandoned 0], 1, Some [Finished, Abandoned 0])"
    by code_simp
  then obtain s t where s: "run_steps cap_step new_tracker ?es = Some s"
    "run_steps cap_step s ?fs = Some t"
    "tasks s = [Holding example_key False, Abandoned 0]" "length (heap s) = 1"
    by auto
  have r: "0 < length (heap s)" using s by simp
  from cancelled_waiters_stay_counted [OF run_steps_reachable [OF reach_start s(1)] s(2) r] s
  show ?thesis by auto
qed

text \<open>Clearing a node under load breaks its counter. There is a run in which two requests hold
  guards of a model when its node is cleared, the first guard is dropped, the next snapshot creates
  a fresh slot, and the drop of the second guard takes that slot's \<open>active\<close> from 0 to \<open>u32::MAX\<close>:
  no request holds the model, and every later request of it, whatever its concurrency, is sent to
  the queue.\<close>

theorem clear_under_load_underflows:
  "\<exists>s. run_steps cap_step new_tracker
      [Spawn example_key 2 2, Run 0 True, Run 0 True, Run 0 True,
       Spawn example_key 2 2, Run 1 True, Run 1 True, Run 1 True,
       ClearNode (key_node example_key), DropGuard 0, Snapshot example_key, DropGuard 1] = Some s
    \<and> slots s example_key = Some 1 \<and> slot_active (heap s ! 1) = - 1
    \<and> count_if (holds example_key) (tasks s) = 0
    \<and> (\<forall>ok c m. task_step ok (Looping example_key c m 1) s = Some (CheckQueue example_key c m 1 (- 1), s))"
proof -
  let ?es = "[Spawn example_key 2 2, Run 0 True, Run 0 True, Run 0 True,
       Spawn example_key 2 2, Run 1 True, Run 1 True, Run 1 True,
       ClearNode (key_node example_key), DropGuard 0, Snapshot example_key, DropGuard 1]"
  have "map_option (\<lambda>s. (map slot_active (heap s), tasks s, slots s example_key))
      (run_steps cap_step new_tracker ?es) = Some ([2, - 1], [Finished, Finished], Some 1)"
    by code_simp
  then obtain s where s: "run_steps cap_step new_tracker ?es = Some s"
    "map slot_active (heap s) = [2, - 1]" "tasks s = [Finished, Finished]" "slots s example_key = Some 1"
    by auto
  have "slot_active (heap s ! 1) = - 1"
    using s(2) by (auto simp: map_eq_Cons_conv)
  moreover have "\<not> (- 1 :: u32) < c" for c
    by (simp add: not_less word_order.extremum)
  ultimately show ?thesis
    using s by auto
qed

text \<open>What one undisturbed pass of the acquire loop does, on every branch: below the declared
  concurrency it takes a guard and counts it; at capacity with no queue or a full queue it fails
  with \<open>QueueFull\<close> and the loaded counters, changing nothing; at capacity with room in the queue it
  waits and counts itself queued.\<close>

theorem acquire_pass:
  fixes s :: cap_state
  assumes "i < length (tasks s)" "tasks s ! i = Looping k c m r" "r < length (heap s)"
  defines "a \<equiv> slot_active (heap s ! r)" and "q \<equiv> slot_queued (heap s ! r)"
  shows "(a < c \<longrightarrow>
      run_steps cap_step s [Run i True, Run i True] =
        Some ((set_active r (a + 1) s)\<lparr>tasks := (tasks s)[i := Holding k False]\<rparr>)) \<and>
    (\<not> a < c \<and> (m = 0 \<or> m \<le> q) \<longrightarrow>
      run_steps cap_step s [Run i True, Run i True] =
        Some (s\<lparr>tasks := (tasks s)[i := Failed (QueueFull a c q)]\<rparr>)) \<and>
    (\<not> a < c \<and> m \<noteq> 0 \<and> q < m \<longrightarrow>
      run_steps cap_step s [Run i True, Run i True, Run i True] =
        Some ((set_queued r (q + 1) s)\<lparr>tasks := (tasks s)[i := Waiting k c m r]\<rparr>))"
  using assms(1-3) unfolding a_def q_def
  by (auto simp: at_task_def set_active_def set_queued_def Let_def not_le)

theorem acquire_pass_witness:
  "run_steps cap_step
      \<lparr>slots = [example_key \<mapsto> 0], heap = [\<lparr>slot_active = 3, slot_queued = 0\<rparr>],
       tasks = [Looping example_key 4 1 0]\<rparr> [Run 0 True, Run 0 True] =
    Some \<lparr>slots = [example_key \<mapsto> 0], heap = [\<lparr>slot_active = 4, slot_queued = 0\<rparr>],
       tasks = [Holding example_key False]\<rparr>"
  using acquire_pass [of 0 "\<lparr>slots = [example_key \<mapsto> 0], heap = [\<lparr>slot_active = 3, slot_queued = 0\<rparr>],
       tasks = [Looping example_key 4 1 0]\<rparr>" example_key 4 1 0]
  by (simp add: set_active_def)

text \<open>The queue bound of a model: none when the concurrency is unlimited, and otherwise at least
  one place whatever the configured ratio is (negative, NaN or rounded to zero), everything
  for an infinite ratio, and exactly the concurrency for the default ratio 1.\<close>

theorem max_queue_depth_bounds:
  "max_queue_depth rnd 0 x = 0 \<and>
   (c \<noteq> 0 \<longrightarrow>
     1 \<le> max_queue_depth rnd c x \<and> max_queue_depth rnd c NaN = 1 \<and>
     max_queue_depth rnd c NegInf = 1 \<and> max_queue_depth rnd c PosInf = - 1 \<and>
     (rnd (of_nat (unat c)) = Finite (of_nat (unat c)) \<longrightarrow> max_queue_depth rnd c (Finite 1) = c))"
proof -
  have "unat (max_queue_depth rnd c (Finite 1)) = unat c"
    if "c \<noteq> 0" "rnd (of_nat (unat c)) = Finite (of_nat (unat c))"
  proof -
    have "(of_nat (unat c) :: rat) < of_nat (2 ^ 32)"
      using unat_below [of c] by (simp only: of_nat_less_iff) simp
    moreover have "(0 :: rat) \<le> of_nat (unat c)"
      by (rule of_nat_0_le_iff)
    ultimately have "unat (max_queue_depth rnd c (Finite 1)) = max (nat \<lfloor>of_nat (unat c) :: rat\<rfloor>) 1"
      using that by (intro max_queue_depth_finite) simp_all
    also have "nat \<lfloor>of_nat (unat c) :: rat\<rfloor> = unat c"
      by (simp only: floor_of_nat nat_int)
    also have "max (unat c) 1 = unat c"
      using \<open>c \<noteq> 0\<close> unat_gt_0 [of c] by linarith
    finally show ?thesis .
  qed
  then have one: "rnd (of_nat (unat c)) = Finite (of_nat (unat c)) \<longrightarrow> max_queue_depth rnd c (Finite 1) = c"
    if "c \<noteq> 0"
    using that by (auto intro: word_unat_eq_iff [THEN iffD2])
  have pos: "0 < (of_nat (unat c) :: rat)" if "c \<noteq> 0"
    by (rule of_nat_0_less_iff [THEN iffD2]) (use that unat_gt_0 [of c] in blast)
  have inf: "max_queue_depth rnd c NaN = 1" "max_queue_depth rnd c NegInf = 1"
    "max_queue_depth rnd c PosInf = - 1" if "c \<noteq> 0"
    using that pos [OF that] max_absorb1 [OF word_order.extremum [of "1 :: u32"]]
    by (simp_all add: max_queue_depth_def)
  have least: "1 \<le> max_queue_depth rnd c x" if "c \<noteq> 0"
    using that by (simp add: max_queue_depth_def Let_def)
  show ?thesis
    using one inf least by (simp add: max_queue_depth_def)
qed

theorem max_queue_depth_bounds_witness: "max_queue_depth Finite 8 (Finite 1) = 8"
  using max_queue_depth_bounds [of Finite NaN 8] by simp

end
