(* ===== verification/Telemetry.thy ===== *)
theory Telemetry
  imports Capacity Node_Auth
begin

text \<open>
  The telemetry events and their bus (\<open>src/telemetry/mod.rs\<close>). The bus is the sequence of events
  sent so far; what a receiver of the broadcast channel behind it sees is in theory \<open>Subscriptions\<close>.
\<close>

record model_capacity_event =
  mce_node_id :: string
  mce_model_id :: string
  mce_active_requests :: u32
  mce_queued_requests :: u32
  mce_concurrency :: u32

record node_status_event =
  nse_node_id :: string
  nse_moniker :: "string option"
  nse_status :: string
  nse_in_flight_requests :: nat
  nse_model_count :: int

datatype telemetry_event =
    Snapshot "node_status_event list" "model_capacity_event list"
  | ModelCapacity model_capacity_event
  | NodeStatus node_status_event

type_synonym telemetry_bus = "telemetry_event list"

definition new_bus :: telemetry_bus where
  "new_bus = []"

declare new_bus_def [simp]

definition emit :: "telemetry_event \<Rightarrow> telemetry_bus \<Rightarrow> telemetry_bus" where
  "emit e bus = bus @ [e]"

definition emit_model_capacity ::
  "(bytes \<Rightarrow> string) \<Rightarrow> cap_key \<Rightarrow> u32 \<Rightarrow> u32 \<Rightarrow> u32 \<Rightarrow> telemetry_bus \<Rightarrow> telemetry_bus" where
  "emit_model_capacity enc key active queued concurrency =
     emit (ModelCapacity
       \<lparr>mce_node_id = node_id_hex enc (key_node key), mce_model_id = key_model key,
        mce_active_requests = active, mce_queued_requests = queued, mce_concurrency = concurrency\<rparr>)"

definition emit_node_status ::
  "(bytes \<Rightarrow> string) \<Rightarrow> node_id \<Rightarrow> string option \<Rightarrow> string \<Rightarrow> nat \<Rightarrow> int \<Rightarrow> telemetry_bus \<Rightarrow> telemetry_bus" where
  "emit_node_status enc n moniker status in_flight model_count =
     emit (NodeStatus
       \<lparr>nse_node_id = node_id_hex enc n, nse_moniker = moniker, nse_status = status,
        nse_in_flight_requests = in_flight, nse_model_count = model_count\<rparr>)"

definition build_snapshot :: "node_status_event list \<Rightarrow> model_capacity_event list \<Rightarrow> telemetry_event" where
  "build_snapshot nodes models = Snapshot nodes models"

definition mce_key :: "model_capacity_event \<Rightarrow> string \<times> string" where
  "mce_key e = (mce_model_id e, mce_node_id e)"

definition model_capacity_events_from_tracker ::
  "(bytes \<Rightarrow> string) \<Rightarrow> (cap_key \<times> u32 \<times> u32) list \<Rightarrow> (cap_key \<Rightarrow> u32) \<Rightarrow> model_capacity_event list" where
  "model_capacity_events_from_tracker enc snaps concurrency_lookup =
     sort_key mce_key
       (map (\<lambda>(key, active, queued).
          \<lparr>mce_node_id = node_id_hex enc (key_node key), mce_model_id = key_model key,
           mce_active_requests = active, mce_queued_requests = queued,
           mce_concurrency = concurrency_lookup key\<rparr>) snaps)"

end
