(* ===== verification/Protocol.thy ===== *)
theory Protocol
  imports Json_Value
begin

text \<open>
  The frames of the wire protocol between router and nodes, \<open>src/protocol.rs\<close>. Their JSON form is
  in theory \<open>Wire_Format\<close>; reading a text as a frame is a parameter where it is used.
\<close>

type_synonym uuid = u128

datatype node_frame =
    Auth (auth_node_id: string) (auth_signature: string)
      (auth_pubkey: "string option") (auth_moniker: "string option")
  | Pong
  | NodeResponse uuid u16 json
  | NodeChunk uuid string
  | NodeEnd uuid u16
  | NodeError uuid u16 string
  | NodeActivateResponse uuid string

datatype router_frame =
    Challenge string u64
  | Ready string
  | Request uuid string string json "string option"
  | ActivateRequest uuid string string u64 "string option"
  | Ping

datatype inbound_frame =
    Response u16 json
  | Chunk string
  | End u16
  | Error u16 string
  | ActivateResponse string

text \<open>\<open>is_terminal_frame\<close> of \<open>src/tunnel/dispatch.rs\<close>.\<close>

fun is_terminal_frame :: "inbound_frame \<Rightarrow> bool" where
  "is_terminal_frame (End _) = True"
| "is_terminal_frame (Error _ _) = True"
| "is_terminal_frame (ActivateResponse _) = True"
| "is_terminal_frame _ = False"

end
