(* ===== verification/Tunnel_Dispatch.thy ===== *)
theory Tunnel_Dispatch
  imports Protocol Router_Interfaces "HOL-Library.AList"
begin

text \<open>
  The per-node tunnel (\<open>NodeTunnel\<close> of \<open>src/state.rs\<close>) and the multiplexing of many consumer
  requests over it (\<open>src/tunnel/dispatch.rs\<close>).

  The pending map is an association list with distinct keys. An in-flight request owns a bounded
  channel: \<open>tn_channels\<close> is the store of channels and the pending map holds indices into it, so a
  receiver still reads its channel after the sender has left the map. A channel is a FIFO buffer of
  256 frames; sending fails when it is full or its receiver is gone, and a receiver that has
  drained it sees it closed when no sender is left.
\<close>

section \<open>The tunnel\<close>

record channel =
  ch_buf :: "inbound_frame list"
  ch_open :: bool

definition channel_capacity :: nat where
  "channel_capacity = 256"

record node_tunnel =
  tn_node_id :: node_id
  tn_moniker :: "string option"
  tn_outbox :: "router_frame list"
  tn_writer_open :: bool
  tn_pending :: "(uuid \<times> nat) list"
  tn_channels :: "channel list"
  tn_connected_at :: int
  tn_last_pong_at :: int
  tn_last_models_refresh_at :: int
  tn_model_count :: int
  tn_shutdown :: bool

definition new_tunnel :: "int \<Rightarrow> int \<Rightarrow> node_id \<Rightarrow> string option \<Rightarrow> node_tunnel" where
  "new_tunnel now instant n mon =
     \<lparr>tn_node_id = n, tn_moniker = mon, tn_outbox = [], tn_writer_open = True, tn_pending = [],
      tn_channels = [], tn_connected_at = instant, tn_last_pong_at = now,
      tn_last_models_refresh_at = 0, tn_model_count = 0, tn_shutdown = False\<rparr>"

definition touch_pong :: "int \<Rightarrow> node_tunnel \<Rightarrow> node_tunnel" where
  "touch_pong now t = t\<lparr>tn_last_pong_at := now\<rparr>"

definition last_pong_timestamp :: "node_tunnel \<Rightarrow> int" where
  "last_pong_timestamp t = tn_last_pong_at t"

declare last_pong_timestamp_def [simp]

definition in_flight_count :: "node_tunnel \<Rightarrow> nat" where
  "in_flight_count t = length (tn_pending t)"

definition signal_shutdown :: "node_tunnel \<Rightarrow> node_tunnel" where
  "signal_shutdown t = t\<lparr>tn_shutdown := True\<rparr>"

definition send_frame :: "router_frame \<Rightarrow> node_tunnel \<Rightarrow> string + node_tunnel" where
  "send_frame f t =
     (if tn_writer_open t then Inr (t\<lparr>tn_outbox := tn_outbox t @ [f]\<rparr>)
      else Inl ''tunnel send channel closed'')"

section \<open>The pending map\<close>

definition pending_lookup :: "node_tunnel \<Rightarrow> uuid \<Rightarrow> nat option" where
  "pending_lookup t rid = map_of (tn_pending t) rid"

definition pending_insert :: "uuid \<Rightarrow> nat \<Rightarrow> node_tunnel \<Rightarrow> node_tunnel" where
  "pending_insert rid c t = t\<lparr>tn_pending := AList.update rid c (tn_pending t)\<rparr>"

definition pending_remove :: "uuid \<Rightarrow> node_tunnel \<Rightarrow> node_tunnel" where
  "pending_remove rid t = t\<lparr>tn_pending := AList.delete rid (tn_pending t)\<rparr>"

interpretation pend: keyed_table pending_lookup pending_insert pending_remove
  by unfold_locales
    (simp_all add: pending_lookup_def pending_insert_def pending_remove_def update_conv' delete_conv')

definition can_send :: "channel \<Rightarrow> bool" where
  "can_send ch \<longleftrightarrow> ch_open ch \<and> length (ch_buf ch) < channel_capacity"

definition push :: "inbound_frame \<Rightarrow> channel \<Rightarrow> channel" where
  "push f ch = ch\<lparr>ch_buf := ch_buf ch @ [f]\<rparr>"

definition try_send :: "nat \<Rightarrow> inbound_frame \<Rightarrow> node_tunnel \<Rightarrow> node_tunnel option" where
  "try_send c f t =
     (if can_send (tn_channels t ! c)
      then Some (t\<lparr>tn_channels := (tn_channels t)[c := push f (tn_channels t ! c)]\<rparr>)
      else None)"

definition register_pending :: "uuid \<Rightarrow> node_tunnel \<Rightarrow> nat \<times> node_tunnel" where
  "register_pending rid t =
     (let c = length (tn_channels t) in
       (c, pending_insert rid c
            (t\<lparr>tn_channels := tn_channels t @ [\<lparr>ch_buf = [], ch_open = True\<rparr>]\<rparr>)))"

definition route_inbound :: "uuid \<Rightarrow> inbound_frame \<Rightarrow> node_tunnel \<Rightarrow> node_tunnel" where
  "route_inbound rid f t =
     (if is_terminal_frame f then
        (case pending_lookup t rid of
           None \<Rightarrow> t
         | Some c \<Rightarrow>
             (let t' = pending_remove rid t in
               case try_send c f t' of None \<Rightarrow> t' | Some t'' \<Rightarrow> t''))
      else
        (case pending_lookup t rid of
           None \<Rightarrow> t
         | Some c \<Rightarrow>
             (case try_send c f t of
                None \<Rightarrow> pending_remove rid t
              | Some t' \<Rightarrow> t')))"

definition disconnect_error :: inbound_frame where
  "disconnect_error = Error 502 ''node disconnected''"

definition fail_all_pending :: "node_tunnel \<Rightarrow> node_tunnel" where
  "fail_all_pending t =
     (foldl (\<lambda>t (rid, c). case try_send c disconnect_error t of None \<Rightarrow> t | Some t' \<Rightarrow> t')
        t (tn_pending t))\<lparr>tn_pending := []\<rparr>"

text \<open>Dropping a \<open>PendingRequest\<close>: the receiver goes, then \<open>PendingCleanup\<close> removes the entry.\<close>

definition drop_pending :: "uuid \<Rightarrow> nat \<Rightarrow> node_tunnel \<Rightarrow> node_tunnel" where
  "drop_pending rid c t =
     pending_remove rid
       (t\<lparr>tn_channels := (tn_channels t)[c := (tn_channels t ! c)\<lparr>ch_open := False\<rparr>]\<rparr>)"

datatype recv_result = Got inbound_frame | Closed | Blocked

definition recv_frame :: "nat \<Rightarrow> node_tunnel \<Rightarrow> recv_result \<times> node_tunnel" where
  "recv_frame c t =
     (case ch_buf (tn_channels t ! c) of
        f # fs \<Rightarrow> (Got f, t\<lparr>tn_channels := (tn_channels t)[c := (tn_channels t ! c)\<lparr>ch_buf := fs\<rparr>]\<rparr>)
      | [] \<Rightarrow> (if c \<in> snd ` set (tn_pending t) then Blocked else Closed, t))"

definition forward_http_request ::
  "uuid \<Rightarrow> string \<Rightarrow> string \<Rightarrow> json \<Rightarrow> string option \<Rightarrow> node_tunnel \<Rightarrow> (string + nat) \<times> node_tunnel" where
  "forward_http_request rid method path headers body t =
     (let (c, t1) = register_pending rid t in
       case send_frame (Request rid method path headers body) t1 of
         Inl e \<Rightarrow> (Inl ''failed to send request frame to node'', drop_pending rid c t1)
       | Inr t2 \<Rightarrow> (Inr c, t2))"

definition forward_activate ::
  "uuid \<Rightarrow> string \<Rightarrow> string \<Rightarrow> u64 \<Rightarrow> string option \<Rightarrow> node_tunnel \<Rightarrow> (string + nat) \<times> node_tunnel" where
  "forward_activate rid session sig block message t =
     (let (c, t1) = register_pending rid t in
       case send_frame (ActivateRequest rid session sig block message) t1 of
         Inl e \<Rightarrow> (Inl e, drop_pending rid c t1)
       | Inr t2 \<Rightarrow> (Inr c, t2))"

section \<open>One request's view of the stream\<close>

text \<open>
  The abstract behaviour a single request is promised, with no other request in sight: it is
  registered or not, and its channel takes its frames in order until the first terminal frame or
  the first frame that finds the channel full or closed.
\<close>

fun deliver :: "bool \<times> channel \<Rightarrow> inbound_frame \<Rightarrow> bool \<times> channel" where
  "deliver (False, ch) f = (False, ch)"
| "deliver (True, ch) f =
     (if can_send ch then (\<not> is_terminal_frame f, push f ch) else (False, ch))"

fun upto_terminal :: "inbound_frame list \<Rightarrow> inbound_frame list" where
  "upto_terminal [] = []"
| "upto_terminal (f # fs) = (if is_terminal_frame f then [f] else f # upto_terminal fs)"

lemma deliver_unregistered: "foldl deliver (False, ch) fs = (False, ch)"
  by (induction fs) simp_all

lemma deliver_stream:
  "ch_open ch \<Longrightarrow> length (ch_buf ch) \<le> channel_capacity \<Longrightarrow>
    foldl deliver (True, ch) fs =
      (length (ch_buf ch) + length fs \<le> channel_capacity \<and> list_all (\<lambda>f. \<not> is_terminal_frame f) fs,
       ch\<lparr>ch_buf := ch_buf ch @ take (channel_capacity - length (ch_buf ch)) (upto_terminal fs)\<rparr>)"
proof (induction fs arbitrary: ch)
  case (Cons f fs)
  show ?case
  proof (cases "can_send ch")
    case False
    with Cons.prems show ?thesis
      by (simp add: deliver_unregistered can_send_def)
  next
    case True
    define ch' where "ch' = push f ch"
    have ch': "ch_open ch'" "length (ch_buf ch') = Suc (length (ch_buf ch))"
      "length (ch_buf ch') \<le> channel_capacity"
      using True by (simp_all add: ch'_def push_def can_send_def)
    show ?thesis
    proof (cases "is_terminal_frame f")
      case True
      with \<open>can_send ch\<close> show ?thesis
        by (simp add: deliver_unregistered push_def can_send_def take_Cons')
    next
      case False
      have "take (channel_capacity - length (ch_buf ch)) (upto_terminal (f # fs)) =
          f # take (channel_capacity - length (ch_buf ch')) (upto_terminal fs)"
        using False \<open>can_send ch\<close> by (simp add: take_Cons' ch'(2) can_send_def)
      then show ?thesis
        using False \<open>can_send ch\<close> Cons.IH [OF ch'(1,3)] ch'(2)
        by (simp add: ch'_def push_def can_send_def Suc_le_eq)
    qed
  qed
qed simp

definition routed :: "(uuid \<Rightarrow> nat) \<Rightarrow> node_tunnel \<Rightarrow> bool" where
  "routed asg t \<longleftrightarrow> inj asg \<and>
     (\<forall>rid c. pending_lookup t rid = Some c \<longrightarrow> c = asg rid \<and> c < length (tn_channels t))"

definition request_view :: "(uuid \<Rightarrow> nat) \<Rightarrow> uuid \<Rightarrow> node_tunnel \<Rightarrow> bool \<times> channel" where
  "request_view asg rid t = (pending_lookup t rid \<noteq> None, tn_channels t ! asg rid)"

lemma pending_lookup_channels [simp]:
  "pending_lookup (t\<lparr>tn_channels := chs\<rparr>) rid = pending_lookup t rid"
  by (simp add: pending_lookup_def)

lemma tn_channels_pending_remove [simp]: "tn_channels (pending_remove rid t) = tn_channels t"
  by (simp add: pending_remove_def)

lemma route_inbound_cases:
  obtains (unknown) "pending_lookup t rid = None" "route_inbound rid f t = t"
  | (sent) c where "pending_lookup t rid = Some c" "can_send (tn_channels t ! c)"
      "route_inbound rid f t =
        (if is_terminal_frame f then pending_remove rid t else t)
          \<lparr>tn_channels := (tn_channels t)[c := push f (tn_channels t ! c)]\<rparr>"
  | (refused) c where "pending_lookup t rid = Some c" "\<not> can_send (tn_channels t ! c)"
      "route_inbound rid f t = pending_remove rid t"
  by (cases "pending_lookup t rid")
    (fastforce simp: route_inbound_def try_send_def Let_def split: if_splits)+

interpretation dispatch: demultiplexer "routed asg" "request_view asg"
  "\<lambda>t rid f. route_inbound rid f t" deliver for asg
proof unfold_locales
  fix t rid f
  assume r: "routed asg t"
  show "routed asg (route_inbound rid f t)"
    using r by (cases rule: route_inbound_cases [of t rid f])
      (auto simp: routed_def pend.table_laws split: if_splits)
  show "request_view asg rid (route_inbound rid f t) = deliver (request_view asg rid t) f"
    using r by (cases rule: route_inbound_cases [of t rid f])
      (auto simp: routed_def request_view_def pend.table_laws)
  fix rid' :: uuid
  assume "rid' \<noteq> rid"
  then have "asg rid \<noteq> asg rid'"
    using r by (auto simp: routed_def inj_eq)
  with \<open>rid' \<noteq> rid\<close> r show "request_view asg rid' (route_inbound rid f t) = request_view asg rid' t"
    by (cases rule: route_inbound_cases [of t rid f])
      (auto simp: routed_def request_view_def pend.table_laws inj_eq)
qed

section \<open>Well-formed tunnels\<close>

definition tunnel_wf :: "node_tunnel \<Rightarrow> bool" where
  "tunnel_wf t \<longleftrightarrow> distinct (map fst (tn_pending t)) \<and> distinct (map snd (tn_pending t)) \<and>
     (\<forall>c \<in> snd ` set (tn_pending t). c < length (tn_channels t)) \<and>
     (\<forall>ch \<in> set (tn_channels t). length (ch_buf ch) \<le> channel_capacity)"

definition channel_of :: "node_tunnel \<Rightarrow> uuid \<Rightarrow> nat" where
  "channel_of t rid =
     (case pending_lookup t rid of Some c \<Rightarrow> c | None \<Rightarrow> length (tn_channels t) + unat rid)"

lemma channel_of_routed:
  assumes "tunnel_wf t"
  shows "routed (channel_of t) t"
proof -
  have bound: "pending_lookup t rid = Some c \<Longrightarrow> c < length (tn_channels t)" for rid c
    using assms by (force simp: tunnel_wf_def pending_lookup_def dest: map_of_SomeD)
  have inj: "rid = rid'" if "pending_lookup t rid = Some c" "pending_lookup t rid' = Some c" for rid rid' c
  proof -
    have "(rid, c) \<in> set (tn_pending t)" "(rid', c) \<in> set (tn_pending t)"
      using that by (simp_all add: pending_lookup_def map_of_SomeD)
    then show ?thesis
      using assms unfolding tunnel_wf_def distinct_map inj_on_def by fastforce
  qed
  have "inj (channel_of t)"
  proof (rule injI)
    fix x y :: uuid
    assume eq: "channel_of t x = channel_of t y"
    show "x = y"
      using eq bound [of x] bound [of y] inj [of x _ y]
      by (auto simp: channel_of_def intro: word_unat_eq_iff [THEN iffD2] split: option.splits)
  qed
  with bound show ?thesis
    by (simp add: routed_def channel_of_def)
qed

lemma tunnel_wfD:
  assumes "tunnel_wf t" "pending_lookup t rid = Some c"
  shows "c < length (tn_channels t)" "length (ch_buf (tn_channels t ! c)) \<le> channel_capacity"
proof -
  show "c < length (tn_channels t)"
    using assms by (force simp: tunnel_wf_def pending_lookup_def dest: map_of_SomeD)
  with assms(1) show "length (ch_buf (tn_channels t ! c)) \<le> channel_capacity"
    by (simp add: tunnel_wf_def)
qed

lemma tunnel_wf_remove: "tunnel_wf t \<Longrightarrow> tunnel_wf (pending_remove rid t)"
  by (auto simp: tunnel_wf_def pending_remove_def AList.delete_eq distinct_map_filter)

lemma tunnel_wf_channel:
  "tunnel_wf t \<Longrightarrow> length (ch_buf ch) \<le> channel_capacity \<Longrightarrow>
    tunnel_wf (t\<lparr>tn_channels := (tn_channels t)[c := ch]\<rparr>)"
  by (auto simp: tunnel_wf_def dest!: set_update_subset_insert [THEN subsetD])

lemma tunnel_wf_bufD:
  "tunnel_wf t \<Longrightarrow> c < length (tn_channels t) \<Longrightarrow>
    length (ch_buf (tn_channels t ! c)) \<le> channel_capacity"
  by (simp add: tunnel_wf_def)

lemma length_push: "can_send ch \<Longrightarrow> length (ch_buf (push f ch)) \<le> channel_capacity"
  by (simp add: can_send_def push_def)

lemma tunnel_wf_try_send: "tunnel_wf t \<Longrightarrow> try_send c f t = Some t' \<Longrightarrow> tunnel_wf t'"
  by (auto simp: try_send_def tunnel_wf_channel length_push split: if_splits)

lemma tunnel_wf_route: "tunnel_wf t \<Longrightarrow> tunnel_wf (route_inbound rid f t)"
  by (auto simp: route_inbound_def Let_def tunnel_wf_remove
      intro: tunnel_wf_try_send tunnel_wf_try_send [OF tunnel_wf_remove] split: option.split)

lemma snd_set_update:
  "snd ` set (AList.update k v al) \<subseteq> insert v (snd ` set al)"
  by (induction al) auto

lemma distinct_snd_update:
  "distinct (map snd al) \<Longrightarrow> v \<notin> snd ` set al \<Longrightarrow> distinct (map snd (AList.update k v al))"
proof (induction al)
  case (Cons x al)
  obtain a b where x: "x = (a, b)" by (cases x)
  have "b \<notin> snd ` set (AList.update k v al)"
    using Cons.prems snd_set_update [of k v al] by (auto simp: x)
  with Cons show ?case
    by (auto simp: x)
qed simp

lemma tunnel_wf_register: "tunnel_wf t \<Longrightarrow> tunnel_wf (snd (register_pending rid t))"
proof -
  assume wf: "tunnel_wf t"
  then have fresh: "length (tn_channels t) \<notin> snd ` set (tn_pending t)"
    by (auto simp: tunnel_wf_def)
  have "\<forall>c \<in> snd ` set (AList.update rid (length (tn_channels t)) (tn_pending t)).
      c < Suc (length (tn_channels t))"
    using wf snd_set_update [of rid "length (tn_channels t)" "tn_pending t"]
    by (fastforce simp: tunnel_wf_def)
  with wf distinct_snd_update [OF _ fresh, of rid] show ?thesis
    by (auto simp: tunnel_wf_def register_pending_def pending_insert_def Let_def
        distinct_update channel_capacity_def)
qed

lemma tunnel_wf_drop: "tunnel_wf t \<Longrightarrow> tunnel_wf (drop_pending rid c t)"
  unfolding drop_pending_def
  by (rule tunnel_wf_remove, cases "c < length (tn_channels t)")
    (simp_all add: list_update_beyond tunnel_wf_channel tunnel_wf_bufD)

lemma tunnel_wf_recv: "tunnel_wf t \<Longrightarrow> tunnel_wf (snd (recv_frame c t))"
  using tunnel_wf_bufD [of t c]
  by (cases "c < length (tn_channels t)")
    (auto simp: recv_frame_def list_update_beyond intro!: tunnel_wf_channel split: list.split)

definition send_all :: "inbound_frame \<Rightarrow> (uuid \<times> nat) list \<Rightarrow> node_tunnel \<Rightarrow> node_tunnel" where
  "send_all f ps t = foldl (\<lambda>t (rid, c). case try_send c f t of None \<Rightarrow> t | Some t' \<Rightarrow> t') t ps"

lemma fail_all_pending_alt:
  "fail_all_pending t = (send_all disconnect_error (tn_pending t) t)\<lparr>tn_pending := []\<rparr>"
  by (simp add: fail_all_pending_def send_all_def)

lemma tunnel_wf_send_all: "tunnel_wf t \<Longrightarrow> tunnel_wf (send_all f ps t)"
proof (induction ps arbitrary: t)
  case (Cons p ps)
  then show ?case
    by (cases p) (auto simp: send_all_def split: option.split intro: tunnel_wf_try_send)
qed (simp add: send_all_def)

lemma tunnel_wf_fail: "tunnel_wf t \<Longrightarrow> tunnel_wf (fail_all_pending t)"
  using tunnel_wf_send_all [of t disconnect_error "tn_pending t"]
  by (simp add: fail_all_pending_alt tunnel_wf_def)

lemma send_all_channel:
  assumes "\<forall>c \<in> snd ` set ps. c < length (tn_channels t)" "distinct (map snd ps)"
  shows "tn_channels (send_all f ps t) ! c =
    (if c \<in> snd ` set ps \<and> can_send (tn_channels t ! c) then push f (tn_channels t ! c)
     else tn_channels t ! c)"
  using assms
proof (induction ps arbitrary: t)
  case (Cons p ps)
  obtain rid d where p: "p = (rid, d)" by (cases p)
  define t1 where "t1 = (case try_send d f t of None \<Rightarrow> t | Some t' \<Rightarrow> t')"
  have t1: "tn_channels t1 ! c' =
      (if c' = d \<and> can_send (tn_channels t ! d) then push f (tn_channels t ! d)
       else tn_channels t ! c')" "length (tn_channels t1) = length (tn_channels t)" for c'
    using Cons.prems(1) by (auto simp: t1_def try_send_def p)
  have "send_all f (p # ps) t = send_all f ps t1"
    by (simp add: send_all_def t1_def p)
  moreover have "d \<notin> snd ` set ps"
    using Cons.prems(2) by (simp add: p)
  ultimately show ?case
    using Cons.IH [of t1] Cons.prems t1 by (auto simp: p)
qed (simp add: send_all_def)

lemma tunnel_wf_touch: "tunnel_wf t \<Longrightarrow> tunnel_wf (touch_pong now t)"
  by (simp add: tunnel_wf_def touch_pong_def)

section \<open>The tunnel as a system\<close>

datatype tunnel_event =
    Register uuid
  | Inbound uuid inbound_frame
  | FailAll
  | DropRequest uuid nat
  | Recv nat
  | Touch int

fun tunnel_step :: "node_tunnel \<Rightarrow> tunnel_event \<Rightarrow> node_tunnel option" where
  "tunnel_step t (Register rid) = Some (snd (register_pending rid t))"
| "tunnel_step t (Inbound rid f) = Some (route_inbound rid f t)"
| "tunnel_step t FailAll = Some (fail_all_pending t)"
| "tunnel_step t (DropRequest rid c) = Some (drop_pending rid c t)"
| "tunnel_step t (Recv c) = Some (snd (recv_frame c t))"
| "tunnel_step t (Touch now) = Some (touch_pong now t)"

interpretation tunnel: invariant_system "new_tunnel now inst n mon" tunnel_step tunnel_wf
  for now inst n mon
proof unfold_locales
  show "tunnel_wf (new_tunnel now inst n mon)"
    by (simp add: tunnel_wf_def new_tunnel_def)
  show "tunnel_wf t \<Longrightarrow> tunnel_step t e = Some u \<Longrightarrow> tunnel_wf u" for t e u
    by (cases e) (auto intro: tunnel_wf_register tunnel_wf_route tunnel_wf_fail tunnel_wf_drop
        tunnel_wf_recv tunnel_wf_touch)
qed

section \<open>What requests are promised\<close>

definition two_requests :: node_tunnel where
  "two_requests =
     snd (register_pending 2 (snd (register_pending 1 (new_tunnel 100 0 (replicate 32 7) None))))"

lemma two_requests_wf: "tunnel_wf two_requests"
  unfolding two_requests_def by (intro tunnel_wf_register tunnel.inv_start)

lemma two_requests_facts:
  "pending_lookup two_requests 1 = Some 0" "pending_lookup two_requests 3 = None"
  "ch_open (tn_channels two_requests ! 0)" "ch_buf (tn_channels two_requests ! 0) = []"
  by (simp_all add: two_requests_def pending_lookup_def register_pending_def pending_insert_def
      new_tunnel_def Let_def)

lemma forward_registers:
  assumes "forward_http_request rid method path headers body t = (Inr c, t')"
  shows "pending_lookup t' rid = Some c" "tn_channels t' ! c = \<lparr>ch_buf = [], ch_open = True\<rparr>"
    "tn_outbox t' = tn_outbox t @ [Request rid method path headers body]"
  using assms
  by (auto simp: forward_http_request_def register_pending_def send_frame_def pend.table_laws Let_def
      pending_lookup_def pending_insert_def update_conv' split: if_splits)

definition route_stream :: "node_tunnel \<Rightarrow> (uuid \<times> inbound_frame) list \<Rightarrow> node_tunnel" where
  "route_stream t fs = foldl (\<lambda>t (rid, f). route_inbound rid f t) t fs"

definition frames_for :: "uuid \<Rightarrow> (uuid \<times> inbound_frame) list \<Rightarrow> inbound_frame list" where
  "frames_for rid fs = map snd (filter (\<lambda>(r, f). r = rid) fs)"

lemma request_view_stream:
  "tunnel_wf t \<Longrightarrow>
    request_view (channel_of t) rid (route_stream t fs) =
      foldl deliver (request_view (channel_of t) rid t) (frames_for rid fs)"
  unfolding route_stream_def frames_for_def
  by (rule dispatch.view_stream) (rule channel_of_routed)

lemma request_channel_stream:
  assumes "tunnel_wf t" "pending_lookup t rid = Some c" "ch_open (tn_channels t ! c)"
  shows "ch_buf (tn_channels (route_stream t fs) ! c) =
      ch_buf (tn_channels t ! c) @
        take (channel_capacity - length (ch_buf (tn_channels t ! c))) (upto_terminal (frames_for rid fs))
    \<and> (pending_lookup (route_stream t fs) rid \<noteq> None \<longleftrightarrow>
        length (ch_buf (tn_channels t ! c)) + length (frames_for rid fs) \<le> channel_capacity \<and>
        list_all (\<lambda>f. \<not> is_terminal_frame f) (frames_for rid fs))"
proof -
  have c: "channel_of t rid = c"
    using assms(2) by (simp add: channel_of_def)
  have "request_view (channel_of t) rid (route_stream t fs) =
      foldl deliver (True, tn_channels t ! c) (frames_for rid fs)"
    using request_view_stream [OF assms(1), of rid fs] assms(2) c by (simp add: request_view_def)
  then show ?thesis
    using deliver_stream [OF assms(3) tunnel_wfD(2) [OF assms(1,2)], of "frames_for rid fs"] c
    by (simp add: request_view_def)
qed

text \<open>C2: On a well-formed tunnel, whatever frames of other requests are interleaved, the channel of
  a registered request receives exactly its own frames, in the order of the wire, up to and
  including its first terminal frame and cut off where its 256 slots are used up; and the request
  stays registered exactly when no terminal frame came and no frame was refused.\<close>

theorem multiplexing_faithful:
  assumes "tunnel_wf t" "pending_lookup t rid = Some c" "ch_open (tn_channels t ! c)"
  shows "ch_buf (tn_channels (route_stream t fs) ! c) =
      ch_buf (tn_channels t ! c) @
        take (channel_capacity - length (ch_buf (tn_channels t ! c))) (upto_terminal (frames_for rid fs))
    \<and> (pending_lookup (route_stream t fs) rid \<noteq> None \<longleftrightarrow>
        length (ch_buf (tn_channels t ! c)) + length (frames_for rid fs) \<le> channel_capacity \<and>
        list_all (\<lambda>f. \<not> is_terminal_frame f) (frames_for rid fs))"
  using assms by (rule request_channel_stream)

theorem multiplexing_faithful_witness:
  "ch_buf (tn_channels (route_stream two_requests
      [(2, Chunk ''x''), (1, Chunk ''a''), (2, End 200), (1, End 200), (1, Chunk ''late'')]) ! 0) =
    [Chunk ''a'', End 200]"
  using multiplexing_faithful [OF two_requests_wf two_requests_facts(1,3), of
      "[(2, Chunk ''x''), (1, Chunk ''a''), (2, End 200), (1, End 200), (1, Chunk ''late'')]"]
  by (simp add: two_requests_facts frames_for_def channel_capacity_def)


lemma pending_fail_all [simp]: "tn_pending (fail_all_pending t) = []"
  by (simp add: fail_all_pending_alt)

text \<open>C33: When the tunnel goes down, no request stays in flight and every registered request whose
  receiver is there and whose channel has room finds the 502 disconnect error as its last frame;
  no other channel changes.\<close>

theorem disconnect_reaches_every_request:
  assumes "tunnel_wf t"
  shows "in_flight_count (fail_all_pending t) = 0 \<and>
    (\<forall>c. tn_channels (fail_all_pending t) ! c =
      (if (\<exists>rid. pending_lookup t rid = Some c) \<and> can_send (tn_channels t ! c)
       then push (Error 502 ''node disconnected'') (tn_channels t ! c) else tn_channels t ! c))"
proof -
  have "c \<in> snd ` set (tn_pending t) \<longleftrightarrow> (\<exists>rid. pending_lookup t rid = Some c)" for c
    using assms by (force simp: tunnel_wf_def pending_lookup_def)
  then show ?thesis
    using assms send_all_channel [of "tn_pending t" t disconnect_error]
    by (simp add: fail_all_pending_alt tunnel_wf_def in_flight_count_def flip: disconnect_error_def)
qed

theorem disconnect_reaches_every_request_witness:
  "ch_buf (tn_channels (fail_all_pending two_requests) ! 0) = [Error 502 ''node disconnected'']"
proof -
  have "can_send (tn_channels two_requests ! 0)"
    by (simp add: can_send_def two_requests_facts channel_capacity_def)
  then show ?thesis
    using disconnect_reaches_every_request [OF two_requests_wf] two_requests_facts(1)
    by (auto simp: push_def two_requests_facts(4))
qed


lemma register_pending_lookup:
  "pending_lookup (snd (register_pending rid t)) r =
    (if r = rid then Some (length (tn_channels t)) else pending_lookup t r)"
  by (simp add: register_pending_def Let_def pend.table_laws)

lemma drop_pending_lookup:
  "pending_lookup (drop_pending rid c t) r = (if r = rid then None else pending_lookup t r)"
  by (simp add: drop_pending_def pend.table_laws)

lemma pending_lookup_outbox [simp]:
  "pending_lookup (t\<lparr>tn_outbox := out\<rparr>) rid = pending_lookup t rid"
  by (simp add: pending_lookup_def)

lemma tn_outbox_register [simp]:
  "tn_outbox (snd (register_pending rid t)) = tn_outbox t"
  "tn_writer_open (snd (register_pending rid t)) = tn_writer_open t"
  by (simp_all add: register_pending_def pending_insert_def Let_def)

lemma tn_outbox_drop [simp]: "tn_outbox (drop_pending rid c t) = tn_outbox t"
  by (simp add: drop_pending_def pending_remove_def)

text \<open>Forwarding an HTTP request either queues exactly one request frame and registers the request
  on a channel of its own, or fails because the writer is gone and leaves no entry behind; other
  requests keep theirs.\<close>

theorem forward_http_all_or_nothing:
  assumes "forward_http_request rid method path headers body t = (r, t')" "r' \<noteq> rid"
  shows "pending_lookup t' r' = pending_lookup t r' \<and>
    (case r of
       Inl e \<Rightarrow> \<not> tn_writer_open t \<and> e = ''failed to send request frame to node'' \<and>
         pending_lookup t' rid = None \<and> tn_outbox t' = tn_outbox t
     | Inr c \<Rightarrow> c = length (tn_channels t) \<and> pending_lookup t' rid = Some c \<and>
         tn_channels t' = tn_channels t @ [\<lparr>ch_buf = [], ch_open = True\<rparr>] \<and>
         tn_outbox t' = tn_outbox t @ [Request rid method path headers body])"
proof -
  define c where "c = length (tn_channels t)"
  define t1 where "t1 = snd (register_pending rid t)"
  have reg: "register_pending rid t = (c, t1)"
    by (simp add: t1_def c_def register_pending_def Let_def)
  have t1: "tn_channels t1 = tn_channels t @ [\<lparr>ch_buf = [], ch_open = True\<rparr>]"
    "pending_lookup t1 rid = Some c" "pending_lookup t1 r' = pending_lookup t r'"
    "tn_outbox t1 = tn_outbox t" "tn_writer_open t1 = tn_writer_open t"
    using assms(2) by (simp_all add: t1_def c_def register_pending_lookup)
      (simp add: register_pending_def pending_insert_def Let_def)
  show ?thesis
  proof (cases "tn_writer_open t")
    case True
    then have "r = Inr c" "t' = t1\<lparr>tn_outbox := tn_outbox t1 @ [Request rid method path headers body]\<rparr>"
      using assms(1) t1(5) by (simp_all add: forward_http_request_def reg send_frame_def)
    with t1 show ?thesis by (simp add: c_def)
  next
    case False
    then have "r = Inl ''failed to send request frame to node''" "t' = drop_pending rid c t1"
      using assms(1) t1(5) by (simp_all add: forward_http_request_def reg send_frame_def)
    with t1 False assms(2) show ?thesis by (simp add: drop_pending_lookup)
  qed
qed

theorem forward_http_all_or_nothing_witness:
  "pending_lookup (snd (forward_http_request 3 ''GET'' ''/v1/models'' (JObj []) None two_requests)) 1 = Some 0"
  using forward_http_all_or_nothing [of 3 "''GET''" "''/v1/models''" "JObj []" None two_requests _ _ 1,
      OF surjective_pairing] two_requests_facts(1)
  by simp


text \<open>The tunnel is well formed in every state its operations reach from a new tunnel: no two
  registered requests share a channel, each has one that exists, and no channel holds more than
  256 frames.\<close>

theorem tunnel_always_well_formed:
  assumes "reachable_by tunnel_step (new_tunnel now inst n mon) t"
  shows "tunnel_wf t"
  using assms by (rule tunnel.inv_reachable)

theorem tunnel_always_well_formed_witness:
  "tunnel_wf (route_inbound 1 (Chunk ''a'') (new_tunnel 100 0 [] None))"
  by (rule tunnel_always_well_formed [of 100 0 "[]" None], rule reach_step [OF reach_start, of _ _ "Inbound 1 (Chunk ''a'')"])
    simp


lemma in_flight_card:
  "tunnel_wf t \<Longrightarrow> in_flight_count t = card (dom (pending_lookup t))"
  using distinct_card [of "map fst (tn_pending t)"]
  by (simp add: in_flight_count_def pending_lookup_def [abs_def] tunnel_wf_def dom_map_of_conv_image_fst)

text \<open>Dropping a pending request, whether or not a terminal frame arrived, leaves the in-flight
  count of a reachable tunnel where it was before that request was registered.\<close>

theorem dropped_request_not_counted:
  assumes "tunnel_wf t" "pending_lookup t rid = None"
  shows "in_flight_count (drop_pending rid c
      (route_stream (snd (register_pending rid t)) (map (Pair rid) fs))) = in_flight_count t"
proof -
  define u where "u = snd (register_pending rid t)"
  have wf: "tunnel_wf u"
    using assms(1) by (simp add: u_def tunnel_wf_register)
  have wf_stream: "tunnel_wf v \<Longrightarrow> tunnel_wf (route_stream v gs)" for v gs
    by (induction gs arbitrary: v) (auto simp: route_stream_def intro: tunnel_wf_route)
  have other: "pending_lookup (route_stream v (map (Pair rid) gs)) r = pending_lookup v r"
    if "r \<noteq> rid" for v gs r
    using that
  proof (induction gs arbitrary: v)
    case (Cons g gs)
    moreover have "pending_lookup (route_inbound rid g v) r = pending_lookup v r"
      using that by (cases rule: route_inbound_cases [of v rid g]) (auto simp: pend.table_laws)
    ultimately show ?case
      by (simp add: route_stream_def)
  qed (simp add: route_stream_def)
  let ?v = "route_stream u (map (Pair rid) fs)"
  have "pending_lookup (drop_pending rid c ?v) r = pending_lookup t r" for r
    using assms(2) other [of r u fs] by (auto simp: drop_pending_lookup u_def register_pending_lookup)
  then have "pending_lookup (drop_pending rid c ?v) = pending_lookup t" ..
  moreover have "tunnel_wf (drop_pending rid c ?v)"
    by (intro tunnel_wf_drop wf_stream wf)
  ultimately show ?thesis
    using assms(1) by (simp add: in_flight_card u_def)
qed

theorem dropped_request_not_counted_witness:
  "in_flight_count (drop_pending 3 2
      (route_stream (snd (register_pending 3 two_requests)) [(3, Chunk ''a'')])) = in_flight_count two_requests"
  using dropped_request_not_counted [OF two_requests_wf two_requests_facts(2), of 2 "[Chunk ''a'']"] by simp


end
