(* ===== verification/Models_Catalog.thy ===== *)
theory Models_Catalog
  imports Offerings Telemetry Tunnel_Dispatch
begin

text \<open>
  The models catalog (\<open>src/consumer/models.rs\<close>): per-node model entries, their union served to
  consumers and the flat list of offerings.

  Hash maps are association lists; the order of the list is the order in which the map is iterated,
  which the language leaves open, so the lemmas hold for every list. A panic (\<open>expect\<close>) in the merge
  is \<open>None\<close>; the merge works on a local map, so a panic leaves the published union untouched.
\<close>

type_synonym model_map = "(string \<times> json) list"
type_synonym advert = "node_id \<times> string \<times> json"

record models_catalog =
  mc_by_node :: "(node_id \<times> model_map) list"
  mc_union :: model_map
  mc_offerings :: "provider_offering list"
  mc_last_refresh :: "int option"

definition new_catalog :: models_catalog where
  "new_catalog = \<lparr>mc_by_node = [], mc_union = [], mc_offerings = [], mc_last_refresh = None\<rparr>"

definition catalog_contains :: "string \<Rightarrow> models_catalog \<Rightarrow> bool" where
  "catalog_contains m c \<longleftrightarrow> map_of (mc_union c) m \<noteq> None"

definition catalog_list :: "models_catalog \<Rightarrow> string list" where
  "catalog_list c = sort (map fst (mc_union c))"

definition list_cached_json :: "models_catalog \<Rightarrow> json" where
  "list_cached_json c =
     JObj [(''object'', JStr ''list''),
           (''data'', JArr (List.map_filter (map_of (mc_union c)) (catalog_list c)))]"

section \<open>Merging one advertised entry\<close>

definition json_u32 :: "u32 \<Rightarrow> json" where
  "json_u32 w = json_u64 (ucast w)"

definition provider_snapshot :: "(bytes \<Rightarrow> string) \<Rightarrow> advert \<Rightarrow> json" where
  "provider_snapshot enc a =
     (case a of (n, m, entry) \<Rightarrow>
       let b = build_offering_with_load enc n m entry ''unknown'' None None in
       JObj [(''node_id'', JStr (po_node_id b)), (''model_id'', JStr (po_model_id b)),
         (''context_length'', json_u32 (po_context_length b)),
         (''quantization'', JStr (po_quantization b)),
         (''parameter_count'', JStr (po_parameter_count b)),
         (''source_url'', JStr (po_source_url b)),
         (''features'', JObj (map (\<lambda>(k, s). (k, JStr s)) (po_features b))),
         (''active_requests'', json_u32 (po_active_requests b)),
         (''active_sessions'', json_u32 (po_active_sessions b)),
         (''queued_requests'', json_u32 (po_queued_requests b)),
         (''concurrency'', json_u32 (po_concurrency b)),
         (''available_slots'', json_u32 (po_available_slots b))])"

definition provider_active :: "json \<Rightarrow> u64" where
  "provider_active p = u64_or_0 (or_else (json_get ''active_requests'' p) (json_get ''active_sessions'' p))"

definition provider_concurrency :: "json \<Rightarrow> u64" where
  "provider_concurrency p = u64_or_0 (json_get ''concurrency'' p)"

definition add_load :: "u64 \<times> u64 \<Rightarrow> json \<Rightarrow> u64 \<times> u64" where
  "add_load tot p =
     (let active = provider_active p; concurrency = provider_concurrency p in
      (sat_add (fst tot) active,
       if 0 < concurrency then sat_add (snd tot) (sat_sub concurrency active) else snd tot))"

definition apply_aggregated_load :: "(string \<times> json) list \<Rightarrow> json list \<Rightarrow> (string \<times> json) list" where
  "apply_aggregated_load sparkl providers =
     (let (total_active, total_available) = foldl add_load (0, 0) providers;
          s1 = obj_insert ''active_requests'' (json_u64 total_active) sparkl;
          s2 = obj_insert ''active_sessions'' (json_u64 total_active) s1 in
      if 0 < total_available \<or> list_ex (\<lambda>p. 0 < provider_concurrency p) providers
      then obj_insert ''available_slots'' (json_u64 total_available) s2 else s2)"

text \<open>\<open>obj.entry("sparkl").or_insert_with({}).as_object_mut().expect(..)\<close>, and the same for the
  providers array.\<close>

definition sparkl_object :: "(string \<times> json) list \<Rightarrow> (string \<times> json) list option" where
  "sparkl_object kvs = (case map_of kvs ''sparkl'' of None \<Rightarrow> Some [] | Some v \<Rightarrow> as_object v)"

definition providers_array :: "(string \<times> json) list \<Rightarrow> json list option" where
  "providers_array sp = (case map_of sp ''providers'' of None \<Rightarrow> Some [] | Some v \<Rightarrow> as_array v)"

definition with_providers :: "(string \<times> json) list \<Rightarrow> (string \<times> json) list \<Rightarrow> json list \<Rightarrow> json" where
  "with_providers kvs sp ps =
     JObj (obj_insert ''sparkl''
       (JObj (apply_aggregated_load (obj_insert ''providers'' (JArr ps) sp) ps)) kvs)"

definition merge_model_entry :: "(bytes \<Rightarrow> string) \<Rightarrow> model_map \<Rightarrow> advert \<Rightarrow> model_map option" where
  "merge_model_entry enc merged a =
     (case a of (n, m, entry) \<Rightarrow>
       let provider = provider_snapshot enc a in
       case map_of merged m of
         None \<Rightarrow>
           (case entry of
              JObj kvs \<Rightarrow>
                (case sparkl_object kvs of
                   None \<Rightarrow> None
                 | Some sp \<Rightarrow> Some (AList.update m (with_providers kvs sp [provider]) merged))
            | _ \<Rightarrow> Some (AList.update m entry merged))
       | Some existing \<Rightarrow>
           (case existing of
              JObj kvs \<Rightarrow>
                (case sparkl_object kvs of
                   None \<Rightarrow> None
                 | Some sp \<Rightarrow>
                     (case providers_array sp of
                        None \<Rightarrow> None
                      | Some ps \<Rightarrow>
                          Some (AList.update m (with_providers kvs sp (ps @ [provider])) merged)))
            | _ \<Rightarrow> Some merged))"

fun merge_all :: "(bytes \<Rightarrow> string) \<Rightarrow> model_map \<Rightarrow> advert list \<Rightarrow> model_map option" where
  "merge_all enc merged [] = Some merged"
| "merge_all enc merged (a # as) =
     (case merge_model_entry enc merged a of None \<Rightarrow> None | Some merged' \<Rightarrow> merge_all enc merged' as)"

definition node_id_key :: "(bytes \<Rightarrow> string) \<Rightarrow> node_id \<Rightarrow> string" where
  "node_id_key enc n = node_id_hex enc n"

section \<open>Rebuilding the union\<close>

definition adverts :: "(node_id \<times> model_map) list \<Rightarrow> advert list" where
  "adverts by_node = concat (map (\<lambda>(n, ms). map (\<lambda>(m, e). (n, m, e)) ms) by_node)"

definition offering_key :: "provider_offering \<Rightarrow> string \<times> string" where
  "offering_key b = (po_model_id b, po_node_id b)"

definition flat_offerings :: "(bytes \<Rightarrow> string) \<Rightarrow> advert list \<Rightarrow> provider_offering list" where
  "flat_offerings enc as =
     sort_key offering_key
       (map (\<lambda>(n, m, e). build_offering_with_load enc n m e ''unknown'' None None) as)"

definition rebuild_union :: "(bytes \<Rightarrow> string) \<Rightarrow> int \<Rightarrow> models_catalog \<Rightarrow> models_catalog option" where
  "rebuild_union enc now c =
     (let as = adverts (mc_by_node c) in
      case merge_all enc [] as of
        None \<Rightarrow> None
      | Some merged \<Rightarrow>
          Some (c\<lparr>mc_union := merged, mc_offerings := flat_offerings enc as,
                  mc_last_refresh := Some now\<rparr>))"

text \<open>The two operations return the shared catalog and whether the calling task panicked.\<close>

definition upsert_node ::
  "(bytes \<Rightarrow> string) \<Rightarrow> int \<Rightarrow> node_id \<Rightarrow> model_map \<Rightarrow> models_catalog \<Rightarrow> models_catalog \<times> bool" where
  "upsert_node enc now n models c =
     (let c1 = c\<lparr>mc_by_node := AList.update n models (mc_by_node c)\<rparr> in
      case rebuild_union enc now c1 of None \<Rightarrow> (c1, True) | Some c2 \<Rightarrow> (c2, False))"

definition remove_node :: "(bytes \<Rightarrow> string) \<Rightarrow> int \<Rightarrow> node_id \<Rightarrow> models_catalog \<Rightarrow> models_catalog \<times> bool" where
  "remove_node enc now n c =
     (case map_of (mc_by_node c) n of
        None \<Rightarrow> (c, False)
      | Some _ \<Rightarrow>
          (let c1 = c\<lparr>mc_by_node := AList.delete n (mc_by_node c)\<rparr> in
           case rebuild_union enc now c1 of None \<Rightarrow> (c1, True) | Some c2 \<Rightarrow> (c2, False)))"

definition concurrency_for :: "node_id \<Rightarrow> string \<Rightarrow> models_catalog \<Rightarrow> u32" where
  "concurrency_for n m c =
     u32_or_0 (Option.bind (Option.bind (map_of (mc_by_node c) n) (\<lambda>ms. map_of ms m))
       (json_pointer [''sparkl'', ''concurrency'']))"

section \<open>What the union holds\<close>

definition adverts_for :: "string \<Rightarrow> advert list \<Rightarrow> advert list" where
  "adverts_for m as = filter (\<lambda>a. fst (snd a) = m) as"

lemma adverts_for_append [simp]:
  "adverts_for m [] = []"
  "adverts_for m (as @ bs) = adverts_for m as @ adverts_for m bs"
  "adverts_for m (a # as) = (if fst (snd a) = m then a # adverts_for m as else adverts_for m as)"
  by (simp_all add: adverts_for_def)

definition union_view :: "json \<Rightarrow> json list \<Rightarrow> bool" where
  "union_view v ps \<longleftrightarrow>
     json_pointer [''sparkl'', ''providers''] v = Some (JArr ps) \<and>
     json_pointer [''sparkl'', ''active_requests''] v = Some (json_u64 (fst (foldl add_load (0, 0) ps))) \<and>
     json_pointer [''sparkl'', ''active_sessions''] v = Some (json_u64 (fst (foldl add_load (0, 0) ps))) \<and>
     (list_ex (\<lambda>p. 0 < provider_concurrency p) ps \<longrightarrow>
       json_pointer [''sparkl'', ''available_slots''] v = Some (json_u64 (snd (foldl add_load (0, 0) ps))))"

definition merged_matches :: "(bytes \<Rightarrow> string) \<Rightarrow> advert list \<Rightarrow> model_map \<Rightarrow> bool" where
  "merged_matches enc as merged \<longleftrightarrow>
     (\<forall>m. if adverts_for m as = [] then map_of merged m = None
          else \<exists>v. map_of merged m = Some v \<and>
            union_view v (map (provider_snapshot enc) (adverts_for m as)))"

definition entry_object :: "advert \<Rightarrow> bool" where
  "entry_object a \<longleftrightarrow> as_object (snd (snd a)) \<noteq> None"

text \<open>An entry whose \<open>sparkl\<close> member is there and is not an object.\<close>

definition poisoned :: "advert \<Rightarrow> bool" where
  "poisoned a \<longleftrightarrow> (\<exists>kvs. snd (snd a) = JObj kvs \<and> sparkl_object kvs = None)"

lemma union_view_with_providers: "union_view (with_providers kvs sp ps) ps"
  by (auto simp: union_view_def with_providers_def apply_aggregated_load_def Let_def split: prod.split)

lemma union_viewE:
  assumes "union_view v ps"
  obtains kvs sp where "v = JObj kvs" "sparkl_object kvs = Some sp" "providers_array sp = Some ps"
proof -
  obtain w where w: "json_get ''sparkl'' v = Some w" "json_get ''providers'' w = Some (JArr ps)"
    using assms by (auto simp: union_view_def split: option.splits)
  then obtain kvs sp where "v = JObj kvs" "w = JObj sp"
    by (cases v; cases w) auto
  with w that show thesis
    by (simp add: sparkl_object_def providers_array_def)
qed

lemma as_object_Some: "as_object v = Some kvs \<longleftrightarrow> v = JObj kvs"
  by (cases v) auto

lemma merge_model_entry_cases:
  assumes "merged_matches enc as merged" "entry_object a"
  shows "merge_model_entry enc merged a =
    (if adverts_for (fst (snd a)) as = [] \<and> poisoned a then None
     else Some (the (merge_model_entry enc merged a))) \<and>
    (\<not> (adverts_for (fst (snd a)) as = [] \<and> poisoned a) \<longrightarrow>
      merged_matches enc (as @ [a]) (the (merge_model_entry enc merged a)))"
proof -
  obtain n m e where a: "a = (n, m, e)" by (cases a) auto
  obtain kvs where e: "e = JObj kvs"
    using assms(2) by (auto simp: entry_object_def a as_object_Some)
  have m: "if adverts_for m as = [] then map_of merged m = None
      else \<exists>v. map_of merged m = Some v \<and>
        union_view v (map (provider_snapshot enc) (adverts_for m as))"
    using assms(1) by (simp add: merged_matches_def)
  have step: "merged_matches enc (as @ [a]) (AList.update m v merged)"
    if "union_view v (map (provider_snapshot enc) (adverts_for m as @ [a]))" for v
    using assms(1) that by (simp add: merged_matches_def update_conv' a)
  show ?thesis
  proof (cases "adverts_for m as = []")
    case True
    with m have none: "map_of merged m = None" by simp
    show ?thesis
    proof (cases "sparkl_object kvs")
      case None
      then show ?thesis
        using True none by (simp add: merge_model_entry_def a e Let_def poisoned_def)
    next
      case (Some sp)
      then show ?thesis
        using True none step [of "with_providers kvs sp [provider_snapshot enc a]"]
        by (simp add: merge_model_entry_def a e Let_def poisoned_def union_view_with_providers)
    qed
  next
    case False
    with m obtain v where v: "map_of merged m = Some v"
      and uv: "union_view v (map (provider_snapshot enc) (adverts_for m as))" by auto
    from uv obtain okvs sp where o: "v = JObj okvs" "sparkl_object okvs = Some sp"
      "providers_array sp = Some (map (provider_snapshot enc) (adverts_for m as))"
      by (rule union_viewE)
    show ?thesis
      using False v o
        step [of "with_providers okvs sp (map (provider_snapshot enc) (adverts_for m as @ [a]))"]
      by (simp add: merge_model_entry_def a Let_def union_view_with_providers)
  qed
qed

lemma merge_all_correct:
  assumes "merged_matches enc as merged" "list_all entry_object bs"
    "merge_all enc merged bs = Some merged'"
  shows "merged_matches enc (as @ bs) merged'"
  using assms
proof (induction bs arbitrary: as merged)
  case (Cons b bs)
  from Cons.prems(3) obtain m1 where m1: "merge_model_entry enc merged b = Some m1"
    "merge_all enc m1 bs = Some merged'"
    by (auto split: option.splits)
  have "merged_matches enc (as @ [b]) m1"
    using merge_model_entry_cases [OF Cons.prems(1), of b] Cons.prems(2) m1(1)
    by (auto split: if_splits)
  from Cons.IH [OF this _ m1(2)] Cons.prems(2) show ?case by simp
qed simp

lemma merged_matches_empty [simp]: "merged_matches enc [] []"
  by (simp add: merged_matches_def adverts_for_def)

text \<open>The merge panics exactly when some entry is poisoned and the first of its model.\<close>

fun first_poisoned :: "advert list \<Rightarrow> advert list \<Rightarrow> bool" where
  "first_poisoned as [] = False"
| "first_poisoned as (b # bs) =
     (adverts_for (fst (snd b)) as = [] \<and> poisoned b \<or> first_poisoned (as @ [b]) bs)"

lemma merge_all_panics:
  assumes "merged_matches enc as merged" "list_all entry_object bs"
  shows "merge_all enc merged bs = None \<longleftrightarrow> first_poisoned as bs"
  using assms
proof (induction bs arbitrary: as merged)
  case (Cons b bs)
  note step = merge_model_entry_cases [OF Cons.prems(1), of b]
  show ?case
  proof (cases "adverts_for (fst (snd b)) as = [] \<and> poisoned b")
    case True
    then show ?thesis
      using step Cons.prems(2) by simp
  next
    case False
    define m1 where "m1 = the (merge_model_entry enc merged b)"
    from False step Cons.prems(2) have m1: "merge_model_entry enc merged b = Some m1"
      "merged_matches enc (as @ [b]) m1"
      by (auto simp: m1_def)
    with False Cons.IH [OF m1(2)] Cons.prems(2) show ?thesis by auto
  qed
qed simp

lemma not_first_poisoned: "list_all (\<lambda>a. \<not> poisoned a) bs \<Longrightarrow> \<not> first_poisoned as bs"
  by (induction bs arbitrary: as) auto

lemma sole_advert_poisons:
  "poisoned b \<Longrightarrow> adverts_for (fst (snd b)) (as @ bs) = [b] \<Longrightarrow> b \<in> set bs \<Longrightarrow> first_poisoned as bs"
proof (induction bs arbitrary: as)
  case (Cons c bs)
  show ?case
  proof (cases "c = b")
    case True
    with Cons.prems show ?thesis
      by (auto simp: append_eq_Cons_conv split: if_splits)
  next
    case False
    with Cons.prems Cons.IH [of "as @ [c]"] show ?thesis by simp
  qed
qed simp

lemma rebuild_mc_by_node: "rebuild_union enc now c = Some c' \<Longrightarrow> mc_by_node c' = mc_by_node c"
  by (auto simp: rebuild_union_def Let_def split: option.splits)

lemma upsert_mc_by_node:
  "mc_by_node (fst (upsert_node enc now n ms c)) = AList.update n ms (mc_by_node c)"
  by (auto simp: upsert_node_def Let_def rebuild_mc_by_node split: option.split)

lemma remove_mc_by_node:
  "map_of (mc_by_node (fst (remove_node enc now n c))) = (map_of (mc_by_node c))(n := None)"
  by (auto simp: remove_node_def Let_def rebuild_mc_by_node delete_conv' split: option.split)

text \<open>Two nodes that advertise one model.\<close>

definition sample_entry :: "u64 \<Rightarrow> json" where
  "sample_entry active =
     JObj [(''id'', JStr ''m''),
       (''sparkl'', JObj [(''concurrency'', json_u64 8), (''active_sessions'', json_u64 active)])]"

definition sample_catalog :: models_catalog where
  "sample_catalog = fst (upsert_node sample_enc 0 [1] [(''m'', sample_entry 2)] new_catalog)"

lemma sample_catalog_by_node: "mc_by_node sample_catalog = [([1], [(''m'', sample_entry 2)])]"
  by (simp add: sample_catalog_def upsert_mc_by_node new_catalog_def)

lemma sample_adverts:
  "adverts (AList.update [2] [(''m'', e)] (mc_by_node sample_catalog)) =
    [([1], ''m'', sample_entry 2), ([2], ''m'', e)]"
  by (simp add: sample_catalog_by_node adverts_def)

lemma sample_entry_object: "entry_object (n, m, sample_entry a)" "\<not> poisoned (n, m, sample_entry a)"
  by (simp_all add: entry_object_def poisoned_def sparkl_object_def sample_entry_def)

lemma sample_upsert:
  "\<not> snd (upsert_node sample_enc 0 [2] [(''m'', sample_entry 1)] sample_catalog)"
proof -
  let ?as = "[([1], ''m'', sample_entry 2), ([2], ''m'', sample_entry 1)] :: advert list"
  have "merge_all sample_enc [] ?as \<noteq> None"
    by (subst merge_all_panics [OF merged_matches_empty]) (simp_all add: sample_entry_object)
  then show ?thesis
    by (auto simp: upsert_node_def rebuild_union_def Let_def sample_adverts simp del: merge_all.simps
        split: option.split)
qed

text \<open>C19: After an update of a node's models that does not panic, the union knows exactly the models
  that some node advertises; each entry lists one provider snapshot per advertising node, and
  carries the aggregate load of those providers.\<close>

theorem upsert_union_correct:
  assumes "upsert_node enc now n ms c = (c', False)"
    and "list_all entry_object (adverts (AList.update n ms (mc_by_node c)))"
  shows "merged_matches enc (adverts (mc_by_node c')) (mc_union c')"
proof -
  let ?as = "adverts (AList.update n ms (mc_by_node c))"
  from assms(1) obtain merged where m: "merge_all enc [] ?as = Some merged" "mc_union c' = merged"
    "mc_by_node c' = AList.update n ms (mc_by_node c)"
    by (auto simp: upsert_node_def rebuild_union_def Let_def split: option.splits)
  with merge_all_correct [OF merged_matches_empty assms(2) m(1)] show ?thesis by simp
qed

theorem upsert_union_correct_witness:
  "merged_matches sample_enc [([1], ''m'', sample_entry 2), ([2], ''m'', sample_entry 1)]
    (mc_union (fst (upsert_node sample_enc 0 [2] [(''m'', sample_entry 1)] sample_catalog)))"
proof -
  obtain c' where c': "upsert_node sample_enc 0 [2] [(''m'', sample_entry 1)] sample_catalog = (c', False)"
    using sample_upsert by (metis (full_types) prod.exhaust_sel)
  then have "mc_by_node c' = AList.update [2] [(''m'', sample_entry 1)] (mc_by_node sample_catalog)"
    by (metis fst_conv upsert_mc_by_node)
  then show ?thesis
    using upsert_union_correct [OF c'] c' by (simp add: sample_adverts sample_entry_object)
qed

text \<open>An entry whose \<open>sparkl\<close> member is not an object, in a model that no other node advertises,
  makes every update panic, of its own node and of any other, and the union that consumers see
  stays what it was; so it does until that node's entries are removed or replaced.\<close>

theorem poisoned_entry_freezes_union:
  assumes "list_all entry_object (adverts (AList.update n ms (mc_by_node c)))"
    and "b \<in> set (adverts (AList.update n ms (mc_by_node c)))" "poisoned b"
    and "adverts_for (fst (snd b)) (adverts (AList.update n ms (mc_by_node c))) = [b]"
  shows "snd (upsert_node enc now n ms c) \<and> mc_union (fst (upsert_node enc now n ms c)) = mc_union c \<and>
    mc_offerings (fst (upsert_node enc now n ms c)) = mc_offerings c"
proof -
  have "merge_all enc [] (adverts (AList.update n ms (mc_by_node c))) = None"
    using merge_all_panics [OF merged_matches_empty assms(1)]
      sole_advert_poisons [OF assms(3) _ assms(2), of "[]"] assms(4) by simp
  then show ?thesis
    by (simp add: upsert_node_def rebuild_union_def Let_def)
qed

theorem poisoned_entry_freezes_union_witness:
  "mc_union (fst (upsert_node sample_enc 0 [2]
      [(''bad'', JObj [(''sparkl'', JStr ''x'')])] sample_catalog)) = mc_union sample_catalog"
  using poisoned_entry_freezes_union [of "[2]" "[(''bad'', JObj [(''sparkl'', JStr ''x'')])]" sample_catalog
      "([2], ''bad'', JObj [(''sparkl'', JStr ''x'')])" sample_enc 0]
  by (simp add: sample_catalog_by_node adverts_def entry_object_def poisoned_def sample_entry_def
      sparkl_object_def)

section \<open>Aggregate load\<close>

definition free_slots :: "json \<Rightarrow> nat" where
  "free_slots p = unat (provider_concurrency p) - unat (provider_active p)"

lemma fold_load_active:
  "unat (fst (foldl add_load tot ps)) =
    min (unat (fst tot) + (\<Sum>p\<leftarrow>ps. unat (provider_active p))) (2 ^ 64 - 1)"
proof (induction ps arbitrary: tot)
  case Nil
  then show ?case using unat_below [of "fst tot"] by simp
next
  case (Cons p ps)
  then show ?case by (simp add: add_load_def Let_def unat_sat_add)
qed

lemma fold_load_available:
  "unat (snd (foldl add_load tot ps)) =
    min (unat (snd tot) + (\<Sum>p\<leftarrow>ps. free_slots p)) (2 ^ 64 - 1)"
proof (induction ps arbitrary: tot)
  case Nil
  then show ?case using unat_below [of "snd tot"] by simp
next
  case (Cons p ps)
  then show ?case
    by (auto simp: add_load_def Let_def unat_sat_add unat_sat_sub free_slots_def word_gt_0)
qed

lemma unat_u32_as_u64 [simp]: "unat (ucast w :: u64) = unat w" for w :: u32
proof -
  have "unat w < 2 ^ 64"
    using unat_below [of w] by simp
  then show ?thesis
    by (simp add: unsigned_ucast_eq take_bit_nat_eq_self)
qed

lemma u32_as_u64_0 [simp]: "(ucast w :: u64) = 0 \<longleftrightarrow> w = 0" for w :: u32
proof -
  have "(ucast w :: u64) = 0 \<longleftrightarrow> unat (ucast w :: u64) = 0"
    by (simp only: unat_eq_zero)
  then show ?thesis by (simp add: unat_eq_zero)
qed

lemma provider_snapshot_load [simp]:
  "provider_active (provider_snapshot enc a) = ucast (catalog_active (snd (snd a)))"
  "provider_concurrency (provider_snapshot enc a) = ucast (entry_concurrency (snd (snd a)))"
  by (cases a; simp add: provider_active_def provider_concurrency_def provider_snapshot_def Let_def
      u64_or_0_def or_else_def json_u32_def build_offering_with_load_def)+

lemma sum_list_bound: "(\<And>x. x \<in> set xs \<Longrightarrow> f x \<le> b) \<Longrightarrow> (\<Sum>x\<leftarrow>xs. f x) \<le> length xs * b"
  for f :: "'a \<Rightarrow> nat"
  by (induction xs) (auto simp: add_mono)

lemma sum_u32_fits:
  assumes "length as < 2 ^ 32" "\<And>a. f a \<le> 2 ^ 32 - (1 :: nat)"
  shows "(\<Sum>a\<leftarrow>as. f a) \<le> 2 ^ 64 - 1"
proof -
  have "(\<Sum>a\<leftarrow>as. f a) \<le> length as * (2 ^ 32 - 1)"
    using assms(2) by (intro sum_list_bound)
  also have "\<dots> \<le> (2 ^ 32 - 1) * (2 ^ 32 - 1)"
    using assms(1) by (intro mult_right_mono) simp_all
  finally show ?thesis by simp
qed

text \<open>The active load that the union reports for a model is the exact sum over the nodes that
  advertise it, and so are the free slots when one of them declares a concurrency: with fewer than
  \<open>2 ^ 32\<close> adverts neither sum saturates.\<close>

theorem union_load_is_sum:
  assumes "merged_matches enc as merged" "length as < 2 ^ 32" "map_of merged m = Some v"
  shows "\<exists>tot avail.
    json_pointer [''sparkl'', ''active_requests''] v = Some (json_u64 tot) \<and>
    unat tot = (\<Sum>(n, m, e)\<leftarrow>adverts_for m as. unat (catalog_active e)) \<and>
    ((\<exists>(n, m', e) \<in> set (adverts_for m as). 0 < entry_concurrency e) \<longrightarrow>
      json_pointer [''sparkl'', ''available_slots''] v = Some (json_u64 avail) \<and>
      unat avail = (\<Sum>(n, m, e)\<leftarrow>adverts_for m as. unat (entry_concurrency e) - unat (catalog_active e)))"
proof -
  let ?ads = "adverts_for m as"
  let ?ps = "map (provider_snapshot enc) ?ads"
  have uv: "union_view v ?ps"
    using assms(1,3) by (auto simp: merged_matches_def split: if_splits dest!: spec [of _ m])
  have len: "length ?ads < 2 ^ 32"
    using assms(2) le_less_trans [OF length_filter_le] unfolding adverts_for_def by blast
  have ub: "unat w \<le> 2 ^ 32 - 1" for w :: u32
    using unat_below [of w] by simp
  have "(\<Sum>a\<leftarrow>?ads. unat (catalog_active (snd (snd a)))) \<le> 2 ^ 64 - 1"
    using len ub by (rule sum_u32_fits)
  then have "unat (fst (foldl add_load (0, 0) ?ps)) = (\<Sum>(n, m, e)\<leftarrow>?ads. unat (catalog_active e))"
    by (simp add: fold_load_active comp_def case_prod_unfold)
  moreover have "(\<Sum>a\<leftarrow>?ads. unat (entry_concurrency (snd (snd a))) - unat (catalog_active (snd (snd a))))
      \<le> 2 ^ 64 - 1"
    by (rule sum_u32_fits [OF len]) (rule le_trans [OF diff_le_self ub])
  then have "unat (snd (foldl add_load (0, 0) ?ps)) =
      (\<Sum>(n, m, e)\<leftarrow>?ads. unat (entry_concurrency e) - unat (catalog_active e))"
    by (simp add: fold_load_available comp_def case_prod_unfold free_slots_def)
  moreover have "list_ex (\<lambda>p. 0 < provider_concurrency p) ?ps"
    if "\<exists>(n, m', e) \<in> set ?ads. 0 < entry_concurrency e"
    using that by (auto simp: list_ex_iff word_gt_0 intro!: bexI)
  ultimately show ?thesis
    using uv unfolding union_view_def by blast
qed

lemma sample_entry_load: "catalog_active (sample_entry a) = ucast a" "entry_concurrency (sample_entry a) = 8"
  by (simp_all add: catalog_active_def entry_concurrency_def sample_entry_def u32_or_0_def u64_or_0_def
      or_else_def unsigned_numeral take_bit_eq_mod)

theorem union_load_is_sum_witness:
  "\<exists>merged v tot.
    merge_all sample_enc [] [([1], ''m'', sample_entry 2), ([2], ''m'', sample_entry 1)] = Some merged \<and>
    map_of merged ''m'' = Some v \<and>
    json_pointer [''sparkl'', ''active_requests''] v = Some (json_u64 tot) \<and> unat tot = 3"
proof -
  let ?as = "[([1], ''m'', sample_entry 2), ([2], ''m'', sample_entry 1)] :: advert list"
  have "merge_all sample_enc [] ?as \<noteq> None"
    by (subst merge_all_panics [OF merged_matches_empty]) (simp_all add: sample_entry_object)
  then obtain merged where merged: "merge_all sample_enc [] ?as = Some merged" by blast
  then have mm: "merged_matches sample_enc ?as merged"
    using merge_all_correct [OF merged_matches_empty _ merged] by (simp add: sample_entry_object)
  then obtain v where v: "map_of merged ''m'' = Some v"
    unfolding merged_matches_def by (drule_tac spec [of _ "''m''"]) auto
  from union_load_is_sum [OF mm _ v] obtain tot where
    "json_pointer [''sparkl'', ''active_requests''] v = Some (json_u64 tot)" "unat tot = 3"
    by (auto simp: sample_entry_load simp del: json_pointer.simps)
  with merged v show ?thesis by blast
qed

end
