(* ===== verification/Catalog_Query.thy ===== *)
theory Catalog_Query
  imports Models_Catalog
begin

text \<open>
  The provider query (\<open>src/consumer/catalog.rs\<close> and \<open>query_providers\<close> of
  \<open>src/consumer/models.rs\<close>): filters parsed from the query string, offerings rebuilt from the
  catalog with the router's own load and the live status of each tunnel, and the events of
  \<open>model_capacity_events\<close>. A query map is an association list with distinct keys.
\<close>

record query_filters =
  qf_model :: "string option"
  qf_features_any :: "string list"
  qf_features_all :: "string list"
  qf_feature_value_contains :: "(string \<times> string) list"
  qf_quantization :: "string option"
  qf_parameter_count :: "string option"
  qf_min_context_length :: "u32 option"
  qf_min_available_slots :: "u32 option"
  qf_online_only :: bool

definition split_csv :: "string option \<Rightarrow> string list" where
  "split_csv s =
     (case s of None \<Rightarrow> [] | Some t \<Rightarrow> filter (\<lambda>x. x \<noteq> []) (map trim (split_on '','' t)))"

definition insert_feature_param :: "(string \<times> string) list \<Rightarrow> string \<times> string \<Rightarrow> (string \<times> string) list" where
  "insert_feature_param out kv =
     (case strip_prefix ''feature_'' (fst kv) of
        Some key \<Rightarrow> if key \<noteq> [] then AList.update key (snd kv) out else out
      | None \<Rightarrow> out)"

definition feature_params :: "(string \<times> string) list \<Rightarrow> (string \<times> string) list" where
  "feature_params query = foldl insert_feature_param [] query"

definition from_query_map :: "(string \<times> string) list \<Rightarrow> query_filters" where
  "from_query_map query =
     \<lparr>qf_model = map_of query ''model'',
      qf_features_any = split_csv (map_of query ''features_any''),
      qf_features_all = split_csv (map_of query ''features_all''),
      qf_feature_value_contains = feature_params query,
      qf_quantization = map_of query ''quantization'',
      qf_parameter_count = map_of query ''parameter_count'',
      qf_min_context_length = Option.bind (map_of query ''min_context_length'') parse_u32,
      qf_min_available_slots = Option.bind (map_of query ''min_available_slots'') parse_u32,
      qf_online_only =
        (case map_of query ''online_only'' of Some s \<Rightarrow> s \<noteq> ''false'' \<and> s \<noteq> ''0'' | None \<Rightarrow> True)\<rparr>"

section \<open>Offerings under the router's load\<close>

fun load_offerings ::
  "(bytes \<Rightarrow> string) \<Rightarrow> advert list \<Rightarrow> cap_state \<Rightarrow> provider_offering list \<times> cap_state" where
  "load_offerings enc [] s = ([], s)"
| "load_offerings enc ((n, m, e) # as) s =
     (let (snap, s1) = snapshot (ModelCapacityKey n m) s;
          b = build_offering_with_load enc n m e ''unknown''
                (Some (active_requests snap)) (Some (queued_requests snap));
          (bs, s2) = load_offerings enc as s1 in
      (b # bs, s2))"

definition passes :: "query_filters \<Rightarrow> provider_offering \<Rightarrow> bool" where
  "passes f b \<longleftrightarrow>
     \<not> (qf_online_only f \<and> po_tunnel_status b = ''offline'') \<and>
     (case qf_model f of Some m \<Rightarrow> po_model_id b = m | None \<Rightarrow> True) \<and>
     (case qf_quantization f of Some q \<Rightarrow> po_quantization b = q | None \<Rightarrow> True) \<and>
     (case qf_parameter_count f of Some p \<Rightarrow> po_parameter_count b = p | None \<Rightarrow> True) \<and>
     (case qf_min_context_length f of Some l \<Rightarrow> \<not> po_context_length b < l | None \<Rightarrow> True) \<and>
     (case qf_min_available_slots f of Some l \<Rightarrow> \<not> po_available_slots b < l | None \<Rightarrow> True) \<and>
     \<not> (qf_features_any f \<noteq> [] \<and> \<not> list_ex (\<lambda>k. map_of (po_features b) k \<noteq> None) (qf_features_any f)) \<and>
     list_all (\<lambda>k. map_of (po_features b) k \<noteq> None) (qf_features_all f) \<and>
     list_all (\<lambda>(k, needle). case map_of (po_features b) k of Some v \<Rightarrow> contains_sub needle v | None \<Rightarrow> False)
       (qf_feature_value_contains f)"

definition live_status :: "int \<Rightarrow> u64 \<Rightarrow> (node_id \<Rightarrow> node_tunnel option) \<Rightarrow> node_id \<Rightarrow> string" where
  "live_status now stale tunnels n =
     (case tunnels n of
        Some t \<Rightarrow> tunnel_status_for_pong now (last_pong_timestamp t) stale
      | None \<Rightarrow> ''offline'')"

definition query_one ::
  "(string \<Rightarrow> string + bytes) \<Rightarrow> int \<Rightarrow> u64 \<Rightarrow> (node_id \<Rightarrow> node_tunnel option) \<Rightarrow> query_filters \<Rightarrow>
   provider_offering \<Rightarrow> provider_offering option" where
  "query_one dec now stale tunnels f b =
     (case parse_node_id_hex dec (po_node_id b) of
        Inl e \<Rightarrow> None
      | Inr n \<Rightarrow>
          (let b' = b\<lparr>po_tunnel_status := live_status now stale tunnels n\<rparr> in
           if passes f b' then Some b' else None))"

definition query_providers ::
  "(bytes \<Rightarrow> string) \<Rightarrow> (string \<Rightarrow> string + bytes) \<Rightarrow> int \<Rightarrow> query_filters \<Rightarrow> u64 \<Rightarrow>
   (node_id \<Rightarrow> node_tunnel option) \<Rightarrow> models_catalog \<Rightarrow> cap_state \<Rightarrow> provider_offering list \<times> cap_state" where
  "query_providers enc dec now f stale tunnels c s =
     (let (base, s') = load_offerings enc (adverts (mc_by_node c)) s in
      (List.map_filter (query_one dec now stale tunnels f) (sort_key offering_key base), s'))"

section \<open>Capacity events of the catalog\<close>

fun capacity_events ::
  "(bytes \<Rightarrow> string) \<Rightarrow> (cap_key \<Rightarrow> (u32 \<times> u32) option) \<Rightarrow> advert list \<Rightarrow> cap_state \<Rightarrow>
   model_capacity_event list \<times> cap_state" where
  "capacity_events enc tracker_snap [] s = ([], s)"
| "capacity_events enc tracker_snap ((n, m, e) # as) s =
     (let key = ModelCapacityKey n m;
          ((active, queued), s1) =
            (case tracker_snap key of
               Some p \<Rightarrow> (p, s)
             | None \<Rightarrow> (let (snap, s') = snapshot key s in ((active_requests snap, queued_requests snap), s')));
          ev = \<lparr>mce_node_id = node_id_hex enc n, mce_model_id = m, mce_active_requests = active,
                mce_queued_requests = queued, mce_concurrency = entry_concurrency e\<rparr>;
          (evs, s2) = capacity_events enc tracker_snap as s1 in
      (ev # evs, s2))"

definition model_capacity_events ::
  "(bytes \<Rightarrow> string) \<Rightarrow> (cap_key \<Rightarrow> (u32 \<times> u32) option) \<Rightarrow> models_catalog \<Rightarrow> cap_state \<Rightarrow>
   model_capacity_event list \<times> cap_state" where
  "model_capacity_events enc tracker_snap c s =
     (let (evs, s') = capacity_events enc tracker_snap (adverts (mc_by_node c)) s in
      (sort_key mce_key evs, s'))"

section \<open>What a query returns\<close>

definition slots_wf :: "cap_state \<Rightarrow> bool" where
  "slots_wf s \<longleftrightarrow> (\<forall>k r. slots s k = Some r \<longrightarrow> r < length (heap s))"

lemma slots_wf_new_tracker: "slots_wf new_tracker"
  by (simp add: slots_wf_def new_tracker_def)

definition load_of :: "cap_state \<Rightarrow> cap_key \<Rightarrow> u32 \<times> u32" where
  "load_of s k =
     (case slots s k of
        Some r \<Rightarrow> (slot_active (heap s ! r), slot_queued (heap s ! r))
      | None \<Rightarrow> (0, 0))"

lemma snapshot_load:
  assumes "slots_wf s" "snapshot k s = (snap, s')"
  shows "active_requests snap = fst (load_of s k)" "queued_requests snap = snd (load_of s k)"
    "slots_wf s'" "load_of s' = load_of s"
proof -
  show "active_requests snap = fst (load_of s k)" "queued_requests snap = snd (load_of s k)"
    using assms(2) by (auto simp: snapshot_def slot_for_def load_of_def Let_def split: option.splits)
  show "slots_wf s'"
    using assms by (fastforce simp: snapshot_def slot_for_def slots_wf_def Let_def
        split: option.splits if_splits)
  show "load_of s' = load_of s"
    using assms by (auto simp: snapshot_def slot_for_def slots_wf_def load_of_def Let_def fun_eq_iff
        nth_append split: option.splits if_splits)
qed

definition offering_under_load ::
  "(bytes \<Rightarrow> string) \<Rightarrow> (cap_key \<Rightarrow> u32 \<times> u32) \<Rightarrow> string \<Rightarrow> advert \<Rightarrow> provider_offering" where
  "offering_under_load enc load status a =
     (case a of (n, m, e) \<Rightarrow>
       build_offering_with_load enc n m e status
         (Some (fst (load (ModelCapacityKey n m)))) (Some (snd (load (ModelCapacityKey n m)))))"

lemma load_offerings_spec:
  "slots_wf s \<Longrightarrow> load_offerings enc as s = (bs, s') \<Longrightarrow>
    bs = map (offering_under_load enc (load_of s) ''unknown'') as \<and> slots_wf s' \<and> load_of s' = load_of s"
proof (induction as arbitrary: s bs s')
  case (Cons a as)
  obtain n m e where a: "a = (n, m, e)" by (cases a) auto
  obtain snap s1 where s1: "snapshot (ModelCapacityKey n m) s = (snap, s1)" by fastforce
  obtain cs s2 where s2: "load_offerings enc as s1 = (cs, s2)" by fastforce
  note l = snapshot_load [OF Cons.prems(1) s1]
  from Cons.IH [OF l(3) s2] Cons.prems(2) show ?case
    by (simp add: a s1 s2 l offering_under_load_def)
qed simp

lemma offering_status:
  "(offering_under_load enc load st a)\<lparr>po_tunnel_status := st'\<rparr> = offering_under_load enc load st' a"
  by (cases a) (simp add: offering_under_load_def build_offering_with_load_def Let_def)

lemma offering_key_query_one: "query_one dec now stale ts f b = Some b' \<Longrightarrow> offering_key b' = offering_key b"
  by (auto simp: query_one_def offering_key_def Let_def split: sum.splits if_splits)

lemma set_map_filter: "set (List.map_filter f xs) = {y. \<exists>x \<in> set xs. f x = Some y}"
  by (force simp: List.map_filter_def)

lemma sorted_map_filter:
  assumes "\<And>x y. f x = Some y \<Longrightarrow> key y = key x" "sorted (map key xs)"
  shows "sorted (map key (List.map_filter f xs))"
  using assms(2)
proof (induction xs)
  case (Cons x xs)
  have "\<forall>y \<in> set (List.map_filter f xs). \<exists>x' \<in> set xs. key y = key x'"
    using assms(1) by (auto simp: set_map_filter)
  then show ?case
    using Cons assms(1) [of x] by (auto simp: List.map_filter_def split: option.split)
qed (simp add: List.map_filter_def)

definition own_status ::
  "int \<Rightarrow> u64 \<Rightarrow> (node_id \<Rightarrow> node_tunnel option) \<Rightarrow> advert \<Rightarrow> string" where
  "own_status now stale ts a = live_status now stale ts (fst a)"

lemma query_one_offering:
  assumes "hex_laws enc dec" "length (fst a) = 32"
  shows "query_one dec now stale ts f (offering_under_load enc load st a) =
    (let b = offering_under_load enc load (own_status now stale ts a) a in
      if passes f b then Some b else None)"
proof -
  obtain n m e where a: "a = (n, m, e)" by (cases a) auto
  have "trim (node_id_hex enc n) = node_id_hex enc n"
    by (rule trim_graph [OF node_id_hex_graph [OF assms(1)]])
  moreover have "strip_prefix ''0x'' (node_id_hex enc n) = Some (enc n)"
    by (simp only: node_id_hex_def strip_prefix_append)
  ultimately have "parse_node_id_hex dec (node_id_hex enc n) = Inr n"
    using assms(2) hex_lawsD(1) [OF assms(1), of n] by (simp add: parse_node_id_hex_def a)
  moreover have "po_node_id (offering_under_load enc load st a) = node_id_hex enc n"
    by (simp add: a offering_under_load_def build_offering_with_load_def Let_def)
  ultimately show ?thesis
    by (simp add: query_one_def offering_status own_status_def a)
qed

text \<open>C18: A provider query returns exactly the advertised offerings that pass the filters, each with
  the load the router counts for it and the status its tunnel has now, sorted by model and node;
  and asking changes no load.\<close>

theorem query_providers_exact:
  assumes "hex_laws enc dec" "slots_wf s" "\<forall>a \<in> set (adverts (mc_by_node c)). length (fst a) = 32"
    and "query_providers enc dec now f stale ts c s = (bs, s')"
  shows "set bs = {b. \<exists>a \<in> set (adverts (mc_by_node c)).
      b = offering_under_load enc (load_of s) (own_status now stale ts a) a \<and> passes f b}
    \<and> sorted (map offering_key bs) \<and> load_of s' = load_of s"
proof -
  obtain base where base: "load_offerings enc (adverts (mc_by_node c)) s = (base, s')"
    and bs: "bs = List.map_filter (query_one dec now stale ts f) (sort_key offering_key base)"
    using assms(4) by (auto simp: query_providers_def split: prod.splits)
  have l: "base = map (offering_under_load enc (load_of s) ''unknown'') (adverts (mc_by_node c))"
    "load_of s' = load_of s"
    using load_offerings_spec [OF assms(2) base] by simp_all
  have "set bs = {b. \<exists>a \<in> set (adverts (mc_by_node c)).
      b = offering_under_load enc (load_of s) (own_status now stale ts a) a \<and> passes f b}"
    using assms(3) by (auto simp: bs set_map_filter l(1) query_one_offering [OF assms(1)] Let_def
        split: if_splits)
  moreover have "sorted (map offering_key bs)"
    unfolding bs by (rule sorted_map_filter) (auto dest: offering_key_query_one)
  ultimately show ?thesis
    using l(2) by blast
qed

theorem query_providers_exact_witness:
  "set (fst (query_providers sample_enc sample_dec 1000 (from_query_map [(''min_available_slots'', ''7'')]) 40
      (\<lambda>_. Some (new_tunnel 990 0 (replicate 32 1) None))
      (new_catalog\<lparr>mc_by_node := [(replicate 32 1, [(''m'', sample_entry 2)])]\<rparr>) new_tracker)) =
    {offering_under_load sample_enc (\<lambda>_. (0, 0)) ''online'' (replicate 32 1, ''m'', sample_entry 2)}"
proof -
  let ?n = "replicate 32 1 :: node_id"
  let ?f = "from_query_map [(''min_available_slots'', ''7'')]"
  let ?a = "(?n, ''m'', sample_entry 2) :: advert"
  let ?c = "new_catalog\<lparr>mc_by_node := [(?n, [(''m'', sample_entry 2)])]\<rparr>"
  let ?ts = "\<lambda>_. Some (new_tunnel 990 0 ?n None)"
  have a: "adverts (mc_by_node ?c) = [?a]"
    by (simp add: adverts_def)
  have load: "load_of new_tracker = (\<lambda>_. (0, 0))"
    by (simp add: load_of_def new_tracker_def fun_eq_iff)
  have status: "own_status 1000 40 ?ts ?a = ''online''"
    using tunnel_status_by_age [of 40 1000 990]
    by (simp add: own_status_def live_status_def new_tunnel_def i64_range_def)
  have seven: "parse_u32 ''7'' = Some 7"
    by (simp add: parse_u32_def parse_uint_def digit_val_def)
  have pass: "passes ?f (offering_under_load sample_enc (\<lambda>_. (0, 0)) ''online'' ?a)"
    by (simp add: passes_def from_query_map_def offering_under_load_def build_offering_with_load_def
        Let_def split_csv_def feature_params_def insert_feature_param_def strip_prefix_def seven
        sample_entry_load slots_left_def sat_sub_def)
  show ?thesis
    using query_providers_exact [OF sample_hex_laws, of new_tracker ?c 1000 ?f 40 ?ts] a pass
    by (auto simp: status load slots_wf_new_tracker intro: prod.exhaust_sel)
qed

lemma insert_feature_param_lookup:
  "map_of (insert_feature_param out kv) key =
    (if key \<noteq> [] \<and> fst kv = ''feature_'' @ key then Some (snd kv) else map_of out key)"
  by (auto simp: insert_feature_param_def update_conv' strip_prefix_Some_iff strip_prefix_append
      simp del: append_Cons split: option.split)

text \<open>A query parameter \<open>feature_<key>\<close> becomes the requirement on feature \<open>key\<close>, whatever the order.\<close>

lemma feature_params_lookup:
  assumes "distinct (map fst query)"
  shows "map_of (feature_params query) key =
    (if key = [] then None else map_of query (''feature_'' @ key))"
proof -
  have "map_of (foldl insert_feature_param out query) key =
      (if key = [] then map_of out key else
        case map_of query (''feature_'' @ key) of Some v \<Rightarrow> Some v | None \<Rightarrow> map_of out key)" for out
    using assms
  proof (induction query arbitrary: out)
    case (Cons kv query)
    then show ?case
      by (cases "fst kv = ''feature_'' @ key")
        (auto simp del: append_Cons append.simps simp: insert_feature_param_lookup split: option.split
          dest!: map_of_SomeD, force)
  qed simp
  from this [of "[]"] show ?thesis
    by (simp add: feature_params_def split: option.split)
qed

end
