(* ===== verification/Router_State.thy ===== *)
theory Router_State
  imports Catalog_Query
begin

text \<open>
  The shared state of the router (\<open>RouterState\<close> of \<open>src/state.rs\<close>) and the registry of tunnels
  (\<open>src/tunnel/registry.rs\<close>). A tunnel is shared by reference: \<open>rs_store\<close> is the store of tunnels
  and the registry maps a node to an index into it, so a connection that was replaced still works
  on its own tunnel. \<open>rs_connected\<close> is the connection counter of \<open>src/metrics.rs\<close>.
\<close>

record router_state =
  rs_store :: "node_tunnel list"
  rs_tunnels :: "(node_id \<times> nat) list"
  rs_capacity :: cap_state
  rs_models :: models_catalog
  rs_telemetry :: telemetry_bus
  rs_connected :: nat

definition new_router_state :: router_state where
  "new_router_state =
     \<lparr>rs_store = [], rs_tunnels = [], rs_capacity = new_tracker, rs_models = new_catalog,
      rs_telemetry = new_bus, rs_connected = 0\<rparr>"

section \<open>The tunnel registry\<close>

definition registry_get :: "router_state \<Rightarrow> node_id \<Rightarrow> nat option" where
  "registry_get rs n = map_of (rs_tunnels rs) n"

definition registry_insert :: "node_id \<Rightarrow> nat \<Rightarrow> router_state \<Rightarrow> router_state" where
  "registry_insert n i rs = rs\<lparr>rs_tunnels := AList.update n i (rs_tunnels rs)\<rparr>"

definition registry_remove :: "node_id \<Rightarrow> router_state \<Rightarrow> router_state" where
  "registry_remove n rs = rs\<lparr>rs_tunnels := AList.delete n (rs_tunnels rs)\<rparr>"

definition registry_len :: "router_state \<Rightarrow> nat" where
  "registry_len rs = length (rs_tunnels rs)"

definition registry_is_empty :: "router_state \<Rightarrow> bool" where
  "registry_is_empty rs \<longleftrightarrow> rs_tunnels rs = []"

definition registry_iter :: "router_state \<Rightarrow> (node_id \<times> nat) list" where
  "registry_iter rs = map (\<lambda>e. (fst e, snd e)) (rs_tunnels rs)"

definition tunnel_count :: "router_state \<Rightarrow> nat" where
  "tunnel_count rs = registry_len rs"

lemma registry_iter_tunnels [simp]: "registry_iter rs = rs_tunnels rs"
  by (simp add: registry_iter_def)

declare registry_len_def [simp]

interpretation registry: keyed_table registry_get registry_insert registry_remove
  by unfold_locales
    (simp_all add: registry_get_def registry_insert_def registry_remove_def update_conv' delete_conv')

definition tunnel_at :: "router_state \<Rightarrow> nat \<Rightarrow> node_tunnel" where
  "tunnel_at rs i = rs_store rs ! i"

definition tunnel_of :: "router_state \<Rightarrow> node_id \<Rightarrow> node_tunnel option" where
  "tunnel_of rs n = map_option (tunnel_at rs) (registry_get rs n)"

definition update_tunnel :: "nat \<Rightarrow> (node_tunnel \<Rightarrow> node_tunnel) \<Rightarrow> router_state \<Rightarrow> router_state" where
  "update_tunnel i f rs = rs\<lparr>rs_store := (rs_store rs)[i := f (rs_store rs ! i)]\<rparr>"

definition emit_status :: "(bytes \<Rightarrow> string) \<Rightarrow> node_id \<Rightarrow> string option \<Rightarrow> string \<Rightarrow> nat \<Rightarrow> int \<Rightarrow> router_state \<Rightarrow> router_state" where
  "emit_status enc n moniker status in_flight models rs =
     rs\<lparr>rs_telemetry := emit_node_status enc n moniker status in_flight models (rs_telemetry rs)\<rparr>"

section \<open>Invariant\<close>

definition registry_wf :: "router_state \<Rightarrow> bool" where
  "registry_wf rs \<longleftrightarrow> distinct (map fst (rs_tunnels rs)) \<and>
     (\<forall>n i. registry_get rs n = Some i \<longrightarrow> i < length (rs_store rs) \<and> tn_node_id (rs_store rs ! i) = n) \<and>
     list_all tunnel_wf (rs_store rs) \<and> queue_inv (rs_capacity rs)"

text \<open>Iteration meets every registered tunnel once.\<close>

lemma registry_iter_entries:
  assumes "registry_wf rs"
  shows "(n, i) \<in> set (registry_iter rs) \<longleftrightarrow> registry_get rs n = Some i"
    and "distinct (map fst (registry_iter rs))"
    and "registry_is_empty rs \<longleftrightarrow> registry_len rs = 0" "registry_len rs = length (registry_iter rs)"
  using assms by (simp_all add: registry_wf_def registry_get_def registry_is_empty_def)

lemma queue_inv_slots_wf: "queue_inv s \<Longrightarrow> slots_wf s"
  by (simp add: queue_inv_def slots_wf_def)

lemma registry_get_frame [simp, frame_simps]:
  "registry_get (rs\<lparr>rs_store := st\<rparr>) n = registry_get rs n"
  "registry_get (rs\<lparr>rs_telemetry := te\<rparr>) n = registry_get rs n"
  "registry_get (rs\<lparr>rs_models := mo\<rparr>) n = registry_get rs n"
  "registry_get (rs\<lparr>rs_capacity := ca\<rparr>) n = registry_get rs n"
  "registry_get (rs\<lparr>rs_connected := co\<rparr>) n = registry_get rs n"
  "registry_get (update_tunnel i f rs) n = registry_get rs n"
  "registry_get (emit_status enc m mon s x y rs) n = registry_get rs n"
  by (simp_all add: registry_get_def update_tunnel_def emit_status_def)

lemma registry_wf_start: "registry_wf new_router_state"
  by (simp add: registry_wf_def new_router_state_def registry_get_def queueing.inv_start)

lemma registry_wf_frame [simp, frame_simps]:
  "registry_wf (rs\<lparr>rs_telemetry := te\<rparr>) = registry_wf rs"
  "registry_wf (rs\<lparr>rs_models := mo\<rparr>) = registry_wf rs"
  "registry_wf (rs\<lparr>rs_connected := co\<rparr>) = registry_wf rs"
  "registry_wf (emit_status enc m mon s x y rs) = registry_wf rs"
  by (simp_all add: registry_wf_def emit_status_def)

lemma registry_wf_remove: "registry_wf rs \<Longrightarrow> registry_wf (registry_remove n rs)"
  by (auto simp: registry_wf_def registry.table_laws)
    (simp_all add: registry_remove_def AList.delete_eq distinct_map_filter)

lemma registry_wf_update_tunnel:
  assumes "registry_wf rs" "\<And>t. tunnel_wf t \<Longrightarrow> tunnel_wf (f t)" "\<And>t. tn_node_id (f t) = tn_node_id t"
  shows "registry_wf (update_tunnel i f rs)"
proof -
  have "list_all tunnel_wf ((rs_store rs)[i := f (rs_store rs ! i)])"
    using assms(1,2) by (cases "i < length (rs_store rs)")
      (auto simp: registry_wf_def list_all_length nth_list_update list_update_beyond)
  moreover have "tn_node_id ((rs_store rs)[i := f (rs_store rs ! i)] ! j) = tn_node_id (rs_store rs ! j)"
    if "j < length (rs_store rs)" for j
    using that assms(3) by (cases "i = j") simp_all
  moreover have "rs_tunnels (update_tunnel i f rs) = rs_tunnels rs"
    "rs_capacity (update_tunnel i f rs) = rs_capacity rs"
    "rs_store (update_tunnel i f rs) = (rs_store rs)[i := f (rs_store rs ! i)]"
    by (simp_all add: update_tunnel_def)
  ultimately show ?thesis
    using assms(1) unfolding registry_wf_def by simp
qed

lemma registry_wf_new:
  assumes "registry_wf rs" "tunnel_wf t" "tn_node_id t = n"
  shows "registry_wf (registry_insert n (length (rs_store rs)) (rs\<lparr>rs_store := rs_store rs @ [t]\<rparr>))"
proof -
  have "\<forall>m i. registry_get rs m = Some i \<longrightarrow> i < Suc (length (rs_store rs)) \<and>
      tn_node_id ((rs_store rs @ [t]) ! i) = m"
    using assms(1) by (auto simp: registry_wf_def nth_append less_Suc_eq)
  then show ?thesis
    using assms unfolding registry_wf_def
    by (simp add: registry.table_laws) (simp add: registry_insert_def distinct_update)
qed

end
