(* ===== verification/Models_Refresh.thy ===== *)
theory Models_Refresh
  imports Router_State
begin

text \<open>
  Fetching a node's models over its tunnel and refreshing the catalog
  (\<open>fetch_models_from_tunnel\<close>, \<open>parse_model_entries\<close>, \<open>refresh_tunnel\<close> and \<open>maybe_refresh_on_pong\<close>
  of \<open>src/consumer/models.rs\<close>). Parsing JSON text is the parameter \<open>parse\<close>. The frames that the
  request's receiver yields before its channel closes are a list; \<open>timed_out\<close> says that after
  them the timeout came first.
\<close>

fun collect_models :: "string \<Rightarrow> inbound_frame list \<Rightarrow> bool \<Rightarrow> string + string" where
  "collect_models body [] timed_out =
     (if timed_out then Inl ''models request timed out'' else Inr body)"
| "collect_models body (Response status h # fs) timed_out =
     (if status \<noteq> 200 then Inl (''models returned status '' @ show_nat (unat status))
      else collect_models body fs timed_out)"
| "collect_models body (Chunk d # fs) timed_out = collect_models (body @ d) fs timed_out"
| "collect_models body (End status # fs) timed_out =
     (if status = 200 then Inr body else Inl (''models end status '' @ show_nat (unat status)))"
| "collect_models body (Error code msg # fs) timed_out = Inl (''models error: '' @ msg)"
| "collect_models body (ActivateResponse k # fs) timed_out = collect_models body fs timed_out"

definition insert_entry :: "model_map \<Rightarrow> json \<Rightarrow> model_map" where
  "insert_entry out item =
     (case Option.bind (json_get ''id'' item) as_str of
        Some m \<Rightarrow> AList.update m item out
      | None \<Rightarrow> out)"

definition parse_model_entries :: "(string \<Rightarrow> string + json) \<Rightarrow> string \<Rightarrow> string + model_map" where
  "parse_model_entries parse body =
     (case parse body of
        Inl e \<Rightarrow> Inl e
      | Inr v \<Rightarrow>
          (case Option.bind (json_get ''data'' v) as_array of
             None \<Rightarrow> Inl ''invalid models response''
           | Some items \<Rightarrow> Inr (foldl insert_entry [] items)))"

definition fetch_models :: "(string \<Rightarrow> string + json) \<Rightarrow> inbound_frame list \<Rightarrow> bool \<Rightarrow> string + model_map" where
  "fetch_models parse fs timed_out =
     (case collect_models [] fs timed_out of Inl e \<Rightarrow> Inl e | Inr body \<Rightarrow> parse_model_entries parse body)"

text \<open>The request is forwarded first; \<open>fetched\<close> is what the reading of its frames gave.\<close>

definition refresh_tunnel ::
  "(bytes \<Rightarrow> string) \<Rightarrow> int \<Rightarrow> nat \<Rightarrow> string + model_map \<Rightarrow> router_state \<Rightarrow> router_state \<times> bool" where
  "refresh_tunnel enc now i fetched rs =
     (case fetched of
        Inl e \<Rightarrow> (rs, False)
      | Inr models \<Rightarrow>
          (let rs1 = update_tunnel i (\<lambda>t. t\<lparr>tn_model_count := int (length models)\<rparr>) rs;
               (c, panicked) = upsert_node enc now (tn_node_id (tunnel_at rs i)) models (rs_models rs1) in
           (rs1\<lparr>rs_models := c\<rparr>, panicked)))"

text \<open>Every registered tunnel in turn, with what was fetched over each; a panic ends the task.\<close>

fun refresh_tunnels ::
  "(bytes \<Rightarrow> string) \<Rightarrow> int \<Rightarrow> (nat \<Rightarrow> string + model_map) \<Rightarrow> (node_id \<times> nat) list \<Rightarrow> router_state \<Rightarrow>
   router_state \<times> bool" where
  "refresh_tunnels enc now fetched [] rs = (rs, False)"
| "refresh_tunnels enc now fetched ((n, i) # ts) rs =
     (let (rs', panicked) = refresh_tunnel enc now i (fetched i) rs in
      if panicked then (rs', True) else refresh_tunnels enc now fetched ts rs')"

definition refresh_all_tunnels ::
  "(bytes \<Rightarrow> string) \<Rightarrow> int \<Rightarrow> (nat \<Rightarrow> string + model_map) \<Rightarrow> router_state \<Rightarrow> router_state \<times> bool" where
  "refresh_all_tunnels enc now fetched rs = refresh_tunnels enc now fetched (registry_iter rs) rs"

text \<open>Whether a pong starts a refresh, and the tunnel with the time of the last one.\<close>

definition maybe_refresh_on_pong :: "int \<Rightarrow> u64 \<Rightarrow> node_tunnel \<Rightarrow> bool \<times> node_tunnel" where
  "maybe_refresh_on_pong now min_interval t =
     (let last = tn_last_models_refresh_at t in
      if 0 < last \<and> wrap_i64 (now - last) < as_i64 min_interval then (False, t)
      else (True, t\<lparr>tn_last_models_refresh_at := now\<rparr>))"

section \<open>What a fetch returns\<close>

fun body_of :: "inbound_frame list \<Rightarrow> string" where
  "body_of [] = []"
| "body_of (Chunk d # fs) = d @ body_of fs"
| "body_of (f # fs) = body_of fs"

definition quiet :: "inbound_frame \<Rightarrow> bool" where
  "quiet f \<longleftrightarrow> (case f of Response st h \<Rightarrow> st = 200 | Chunk d \<Rightarrow> True | ActivateResponse k \<Rightarrow> True | _ \<Rightarrow> False)"

lemma collect_models_quiet:
  "list_all quiet fs \<Longrightarrow> collect_models body (fs @ gs) b = collect_models (body @ body_of fs) gs b"
proof (induction fs arbitrary: body)
  case (Cons f fs)
  then show ?case by (cases f) (simp_all add: quiet_def)
qed simp

definition object_entries :: "model_map \<Rightarrow> bool" where
  "object_entries ms \<longleftrightarrow> list_all (\<lambda>a. as_object (snd a) \<noteq> None) ms"

lemma object_entries_insert: "object_entries out \<Longrightarrow> object_entries (insert_entry out item)"
proof -
  assume out: "object_entries out"
  have upd: "object_entries (AList.update m (JObj kvs) out)" for m kvs
    using out by (induction out) (auto simp: object_entries_def)
  show ?thesis
    using out upd by (cases item) (auto simp: insert_entry_def split: option.split)
qed

text \<open>Every entry of a parsed answer is an object, so the catalog never merges anything else.\<close>

lemma parse_model_entries_objects:
  assumes "parse_model_entries parse body = Inr ms"
  shows "object_entries ms"
proof -
  have "object_entries out \<Longrightarrow> object_entries (foldl insert_entry out items)" for out items
    by (induction items arbitrary: out) (simp_all add: object_entries_insert)
  from this [of "[]"] show ?thesis
    using assms by (auto simp: parse_model_entries_def object_entries_def split: sum.splits option.splits)
qed

text \<open>The chunks of a well-behaved answer are put together in order and parsed when the final
  frame reports status 200; what follows is ignored. A body that was never ended is parsed all the
  same when the channel closes, and refused only when the timeout comes first.\<close>

theorem fetch_models_reads_body:
  assumes "list_all quiet fs"
  shows "fetch_models parse (fs @ End 200 # gs) b = parse_model_entries parse (body_of fs)
    \<and> fetch_models parse fs False = parse_model_entries parse (body_of fs)
    \<and> fetch_models parse fs True = Inl ''models request timed out''"
  using collect_models_quiet [OF assms, of "[]"] collect_models_quiet [OF assms, of "[]" "[]"]
  by (simp add: fetch_models_def)

theorem fetch_models_reads_body_witness:
  "fetch_models (\<lambda>s. Inl s) [Response 200 JNull, Chunk ''ab'', Chunk ''c'', End 200, Chunk ''d''] False = Inl ''abc''"
  using fetch_models_reads_body [of "[Response 200 JNull, Chunk ''ab'', Chunk ''c'']" "\<lambda>s. Inl s" "[Chunk ''d'']"]
  by (simp add: quiet_def parse_model_entries_def)

section \<open>The refresh throttle\<close>

text \<open>The times at which a sequence of pongs starts a refresh.\<close>

fun refresh_times :: "u64 \<Rightarrow> node_tunnel \<Rightarrow> int list \<Rightarrow> int list" where
  "refresh_times mi t [] = []"
| "refresh_times mi t (now # nows) =
     (let (go, t') = maybe_refresh_on_pong now mi t in
      (if go then now # refresh_times mi t' nows else refresh_times mi t' nows))"

lemma refresh_times_after:
  assumes "\<forall>x \<in> set nows. 0 < x \<and> x < 2 ^ 63" "0 \<le> tn_last_models_refresh_at t"
    "tn_last_models_refresh_at t < 2 ^ 63" "unat mi < 2 ^ 63"
  shows "sorted_wrt (\<lambda>x y. x + int (unat mi) \<le> y) (refresh_times mi t nows) \<and>
    (\<forall>x \<in> set (refresh_times mi t nows). 0 < tn_last_models_refresh_at t \<longrightarrow>
      tn_last_models_refresh_at t + int (unat mi) \<le> x)"
  using assms
proof (induction nows arbitrary: t)
  case (Cons now nows)
  let ?last = "tn_last_models_refresh_at t"
  have [simp]: "as_i64 mi = int (unat mi)"
    using Cons.prems(4) by (rule as_i64_small)
  have range: "i64_range (now - ?last)"
    using Cons.prems by (simp add: i64_range_def)
  show ?case
  proof (cases "0 < ?last \<and> now - ?last < int (unat mi)")
    case True
    then show ?thesis
      using Cons.IH [of t] Cons.prems range by (simp add: maybe_refresh_on_pong_def Let_def)
  next
    case False
    let ?t = "t\<lparr>tn_last_models_refresh_at := now\<rparr>"
    have step: "refresh_times mi t (now # nows) = now # refresh_times mi ?t nows"
      using False range by (auto simp: maybe_refresh_on_pong_def Let_def)
    have later: "sorted_wrt (\<lambda>x y. x + int (unat mi) \<le> y) (refresh_times mi ?t nows)"
      "\<forall>x \<in> set (refresh_times mi ?t nows). now + int (unat mi) \<le> x"
      using Cons.IH [of ?t] Cons.prems by simp_all
    have "?last + int (unat mi) \<le> x" if "0 < ?last" "x \<in> set (now # refresh_times mi ?t nows)" for x
    proof -
      have "?last + int (unat mi) \<le> now"
        using False that(1) by linarith
      moreover have "now \<le> x"
      proof (cases "x = now")
        case False
        with that(2) have "now + int (unat mi) \<le> x"
          using later(2) by simp
        then show ?thesis by linarith
      qed simp
      ultimately show ?thesis by linarith
    qed
    with later show ?thesis
      unfolding step by simp
  qed
qed simp

text \<open>However the pongs come, two refreshes of one tunnel are never started less than the
  configured interval apart.\<close>

theorem refreshes_are_throttled:
  assumes "\<forall>x \<in> set nows. 0 < x \<and> x < 2 ^ 63" "unat mi < 2 ^ 63" "tn_last_models_refresh_at t = 0"
  shows "sorted_wrt (\<lambda>x y. x + int (unat mi) \<le> y) (refresh_times mi t nows)"
  using refresh_times_after [of nows t mi] assms by simp

theorem refreshes_are_throttled_witness:
  "sorted_wrt (\<lambda>x y. x + 60 \<le> y) (refresh_times 60 (new_tunnel 100 0 [] None) [130, 160, 190, 220])"
  using refreshes_are_throttled [of "[130, 160, 190, 220]" 60 "new_tunnel 100 0 [] None"]
  by (simp add: new_tunnel_def)

end
