(* ===== verification/Tunnel_Connect.thy ===== *)
theory Tunnel_Connect
  imports Models_Refresh
begin

text \<open>
  The handshake of a provider node (\<open>src/tunnel/connect.rs\<close>). What the outside gives is gathered in
  two records: \<open>externals\<close> holds the packages (hex codec, Keccak-256, Ed25519, parsing of frames)
  and \<open>connect_env\<close> the answers of one connection (chain, socket, clock, random nonce).
\<close>

record 'vk externals =
  x_enc :: "bytes \<Rightarrow> string"
  x_dec :: "string \<Rightarrow> string + bytes"
  x_keccak :: "bytes \<Rightarrow> bytes"
  x_vk_of :: "bytes \<Rightarrow> string + 'vk"
  x_vk_verify :: "'vk \<Rightarrow> bytes \<Rightarrow> bytes \<Rightarrow> string + unit"
  x_parse_frame :: "string \<Rightarrow> string + node_frame"

datatype ws_message =
    WsText string
  | WsPing bytes
  | WsClose
  | WsFailure
  | WsOther

record connect_env =
  ce_latest_block :: "string + u64"
  ce_nonce :: bytes
  ce_challenge_sent :: bool
  ce_messages :: "ws_message list"
  ce_registered :: "node_id \<Rightarrow> string + bool"
  ce_ready_sent :: bool
  ce_now :: int
  ce_instant :: int

section \<open>Checks of the handshake\<close>

definition max_moniker_len :: nat where
  "max_moniker_len = 128"

definition normalize_tunnel_moniker :: "string option \<Rightarrow> string + string option" where
  "normalize_tunnel_moniker raw =
     (case raw of
        None \<Rightarrow> Inr None
      | Some s \<Rightarrow>
          (let m = trim s in
           if m = [] then Inr None
           else if max_moniker_len < length m then Inl ''moniker exceeds 128 characters''
           else Inr (Some m)))"

definition decode_pubkey :: "(string \<Rightarrow> string + bytes) \<Rightarrow> string \<Rightarrow> string + bytes" where
  "decode_pubkey dec hex_pk =
     (case dec (case strip_prefix ''0x'' (trim hex_pk) of Some r \<Rightarrow> r | None \<Rightarrow> trim hex_pk) of
        Inl e \<Rightarrow> Inl e
      | Inr bs \<Rightarrow> if length bs \<noteq> 32 then Inl ''ed25519 pubkey must be 32 bytes'' else Inr bs)"

text \<open>The stream of messages ends when the socket does.\<close>

fun recv_text :: "ws_message list \<Rightarrow> string option" where
  "recv_text [] = None"
| "recv_text (WsText t # ms) = Some t"
| "recv_text (WsPing p # ms) = recv_text ms"
| "recv_text (WsClose # ms) = None"
| "recv_text (WsFailure # ms) = None"
| "recv_text (WsOther # ms) = recv_text ms"

definition authenticate ::
  "'vk externals \<Rightarrow> bytes \<Rightarrow> u64 \<Rightarrow> string \<Rightarrow> string + node_id \<times> string option" where
  "authenticate X nonce block auth_text =
     (case x_parse_frame X auth_text of
        Inr (Auth node_id_str signature ed25519_pubkey moniker) \<Rightarrow>
          (case parse_node_id_hex (x_dec X) node_id_str of
             Inl e \<Rightarrow> Inl e
           | Inr n \<Rightarrow>
               (case ed25519_pubkey of
                  None \<Rightarrow> Inl ''auth frame missing ed25519_pubkey''
                | Some hex_pk \<Rightarrow>
                    (case decode_pubkey (x_dec X) hex_pk of
                       Inl e \<Rightarrow> Inl e
                     | Inr pk \<Rightarrow>
                         (case verify_connect_signature (x_dec X) (x_vk_of X) (x_vk_verify X)
                                 (connect_challenge_payload (x_keccak X) nonce block) signature pk of
                            Inl e \<Rightarrow> Inl e
                          | Inr u \<Rightarrow>
                              (case normalize_tunnel_moniker moniker of
                                 Inl e \<Rightarrow> Inl e
                               | Inr m \<Rightarrow> Inr (n, m))))))
      | _ \<Rightarrow> Inl ''expected auth frame'')"

definition check_registered :: "bool \<Rightarrow> (node_id \<Rightarrow> string + bool) \<Rightarrow> node_id \<Rightarrow> string + unit" where
  "check_registered chain_enabled registered n =
     (if chain_enabled then
        (case registered n of
           Inr True \<Rightarrow> Inr ()
         | Inr False \<Rightarrow> Inl ''node not commercially registered on-chain''
         | Inl e \<Rightarrow> Inl e)
      else Inr ())"

definition handshake ::
  "'vk externals \<Rightarrow> bool \<Rightarrow> connect_env \<Rightarrow> string + node_id \<times> string option" where
  "handshake X chain_enabled E =
     (case ce_latest_block E of
        Inl e \<Rightarrow> Inl e
      | Inr block \<Rightarrow>
          if \<not> ce_challenge_sent E then Inl ''ws send failed''
          else
            (case recv_text (ce_messages E) of
               None \<Rightarrow> Inl ''connection closed''
             | Some auth_text \<Rightarrow>
                 (case authenticate X (ce_nonce E) block auth_text of
                    Inl e \<Rightarrow> Inl e
                  | Inr (n, m) \<Rightarrow>
                      (case check_registered chain_enabled (ce_registered E) n of
                         Inl e \<Rightarrow> Inl e
                       | Inr u \<Rightarrow> Inr (n, m)))))"

section \<open>Registering the tunnel\<close>

definition retire_tunnel :: "node_tunnel \<Rightarrow> node_tunnel" where
  "retire_tunnel t = fail_all_pending (signal_shutdown t)"

definition replace_old :: "node_id \<Rightarrow> router_state \<Rightarrow> router_state" where
  "replace_old n rs =
     (case registry_get rs n of
        None \<Rightarrow> rs
      | Some i \<Rightarrow> update_tunnel i retire_tunnel (registry_remove n rs))"

definition open_tunnel :: "connect_env \<Rightarrow> node_id \<Rightarrow> string option \<Rightarrow> router_state \<Rightarrow> router_state" where
  "open_tunnel E n m rs =
     registry_insert n (length (rs_store rs))
       (rs\<lparr>rs_store := rs_store rs @ [new_tunnel (ce_now E) (ce_instant E) n m]\<rparr>)"

text \<open>The result is the index of the tunnel that goes on to its lifecycle, if one does; the models
  refresh that is spawned then is a step of its own (\<open>refresh_tunnel\<close>).\<close>

definition handle_node_connect ::
  "'vk externals \<Rightarrow> bool \<Rightarrow> connect_env \<Rightarrow> router_state \<Rightarrow> (string + nat) \<times> router_state" where
  "handle_node_connect X chain_enabled E rs =
     (case handshake X chain_enabled E of
        Inl e \<Rightarrow> (Inl e, rs)
      | Inr (n, m) \<Rightarrow>
          (let rs1 = replace_old n rs;
               i = length (rs_store rs1);
               rs2 = open_tunnel E n m rs1 in
           if \<not> ce_ready_sent E then (Inl ''ws send failed'', registry_remove n rs2)
           else
             (let t = tunnel_at rs2 i in
              (Inr i, emit_status (x_enc X) n (tn_moniker t) ''online'' (in_flight_count t)
                 (tn_model_count t) (rs2\<lparr>rs_connected := rs_connected rs2 + 1\<rparr>)))))"

section \<open>Who gets in\<close>

lemma check_registered_ok [simp]:
  "check_registered chain registered n = Inr u \<longleftrightarrow> (chain \<longrightarrow> registered n = Inr True)"
  by (auto simp: check_registered_def split: sum.splits bool.splits)

lemma authenticate_ok:
  "authenticate X nonce block s = Inr (n, m) \<longleftrightarrow>
    (\<exists>nid sig hex_pk mon pk. x_parse_frame X s = Inr (Auth nid sig (Some hex_pk) mon) \<and>
      parse_node_id_hex (x_dec X) nid = Inr n \<and> decode_pubkey (x_dec X) hex_pk = Inr pk \<and>
      verify_connect_signature (x_dec X) (x_vk_of X) (x_vk_verify X)
        (connect_challenge_payload (x_keccak X) nonce block) sig pk = Inr () \<and>
      normalize_tunnel_moniker mon = Inr m)"
  by (auto simp: authenticate_def split: sum.splits node_frame.splits option.splits)


lemma hex_text:
  assumes "hex_laws enc dec"
  shows "trim (enc bs) = enc bs" "trim_start_matches ''0x'' (enc bs) = enc bs"
    "length bs = 32 \<Longrightarrow> decode_pubkey dec (enc bs) = Inr bs"
    "length bs = 32 \<Longrightarrow> parse_node_id_hex dec (node_id_hex enc bs) = Inr bs"
proof -
  note digits = hex_lawsD(2) [OF assms, of bs]
  show t: "trim (enc bs) = enc bs"
    using digits hex_digit_graph by (intro trim_graph) (simp add: list_all_iff)
  have "first_strip [''0x''] (enc bs) = None"
    using hex_no_prefix [OF digits] by (simp add: strip_prefix_def split: if_splits)
  then show "trim_start_matches ''0x'' (enc bs) = enc bs"
    by (simp add: trim_start_matches_def trim_with_id)
  show "length bs = 32 \<Longrightarrow> decode_pubkey dec (enc bs) = Inr bs"
    by (simp add: decode_pubkey_def t hex_no_prefix [OF digits] hex_lawsD(1) [OF assms])
  have "trim (node_id_hex enc bs) = node_id_hex enc bs"
    by (rule trim_graph [OF node_id_hex_graph [OF assms]])
  moreover have "strip_prefix ''0x'' (node_id_hex enc bs) = Some (enc bs)"
    by (simp only: node_id_hex_def strip_prefix_append)
  ultimately show "length bs = 32 \<Longrightarrow> parse_node_id_hex dec (node_id_hex enc bs) = Inr bs"
    by (simp add: parse_node_id_hex_def hex_lawsD(1) [OF assms])
qed

text \<open>Packages that accept every signature, and a connection in which node \<open>n\<close> answers well.\<close>

definition sample_externals :: "unit externals" where
  "sample_externals =
     \<lparr>x_enc = sample_enc, x_dec = sample_dec, x_keccak = id, x_vk_of = (\<lambda>_. Inr ()),
      x_vk_verify = (\<lambda>_ _ _. Inr ()),
      x_parse_frame =
        (\<lambda>s. Inr (Auth s (sample_enc (replicate 64 1)) (Some (sample_enc (replicate 32 2))) None))\<rparr>"

definition sample_env :: "node_id \<Rightarrow> connect_env" where
  "sample_env n =
     \<lparr>ce_latest_block = Inr 9, ce_nonce = replicate 32 3, ce_challenge_sent = True,
      ce_messages = [WsPing [], WsText (node_id_hex sample_enc n)],
      ce_registered = (\<lambda>_. Inr True), ce_ready_sent = True, ce_now = 1000, ce_instant = 0\<rparr>"

lemma sample_authenticate:
  assumes "length n = 32"
  shows "authenticate sample_externals nonce block (node_id_hex sample_enc n) = Inr (n, None)"
  using assms
  by (simp add: authenticate_ok sample_externals_def verify_connect_signature_ok
      hex_text [OF sample_hex_laws] sample_dec_enc normalize_tunnel_moniker_def)

lemma sample_handshake: "length n = 32 \<Longrightarrow> handshake sample_externals True (sample_env n) = Inr (n, None)"
  by (simp add: handshake_def sample_env_def sample_authenticate check_registered_def)


lemma sample_connect:
  "length n = 32 \<Longrightarrow>
    fst (handle_node_connect sample_externals True (sample_env n) rs) = Inr (length (rs_store (replace_old n rs)))"
  by (simp add: handle_node_connect_def sample_handshake Let_def) (simp add: sample_env_def)

text \<open>Nothing ties the claimed node id to the key: the answer that authenticates one node id
  authenticates every other 32-byte id with the same key, signature and moniker.\<close>

theorem node_id_not_bound_to_key:
  assumes "authenticate X nonce block s = Inr (n, m)"
    and "x_parse_frame X s = Inr (Auth nid sig pk mon)"
    and "x_parse_frame X s' = Inr (Auth nid' sig pk mon)"
    and "parse_node_id_hex (x_dec X) nid' = Inr n'"
  shows "authenticate X nonce block s' = Inr (n', m)"
  using assms by (auto simp: authenticate_ok)

theorem node_id_not_bound_to_key_witness:
  "authenticate sample_externals (replicate 32 3) 9 (node_id_hex sample_enc (replicate 32 6)) =
    Inr (replicate 32 6, None)"
  by (rule node_id_not_bound_to_key [OF sample_authenticate [of "replicate 32 5"], where n' = "replicate 32 6"])
    (simp_all add: sample_externals_def, rule hex_text(4) [OF sample_hex_laws], simp)

lemma normalize_tunnel_moniker_ok:
  assumes "normalize_tunnel_moniker raw = Inr (Some m)"
  shows "m \<noteq> []" "trim m = m" "length m \<le> max_moniker_len"
  using assms by (auto simp: normalize_tunnel_moniker_def Let_def split: option.splits if_splits)

section \<open>What a connection does to the registry\<close>

lemma send_all_fields:
  "tn_node_id (send_all f ps t) = tn_node_id t" "tn_shutdown (send_all f ps t) = tn_shutdown t"
proof -
  have "tn_node_id (send_all f ps t) = tn_node_id t \<and> tn_shutdown (send_all f ps t) = tn_shutdown t"
  proof (induction ps arbitrary: t)
    case (Cons p ps)
    then show ?case
      by (cases p) (simp add: send_all_def try_send_def)
  qed (simp add: send_all_def)
  then show "tn_node_id (send_all f ps t) = tn_node_id t" "tn_shutdown (send_all f ps t) = tn_shutdown t"
    by simp_all
qed

lemma fail_all_fields [simp]:
  "tn_node_id (fail_all_pending t) = tn_node_id t" "tn_shutdown (fail_all_pending t) = tn_shutdown t"
  by (simp_all add: fail_all_pending_alt send_all_fields)

lemma retire_tunnel_facts:
  "tn_pending (retire_tunnel t) = []" "tn_node_id (retire_tunnel t) = tn_node_id t"
  "tn_shutdown (retire_tunnel t)" "tunnel_wf t \<Longrightarrow> tunnel_wf (retire_tunnel t)"
proof -
  show "tn_pending (retire_tunnel t) = []" "tn_node_id (retire_tunnel t) = tn_node_id t"
    "tn_shutdown (retire_tunnel t)"
    by (simp_all add: retire_tunnel_def signal_shutdown_def)
  show "tunnel_wf t \<Longrightarrow> tunnel_wf (retire_tunnel t)"
    unfolding retire_tunnel_def by (rule tunnel_wf_fail) (simp add: tunnel_wf_def signal_shutdown_def)
qed

lemma registry_wf_replace_old: "registry_wf rs \<Longrightarrow> registry_wf (replace_old n rs)"
  by (auto simp: replace_old_def retire_tunnel_facts registry_wf_remove
      intro!: registry_wf_update_tunnel split: option.split)

lemma registry_wf_open_tunnel: "registry_wf rs \<Longrightarrow> registry_wf (open_tunnel E n m rs)"
  unfolding open_tunnel_def
  by (rule registry_wf_new) (simp_all add: tunnel.inv_start, simp add: new_tunnel_def)

lemma registry_wf_connect:
  "registry_wf rs \<Longrightarrow> registry_wf (snd (handle_node_connect X chain E rs))"
  by (auto simp: handle_node_connect_def Let_def registry_wf_remove registry_wf_open_tunnel
      registry_wf_replace_old split: sum.split)

lemma rs_store_replace_old: "length (rs_store (replace_old n rs)) = length (rs_store rs)"
  by (simp add: replace_old_def update_tunnel_def registry_remove_def split: option.split)

lemma connect_effect:
  assumes wf: "registry_wf rs" and run: "handle_node_connect X chain E rs = (Inr i, rs')"
  shows "\<exists>n m. handshake X chain E = Inr (n, m) \<and> registry_get rs' n = Some i \<and>
    tunnel_at rs' i = new_tunnel (ce_now E) (ce_instant E) n m \<and>
    (\<forall>n'. n' \<noteq> n \<longrightarrow> tunnel_of rs' n' = tunnel_of rs n') \<and>
    (\<forall>j. registry_get rs n = Some j \<longrightarrow>
      j \<noteq> i \<and> tunnel_at rs' j = fail_all_pending (signal_shutdown (tunnel_at rs j)))"
proof -
  from run obtain n m where hs: "handshake X chain E = Inr (n, m)"
    and i: "i = length (rs_store rs)"
    and reg: "\<And>k. registry_get rs' k = registry_get (open_tunnel E n m (replace_old n rs)) k"
    and store: "rs_store rs' = rs_store (open_tunnel E n m (replace_old n rs))"
    by (auto simp: handle_node_connect_def Let_def emit_status_def rs_store_replace_old
        registry_get_def split: sum.splits if_splits)
  have store': "rs_store rs' = rs_store (replace_old n rs) @ [new_tunnel (ce_now E) (ce_instant E) n m]"
    by (simp add: store open_tunnel_def registry_insert_def)
  have at: "tunnel_at rs' j = rs_store (replace_old n rs) ! j" if "j < length (rs_store rs)" for j
    using that by (simp add: tunnel_at_def store' nth_append rs_store_replace_old)
  have get: "registry_get rs' k = (if k = n then Some i else registry_get rs k)" for k
    by (simp add: reg open_tunnel_def registry.table_laws i rs_store_replace_old)
      (simp add: replace_old_def registry.table_laws split: option.split)
  have old: "rs_store (replace_old n rs) ! j =
      (if registry_get rs n = Some j then retire_tunnel (rs_store rs ! j) else rs_store rs ! j)"
    if "j < length (rs_store rs)" for j
    using that by (auto simp: replace_old_def update_tunnel_def registry_remove_def split: option.split)
  have bound: "registry_get rs k = Some j \<Longrightarrow> j < length (rs_store rs) \<and> tn_node_id (rs_store rs ! j) = k" for k j
    using wf by (simp add: registry_wf_def)
  have "tunnel_of rs' k = tunnel_of rs k" if "k \<noteq> n" for k
  proof (cases "registry_get rs k")
    case (Some j)
    then have "registry_get rs n \<noteq> Some j"
      using bound [of k j] bound [of n j] that by auto
    with Some bound [OF Some] that show ?thesis
      by (simp add: tunnel_of_def get at old) (simp add: tunnel_at_def)
  qed (use that in \<open>simp add: tunnel_of_def get\<close>)
  moreover have "tunnel_at rs' j = fail_all_pending (signal_shutdown (tunnel_at rs j))" "j \<noteq> i"
    if "registry_get rs n = Some j" for j
    using that bound [OF that] at [of j] old [of j] by (simp_all add: i retire_tunnel_def tunnel_at_def)
  moreover have "tunnel_at rs' i = new_tunnel (ce_now E) (ce_instant E) n m"
    by (simp add: tunnel_at_def store' nth_append rs_store_replace_old i)
  ultimately show ?thesis
    using hs get by auto
qed

text \<open>A node that completes the handshake ends up with exactly one registered tunnel, fresh and
  with nothing in flight; a tunnel it had before is told to shut down and every request on it is
  failed; other nodes keep theirs.\<close>

theorem connect_replaces_tunnel:
  assumes wf: "registry_wf rs" and run: "handle_node_connect X chain E rs = (Inr i, rs')"
  shows "\<exists>n m. handshake X chain E = Inr (n, m) \<and> registry_get rs' n = Some i \<and>
    tunnel_at rs' i = new_tunnel (ce_now E) (ce_instant E) n m \<and>
    (\<forall>n'. n' \<noteq> n \<longrightarrow> tunnel_of rs' n' = tunnel_of rs n') \<and>
    (\<forall>j. registry_get rs n = Some j \<longrightarrow>
      j \<noteq> i \<and> tunnel_at rs' j = fail_all_pending (signal_shutdown (tunnel_at rs j)))"
  using assms by (rule connect_effect)

theorem connect_replaces_tunnel_witness:
  "\<exists>i rs'. handle_node_connect sample_externals True (sample_env (replicate 32 5)) new_router_state = (Inr i, rs') \<and>
    registry_get rs' (replicate 32 5) = Some i"
proof -
  obtain i rs' where run:
    "handle_node_connect sample_externals True (sample_env (replicate 32 5)) new_router_state = (Inr i, rs')"
    using sample_connect [of "replicate 32 5" new_router_state] by (metis length_replicate prod.exhaust_sel)
  from connect_replaces_tunnel [OF registry_wf_start run] have "registry_get rs' (replicate 32 5) = Some i"
    by (auto simp: sample_handshake)
  with run show ?thesis by blast
qed

end
