(* ===== verification/Tunnel_Lifecycle.thy ===== *)
theory Tunnel_Lifecycle
  imports Tunnel_Connect
begin

text \<open>
  The life of a registered tunnel (\<open>src/tunnel/lifecycle.rs\<close>): inbound frames, the ping loop and the
  clean-up at the end, and the router as a system of connections.
\<close>

section \<open>Inbound frames\<close>

fun route_frame :: "node_frame \<Rightarrow> node_tunnel \<Rightarrow> node_tunnel" where
  "route_frame (NodeResponse rid status headers) t = route_inbound rid (Response status headers) t"
| "route_frame (NodeChunk rid data) t = route_inbound rid (Chunk data) t"
| "route_frame (NodeEnd rid status) t = route_inbound rid (End status) t"
| "route_frame (NodeError rid code message) t = route_inbound rid (Error code message) t"
| "route_frame (NodeActivateResponse rid key) t = route_inbound rid (ActivateResponse key) t"
| "route_frame _ t = t"

text \<open>\<open>now\<close> is the clock; the result also says whether a models refresh is spawned.\<close>

definition handle_pong ::
  "(bytes \<Rightarrow> string) \<Rightarrow> u64 \<Rightarrow> u64 \<Rightarrow> int \<Rightarrow> nat \<Rightarrow> router_state \<Rightarrow> router_state \<times> bool" where
  "handle_pong enc stale refresh_secs now i rs =
     (let rs1 = update_tunnel i (touch_pong now) rs;
          t = tunnel_at rs1 i;
          rs2 = emit_status enc (tn_node_id t) (tn_moniker t)
                  (tunnel_status_for_pong now (last_pong_timestamp t) stale)
                  (in_flight_count t) (tn_model_count t) rs1;
          spawn = fst (maybe_refresh_on_pong now refresh_secs t) in
      (update_tunnel i (\<lambda>t. snd (maybe_refresh_on_pong now refresh_secs t)) rs2, spawn))"

definition handle_inbound_text ::
  "'vk externals \<Rightarrow> u64 \<Rightarrow> u64 \<Rightarrow> int \<Rightarrow> nat \<Rightarrow> string \<Rightarrow> router_state \<Rightarrow> router_state \<times> bool" where
  "handle_inbound_text X stale refresh_secs now i text rs =
     (case x_parse_frame X text of
        Inl e \<Rightarrow> (rs, False)
      | Inr f \<Rightarrow>
          (case f of
             Pong \<Rightarrow> handle_pong (x_enc X) stale refresh_secs now i rs
           | Auth _ _ _ _ \<Rightarrow> (rs, False)
           | _ \<Rightarrow> (update_tunnel i (route_frame f) rs, False)))"

section \<open>The ping loop\<close>

datatype ping_outcome = PingSent | PongTimeout | WriterGone | PingPanic

text \<open>One tick. Adding the two durations panics when the sum leaves \<open>u64\<close>.\<close>

definition ping_tick :: "u64 \<Rightarrow> u64 \<Rightarrow> int \<Rightarrow> node_tunnel \<Rightarrow> ping_outcome \<times> node_tunnel" where
  "ping_tick ping_secs pong_secs now t =
     (let interval = max ping_secs 1; timeout = max pong_secs 1 in
      if 2 ^ 64 \<le> unat interval + unat timeout then (PingPanic, t)
      else if wrap_i64 (now - last_pong_timestamp t) > as_i64 (interval + timeout)
      then (PongTimeout, signal_shutdown t)
      else (case send_frame Ping t of Inl e \<Rightarrow> (WriterGone, t) | Inr t' \<Rightarrow> (PingSent, t')))"

section \<open>The writer\<close>

text \<open>The writer owns the receiving end of the outbox: when it stops, sending to the tunnel fails.\<close>

definition stop_writer :: "node_tunnel \<Rightarrow> node_tunnel" where
  "stop_writer t = t\<lparr>tn_writer_open := False\<rparr>"

text \<open>One turn of the writer. \<open>print\<close> is the serialiser, \<open>sent\<close> whether the socket takes the text; a
  frame that cannot be printed is dropped, a failed write stops the writer.\<close>

definition writer_step ::
  "(router_frame \<Rightarrow> string option) \<Rightarrow> bool \<Rightarrow> node_tunnel \<Rightarrow> string option \<times> node_tunnel" where
  "writer_step print sent t =
     (case tn_outbox t of
        [] \<Rightarrow> (None, t)
      | f # fs \<Rightarrow>
          if \<not> tn_writer_open t then (None, t)
          else
            (let t' = t\<lparr>tn_outbox := fs\<rparr> in
             case print f of
               None \<Rightarrow> (None, t')
             | Some json \<Rightarrow> if sent then (Some json, t') else (None, stop_writer t')))"

section \<open>The end of a connection\<close>

text \<open>The connection works on its own tunnel \<open>i\<close>, whose writer it aborts, but the registry and the
  catalog are addressed by node. A panic in the catalog ends the task before the offline event is
  sent.\<close>

definition close_tunnel :: "(bytes \<Rightarrow> string) \<Rightarrow> int \<Rightarrow> nat \<Rightarrow> router_state \<Rightarrow> router_state" where
  "close_tunnel enc now i rs =
     (let n = tn_node_id (tunnel_at rs i);
          rs1 = update_tunnel i (\<lambda>t. fail_all_pending (stop_writer t)) rs;
          rs2 = rs1\<lparr>rs_capacity := clear_node n (rs_capacity rs1)\<rparr>;
          rs3 = registry_remove n rs2;
          (c, panicked) = remove_node enc now n (rs_models rs3);
          rs4 = rs3\<lparr>rs_models := c\<rparr> in
      if panicked then rs4
      else emit_status enc n (tn_moniker (tunnel_at rs4 i)) ''offline'' 0 0 rs4)"

section \<open>The router as a system\<close>

datatype router_event =
    Connect connect_env
  | Frame nat string int
  | WriterTurn nat "router_frame \<Rightarrow> string option" bool
  | PingTick nat int
  | Forward nat uuid string string json "string option"
  | Activate nat uuid string string u64 "string option"
  | Receive nat nat
  | DropPending nat uuid nat
  | Refresh nat "string + model_map" int
  | CloseTunnel nat int
  | Admission cap_event

record router_config =
  rc_chain_enabled :: bool
  rc_stale :: u64
  rc_refresh :: u64
  rc_ping :: u64
  rc_pong :: u64

text \<open>One event. Events name a tunnel of the store, registered or not.\<close>

fun router_step :: "'vk externals \<Rightarrow> router_config \<Rightarrow> router_state \<Rightarrow> router_event \<Rightarrow> router_state option" where
  "router_step X cfg rs (Connect E) = Some (snd (handle_node_connect X (rc_chain_enabled cfg) E rs))"
| "router_step X cfg rs (Frame i text now) =
     (if i < length (rs_store rs)
      then Some (fst (handle_inbound_text X (rc_stale cfg) (rc_refresh cfg) now i text rs)) else None)"
| "router_step X cfg rs (WriterTurn i print sent) =
     (if i < length (rs_store rs)
      then Some (update_tunnel i (\<lambda>t. snd (writer_step print sent t)) rs) else None)"
| "router_step X cfg rs (PingTick i now) =
     (if i < length (rs_store rs)
      then Some (update_tunnel i (\<lambda>t. snd (ping_tick (rc_ping cfg) (rc_pong cfg) now t)) rs) else None)"
| "router_step X cfg rs (Forward i rid method path headers body) =
     (if i < length (rs_store rs)
      then Some (update_tunnel i (\<lambda>t. snd (forward_http_request rid method path headers body t)) rs) else None)"
| "router_step X cfg rs (Activate i rid session sig block message) =
     (if i < length (rs_store rs)
      then Some (update_tunnel i (\<lambda>t. snd (forward_activate rid session sig block message t)) rs) else None)"
| "router_step X cfg rs (Receive i c) =
     (if i < length (rs_store rs)
      then Some (update_tunnel i (\<lambda>t. snd (recv_frame c t)) rs) else None)"
| "router_step X cfg rs (DropPending i rid c) =
     (if i < length (rs_store rs) then Some (update_tunnel i (drop_pending rid c) rs) else None)"
| "router_step X cfg rs (Refresh i fetched now) =
     (if i < length (rs_store rs) then Some (fst (refresh_tunnel (x_enc X) now i fetched rs)) else None)"
| "router_step X cfg rs (CloseTunnel i now) =
     (if i < length (rs_store rs) then Some (close_tunnel (x_enc X) now i rs) else None)"
| "router_step X cfg rs (Admission e) =
     (case cap_step (rs_capacity rs) e of
        None \<Rightarrow> None
      | Some s \<Rightarrow> Some (rs\<lparr>rs_capacity := s\<rparr>))"

subsection \<open>Tunnel operations keep a tunnel well formed\<close>

lemma tunnel_wf_frame:
  "tunnel_wf (t\<lparr>tn_outbox := ob\<rparr>) = tunnel_wf t"
  "tunnel_wf (t\<lparr>tn_shutdown := b\<rparr>) = tunnel_wf t"
  "tunnel_wf (t\<lparr>tn_writer_open := b\<rparr>) = tunnel_wf t"
  "tunnel_wf (t\<lparr>tn_last_models_refresh_at := x\<rparr>) = tunnel_wf t"
  "tunnel_wf (t\<lparr>tn_model_count := x\<rparr>) = tunnel_wf t"
  by (simp_all add: tunnel_wf_def)

lemma tunnel_wf_route_frame: "tunnel_wf t \<Longrightarrow> tunnel_wf (route_frame f t)"
  by (cases f) (simp_all add: tunnel_wf_route)

lemma node_id_ops [simp]:
  "tn_node_id (pending_insert rid c t) = tn_node_id t"
  "tn_node_id (pending_remove rid t) = tn_node_id t"
  "tn_node_id (drop_pending rid c t) = tn_node_id t"
  "tn_node_id (touch_pong now t) = tn_node_id t"
  "tn_node_id (snd (register_pending rid t)) = tn_node_id t"
  "tn_node_id (snd (recv_frame c t)) = tn_node_id t"
  "tn_node_id (snd (ping_tick a b now t)) = tn_node_id t"
  "tn_node_id (snd (maybe_refresh_on_pong now mi t)) = tn_node_id t"
  by (simp_all add: pending_insert_def pending_remove_def drop_pending_def touch_pong_def
      register_pending_def recv_frame_def ping_tick_def signal_shutdown_def send_frame_def
      maybe_refresh_on_pong_def Let_def split: list.split)

lemma node_id_route [simp]: "tn_node_id (route_inbound rid f t) = tn_node_id t"
  by (cases rule: route_inbound_cases [of t rid f]) simp_all

lemma node_id_route_frame [simp]: "tn_node_id (route_frame f t) = tn_node_id t"
  by (cases f) simp_all

lemma forward_wf:
  "tunnel_wf t \<Longrightarrow> tunnel_wf (snd (forward_http_request rid method path headers body t))"
  "tunnel_wf t \<Longrightarrow> tunnel_wf (snd (forward_activate rid session sig block message t))"
  "tn_node_id (snd (forward_http_request rid method path headers body t)) = tn_node_id t"
  "tn_node_id (snd (forward_activate rid session sig block message t)) = tn_node_id t"
proof -
  obtain c t1 where reg: "register_pending rid t = (c, t1)" by fastforce
  then have t1: "tn_node_id t1 = tn_node_id t" "tunnel_wf t \<Longrightarrow> tunnel_wf t1"
    using node_id_ops(5) [of rid t] tunnel_wf_register [of t rid] by simp_all
  show "tunnel_wf t \<Longrightarrow> tunnel_wf (snd (forward_http_request rid method path headers body t))"
    "tunnel_wf t \<Longrightarrow> tunnel_wf (snd (forward_activate rid session sig block message t))"
    using t1(2) by (simp_all add: forward_http_request_def forward_activate_def reg send_frame_def
        tunnel_wf_drop tunnel_wf_frame)
  show "tn_node_id (snd (forward_http_request rid method path headers body t)) = tn_node_id t"
    "tn_node_id (snd (forward_activate rid session sig block message t)) = tn_node_id t"
    using t1(1) by (simp_all add: forward_http_request_def forward_activate_def reg send_frame_def)
qed

lemma writer_ops [simp]:
  "tn_node_id (stop_writer t) = tn_node_id t"
  "tn_node_id (snd (writer_step print sent t)) = tn_node_id t"
  "tunnel_wf t \<Longrightarrow> tunnel_wf (stop_writer t)"
  "tunnel_wf t \<Longrightarrow> tunnel_wf (snd (writer_step print sent t))"
  by (auto simp: stop_writer_def writer_step_def Let_def tunnel_wf_frame split: list.split option.split)

lemma ping_tick_wf: "tunnel_wf t \<Longrightarrow> tunnel_wf (snd (ping_tick a b now t))"
  by (simp add: ping_tick_def Let_def signal_shutdown_def send_frame_def tunnel_wf_frame)

lemma refresh_mark_wf: "tunnel_wf t \<Longrightarrow> tunnel_wf (snd (maybe_refresh_on_pong now mi t))"
  by (simp add: maybe_refresh_on_pong_def Let_def tunnel_wf_frame)

lemma registry_wf_clear_node:
  "registry_wf rs \<Longrightarrow> registry_wf (rs\<lparr>rs_capacity := clear_node n (rs_capacity rs)\<rparr>)"
  using queueing.inv_step [of "rs_capacity rs" "ClearNode n" "clear_node n (rs_capacity rs)"]
  by (simp add: registry_wf_def)

lemma registry_wf_close: "registry_wf rs \<Longrightarrow> registry_wf (close_tunnel enc now i rs)"
proof -
  assume "registry_wf rs"
  then have "registry_wf (update_tunnel i (\<lambda>t. fail_all_pending (stop_writer t)) rs)"
    by (rule registry_wf_update_tunnel) (simp_all add: tunnel_wf_fail)
  from registry_wf_remove [OF registry_wf_clear_node [OF this]] show ?thesis
    by (simp add: close_tunnel_def Let_def split: prod.split)
qed

lemma registry_wf_refresh: "registry_wf rs \<Longrightarrow> registry_wf (fst (refresh_tunnel enc now i fetched rs))"
  by (auto simp: refresh_tunnel_def Let_def tunnel_wf_frame split: sum.split prod.split
      intro!: registry_wf_update_tunnel)

lemma registry_wf_inbound:
  "registry_wf rs \<Longrightarrow> registry_wf (fst (handle_inbound_text X stale refresh now i text rs))"
  by (auto simp: handle_inbound_text_def handle_pong_def Let_def tunnel_wf_route_frame tunnel_wf_touch
      refresh_mark_wf tunnel_wf_route split: sum.split node_frame.split intro!: registry_wf_update_tunnel)

lemma registry_wf_admission:
  "registry_wf rs \<Longrightarrow> cap_step (rs_capacity rs) e = Some s \<Longrightarrow> registry_wf (rs\<lparr>rs_capacity := s\<rparr>)"
  using queueing.inv_step [of "rs_capacity rs" e s] by (simp add: registry_wf_def)

interpretation router: invariant_system new_router_state "router_step X cfg" registry_wf for X cfg
proof unfold_locales
  show "registry_wf new_router_state" by (rule registry_wf_start)
  show "registry_wf rs \<Longrightarrow> router_step X cfg rs e = Some rs' \<Longrightarrow> registry_wf rs'" for rs e rs'
    by (cases e) (auto simp: forward_wf ping_tick_wf tunnel_wf_recv tunnel_wf_drop split: if_splits option.splits
        intro!: registry_wf_update_tunnel registry_wf_connect registry_wf_close registry_wf_refresh
          registry_wf_inbound registry_wf_admission)
qed



section \<open>Properties of the lifecycle\<close>

text \<open>A text message acts on the tunnel it arrives on and on no other: the registry, the capacity
  tracker, the catalog and every other tunnel are untouched, and what is not a frame, or a second
  auth frame, changes nothing at all.\<close>

theorem inbound_text_is_local:
  assumes "handle_inbound_text X stale refresh now i msg rs = (rs', spawned)" "j \<noteq> i"
  shows "tunnel_at rs' j = tunnel_at rs j \<and> rs_tunnels rs' = rs_tunnels rs \<and>
    rs_capacity rs' = rs_capacity rs \<and> rs_models rs' = rs_models rs \<and>
    (case x_parse_frame X msg of
       Inl e \<Rightarrow> rs' = rs \<and> \<not> spawned
     | Inr f \<Rightarrow>
         (case f of
            Pong \<Rightarrow> rs_connected rs' = rs_connected rs
          | Auth _ _ _ _ \<Rightarrow> rs' = rs \<and> \<not> spawned
          | _ \<Rightarrow> rs' = update_tunnel i (route_frame f) rs \<and> \<not> spawned))"
proof -
  have [simp]: "tunnel_at (update_tunnel i f r) j = tunnel_at r j" for f r
    using assms(2) by (simp add: tunnel_at_def update_tunnel_def)
  have [simp]: "tunnel_at (emit_status enc n m s x y r) j = tunnel_at r j" for enc n m s x y r
    by (simp add: tunnel_at_def emit_status_def)
  show ?thesis
    using assms(1)
    by (auto simp: handle_inbound_text_def handle_pong_def Let_def split: sum.splits node_frame.splits)
      (simp_all add: update_tunnel_def emit_status_def)
qed

theorem inbound_text_is_local_witness:
  "rs_tunnels (fst (handle_inbound_text sample_externals 40 60 1000 0 ''hello'' new_router_state)) = []"
  using inbound_text_is_local [OF surjective_pairing, where X = sample_externals and stale = 40 and refresh = 60
      and now = 1000 and i = 0 and msg = "''hello''" and rs = new_router_state and j = 1]
  by (simp add: new_router_state_def)

text \<open>The ping loop gives a tunnel up exactly when its last pong is older than the ping interval
  and the pong timeout together; until then it sends a ping and leaves the tunnel open.\<close>

theorem ping_timeout_exact:
  assumes "unat (max ping_secs 1) + unat (max pong_secs 1) < 2 ^ 63" "i64_range (now - tn_last_pong_at t)"
  shows "(fst (ping_tick ping_secs pong_secs now t) = PongTimeout \<longleftrightarrow>
      int (unat (max ping_secs 1)) + int (unat (max pong_secs 1)) < now - tn_last_pong_at t) \<and>
    (fst (ping_tick ping_secs pong_secs now t) \<noteq> PongTimeout \<longrightarrow>
      tn_shutdown (snd (ping_tick ping_secs pong_secs now t)) = tn_shutdown t \<and>
      tn_outbox (snd (ping_tick ping_secs pong_secs now t)) =
        (if tn_writer_open t then tn_outbox t @ [Ping] else tn_outbox t))"
proof -
  have sum: "unat (max ping_secs 1 + max pong_secs 1) = unat (max ping_secs 1) + unat (max pong_secs 1)"
    using assms(1) by (subst unat_add_lem [THEN iffD1]) simp_all
  then have "as_i64 (max ping_secs 1 + max pong_secs 1) =
      int (unat (max ping_secs 1)) + int (unat (max pong_secs 1))"
    using assms(1) by (subst as_i64_small) (simp_all only: sum of_nat_add)
  with assms show ?thesis
    by (auto simp: ping_tick_def Let_def send_frame_def)
qed

theorem ping_timeout_exact_witness:
  "fst (ping_tick 30 10 1041 (new_tunnel 1000 0 [] None)) = PongTimeout"
  using ping_timeout_exact [of 30 10 1041 "new_tunnel 1000 0 [] None"]
  by (simp add: max_def new_tunnel_def i64_range_def)

lemma close_tunnel_effect:
  "registry_get (close_tunnel enc now i rs) k =
    (if k = tn_node_id (tunnel_at rs i) then None else registry_get rs k)"
  "j \<noteq> i \<Longrightarrow> tunnel_at (close_tunnel enc now i rs) j = tunnel_at rs j"
  "rs_store (close_tunnel enc now i rs) = (rs_store rs)[i := fail_all_pending (stop_writer (rs_store rs ! i))]"
proof -
  show "registry_get (close_tunnel enc now i rs) k =
      (if k = tn_node_id (tunnel_at rs i) then None else registry_get rs k)"
    by (simp add: close_tunnel_def Let_def registry.table_laws split: prod.split)
  show store: "rs_store (close_tunnel enc now i rs) = (rs_store rs)[i := fail_all_pending (stop_writer (rs_store rs ! i))]"
    by (simp add: close_tunnel_def Let_def update_tunnel_def registry_remove_def emit_status_def
        split: prod.split)
  show "j \<noteq> i \<Longrightarrow> tunnel_at (close_tunnel enc now i rs) j = tunnel_at rs j"
    by (simp add: tunnel_at_def store)
qed

text \<open>C40: A closing connection unregisters its node, not its tunnel. When a node has reconnected in
  the meantime, the clean-up of its old connection takes the new, healthy tunnel out of the
  registry, so the node stays connected but gets no more requests.\<close>

theorem late_cleanup_unregisters_successor:
  assumes "registry_wf rs" "registry_get rs n = Some old"
    and "handle_node_connect X chain E rs = (Inr new, rs')" "handshake X chain E = Inr (n, m)"
  shows "registry_get rs' n = Some new \<and> registry_get (close_tunnel enc now old rs') n = None \<and>
    tunnel_at (close_tunnel enc now old rs') new = tunnel_at rs' new \<and> \<not> tn_shutdown (tunnel_at rs' new)"
proof -
  from connect_effect [OF assms(1,3)] assms(2,4) have c: "registry_get rs' n = Some new"
    "tunnel_at rs' new = new_tunnel (ce_now E) (ce_instant E) n m" "old \<noteq> new"
    "tunnel_at rs' old = fail_all_pending (signal_shutdown (tunnel_at rs old))"
    by auto
  have "tn_node_id (tunnel_at rs' old) = tn_node_id (tunnel_at rs old)"
    by (simp add: c(4) signal_shutdown_def)
  also have "\<dots> = n"
    using assms(1,2) by (simp add: registry_wf_def tunnel_at_def)
  finally show ?thesis
    using c by (auto simp: close_tunnel_effect) (simp add: new_tunnel_def)
qed

theorem late_cleanup_unregisters_successor_witness:
  "\<exists>rs. registry_get rs (replicate 32 5) = Some 1 \<and>
    registry_get (close_tunnel sample_enc 1001 0 rs) (replicate 32 5) = None"
proof -
  let ?n = "replicate 32 5 :: node_id"
  let ?conn = "handle_node_connect sample_externals True (sample_env ?n)"
  obtain i rs where one: "?conn new_router_state = (Inr i, rs)" and i: "i = 0"
    using sample_connect [of ?n new_router_state]
    by (cases "?conn new_router_state")
      (simp add: rs_store_replace_old new_router_state_def)
  have wf: "registry_wf rs" and get: "registry_get rs ?n = Some 0" and len: "length (rs_store rs) = 1"
  proof -
    show "registry_wf rs"
      using registry_wf_connect [OF registry_wf_start, of sample_externals True "sample_env ?n"] one by simp
    show "registry_get rs ?n = Some 0"
      using connect_effect [OF registry_wf_start one] by (auto simp: sample_handshake i)
    show "length (rs_store rs) = 1"
      using one by (auto simp: handle_node_connect_def sample_handshake Let_def open_tunnel_def
          registry_insert_def emit_status_def rs_store_replace_old split: if_splits)
        (simp add: new_router_state_def)
  qed
  obtain j rs' where two: "?conn rs = (Inr j, rs')" and j: "j = 1"
    using sample_connect [of ?n rs] len by (cases "?conn rs") (simp add: rs_store_replace_old)
  from late_cleanup_unregisters_successor [OF wf get two sample_handshake] j show ?thesis by auto
qed

end
