(* ===== verification/Metering.thy ===== *)
theory Metering
  imports Offerings
begin

text \<open>
  Token usage read from answers of the nodes (\<open>src/consumer/metering.rs\<close>). Parameters: \<open>parse\<close> and
  \<open>print\<close> are JSON parsing and printing, \<open>receipt_of\<close> decodes the base64 text of a receipt and reads
  its \<open>token_count\<close>.
\<close>

record parsed_usage =
  pu_input_tokens :: u64
  pu_output_tokens :: u64

definition extract_usage_from_json :: "json \<Rightarrow> parsed_usage option" where
  "extract_usage_from_json value =
     (case json_get ''usage'' value of
        None \<Rightarrow> None
      | Some usage \<Rightarrow>
          (case Option.bind (or_else (json_get ''prompt_tokens'' usage) (json_get ''input_tokens'' usage)) as_u64 of
             None \<Rightarrow> None
           | Some inp \<Rightarrow>
               (case Option.bind (or_else (json_get ''completion_tokens'' usage) (json_get ''output_tokens'' usage)) as_u64 of
                  None \<Rightarrow> None
                | Some out \<Rightarrow> Some \<lparr>pu_input_tokens = inp, pu_output_tokens = out\<rparr>)))"

definition extract_usage_from_body :: "(string \<Rightarrow> json option) \<Rightarrow> string \<Rightarrow> parsed_usage option" where
  "extract_usage_from_body parse body = Option.bind (parse body) extract_usage_from_json"

definition sparkl_receipt_output_tokens :: "(string \<Rightarrow> u64 option) \<Rightarrow> json \<Rightarrow> u64 option" where
  "sparkl_receipt_output_tokens receipt_of value =
     Option.bind (Option.bind (json_pointer [''sparkl'', ''receipt''] value) as_str) receipt_of"

definition sse_event_value :: "(string \<Rightarrow> json option) \<Rightarrow> string \<Rightarrow> json option" where
  "sse_event_value parse segment =
     (case first_line segment of
        None \<Rightarrow> None
      | Some l \<Rightarrow>
          (let payload = trim l in
           if payload = [] \<or> payload = ''[DONE]'' then None else parse payload))"

definition iter_sse_event_values :: "(string \<Rightarrow> json option) \<Rightarrow> string \<Rightarrow> json list" where
  "iter_sse_event_values parse body = List.map_filter (sse_event_value parse) (drop 1 (split_on ''data:'' body))"

definition scan_event ::
  "(string \<Rightarrow> u64 option) \<Rightarrow> parsed_usage option \<times> u64 \<Rightarrow> json \<Rightarrow> parsed_usage option \<times> u64" where
  "scan_event receipt_of acc v =
     (case acc of (openai, max_receipt) \<Rightarrow>
       (case extract_usage_from_json v of Some u \<Rightarrow> Some u | None \<Rightarrow> openai,
        case sparkl_receipt_output_tokens receipt_of v of Some tc \<Rightarrow> max max_receipt tc | None \<Rightarrow> max_receipt))"

definition extract_usage_from_sse_body ::
  "(string \<Rightarrow> json option) \<Rightarrow> (string \<Rightarrow> u64 option) \<Rightarrow> string \<Rightarrow> parsed_usage option" where
  "extract_usage_from_sse_body parse receipt_of body =
     (case foldl (scan_event receipt_of) (None, 0) (iter_sse_event_values parse body) of
        (Some u, receipt_out) \<Rightarrow>
          if pu_output_tokens u < receipt_out then Some (u\<lparr>pu_output_tokens := receipt_out\<rparr>) else Some u
      | (None, receipt_out) \<Rightarrow>
          if receipt_out = 0 then None
          else Some \<lparr>pu_input_tokens = 0, pu_output_tokens = receipt_out\<rparr>)"

text \<open>Printing may fail; then the body is passed on as it was.\<close>

definition inject_stream_usage_option ::
  "(string \<Rightarrow> json option) \<Rightarrow> (json \<Rightarrow> string option) \<Rightarrow> string \<Rightarrow> string" where
  "inject_stream_usage_option parse print body =
     (case parse body of
        None \<Rightarrow> body
      | Some v \<Rightarrow>
          if Option.bind (json_get ''stream'' v) as_bool \<noteq> Some True then body
          else
            (let v' = (case v of
                         JObj kvs \<Rightarrow>
                           JObj (obj_or_insert ''stream_options'' (JObj [(''include_usage'', JBool True)]) kvs)
                       | _ \<Rightarrow> v) in
             case print v' of Some s \<Rightarrow> s | None \<Rightarrow> body))"

section \<open>What is metered\<close>

definition last_usage :: "json list \<Rightarrow> parsed_usage option" where
  "last_usage vs = (case List.map_filter extract_usage_from_json vs of [] \<Rightarrow> None | us \<Rightarrow> Some (last us))"

definition max_receipt :: "(string \<Rightarrow> u64 option) \<Rightarrow> json list \<Rightarrow> u64" where
  "max_receipt receipt_of vs = Max (insert 0 (set (List.map_filter (sparkl_receipt_output_tokens receipt_of) vs)))"

lemma map_filter_snoc: "List.map_filter f (xs @ [x]) = List.map_filter f xs @ (case f x of None \<Rightarrow> [] | Some y \<Rightarrow> [y])"
  by (simp add: List.map_filter_def split: option.split)

lemma last_usage_snoc:
  "last_usage (vs @ [v]) = (case extract_usage_from_json v of Some u \<Rightarrow> Some u | None \<Rightarrow> last_usage vs)"
  by (cases "extract_usage_from_json v"; cases "List.map_filter extract_usage_from_json vs")
    (simp_all add: last_usage_def map_filter_snoc)

lemma max_receipt_snoc:
  "max_receipt receipt_of (vs @ [v]) =
    (case sparkl_receipt_output_tokens receipt_of v of
       Some tc \<Rightarrow> max (max_receipt receipt_of vs) tc | None \<Rightarrow> max_receipt receipt_of vs)"
  by (simp add: max_receipt_def map_filter_snoc max.commute insert_commute split: option.split)

lemma scan_events: "foldl (scan_event receipt_of) (None, 0) vs = (last_usage vs, max_receipt receipt_of vs)"
proof (induction vs rule: rev_induct)
  case (snoc v vs)
  then show ?case
    by (simp add: scan_event_def last_usage_snoc max_receipt_snoc)
qed (simp add: last_usage_def max_receipt_def List.map_filter_def)

text \<open>C29: The usage of a streamed answer takes the input tokens of its last usage event and the larger
  of that event's output tokens and the largest receipt; a stream with neither usage nor a positive
  receipt is not metered.\<close>

theorem sse_usage_spec:
  "extract_usage_from_sse_body parse receipt_of body =
    (let vs = iter_sse_event_values parse body; r = max_receipt receipt_of vs in
     case last_usage vs of
       Some u \<Rightarrow> Some \<lparr>pu_input_tokens = pu_input_tokens u, pu_output_tokens = max (pu_output_tokens u) r\<rparr>
     | None \<Rightarrow> if r = 0 then None else Some \<lparr>pu_input_tokens = 0, pu_output_tokens = r\<rparr>)"
  by (auto simp: extract_usage_from_sse_body_def scan_events Let_def max_def split: option.split)

text \<open>A streaming request that is an object reaches the node asking for a usage chunk, with every
  other member of its body unchanged; a choice the caller made in \<open>stream_options\<close> is kept. Only
  when the changed body cannot be printed, and for a request that does not stream, the body is
  passed on byte for byte.\<close>

theorem stream_option_injected:
  assumes "\<And>v s. print v = Some s \<Longrightarrow> parse s = Some v" "parse body = Some (JObj kvs)"
    and "injected = inject_stream_usage_option parse print body"
  shows "if map_of kvs ''stream'' = Some (JBool True) \<and>
        print (JObj (obj_or_insert ''stream_options'' (JObj [(''include_usage'', JBool True)]) kvs)) \<noteq> None
    then \<exists>kvs'. parse injected = Some (JObj kvs') \<and>
        (\<forall>k. map_of kvs' k =
          (if k = ''stream_options'' \<and> map_of kvs k = None then Some (JObj [(''include_usage'', JBool True)])
           else map_of kvs k))
    else injected = body"
proof -
  let ?kvs = "obj_or_insert ''stream_options'' (JObj [(''include_usage'', JBool True)]) kvs"
  have bool: "as_bool v = Some True \<longleftrightarrow> v = JBool True" for v
    by (cases v) auto
  show ?thesis
  proof (cases "print (JObj ?kvs)")
    case None
    then show ?thesis
      using assms(2,3) by (simp add: inject_stream_usage_option_def)
  next
    case (Some s)
    with assms show ?thesis
      by (auto simp: inject_stream_usage_option_def bool bind_eq_Some_conv split: option.split)
  qed
qed

definition sample_streaming :: "(string \<times> json) list" where
  "sample_streaming = [(''stream'', JBool True)]"

definition sample_with_option :: json where
  "sample_with_option =
     JObj (obj_or_insert ''stream_options'' (JObj [(''include_usage'', JBool True)]) sample_streaming)"

definition sample_print :: "json \<Rightarrow> string option" where
  "sample_print v = (if v = sample_with_option then Some ''out'' else None)"

definition sample_parse :: "string \<Rightarrow> json option" where
  "sample_parse s =
     (if s = ''in'' then Some (JObj sample_streaming)
      else if s = ''out'' then Some sample_with_option else None)"

theorem stream_option_injected_witness:
  "\<exists>kvs'. sample_parse (inject_stream_usage_option sample_parse sample_print ''in'') = Some (JObj kvs') \<and>
    map_of kvs' ''stream_options'' = Some (JObj [(''include_usage'', JBool True)])"
proof -
  have law: "sample_parse s = Some v" if "sample_print v = Some s" for v s
    using that by (simp add: sample_print_def sample_parse_def split: if_splits)
  have body: "sample_parse ''in'' = Some (JObj sample_streaming)"
    by (simp add: sample_parse_def)
  have print: "sample_print (JObj (obj_or_insert ''stream_options'' (JObj [(''include_usage'', JBool True)])
      sample_streaming)) = Some ''out''"
    by (simp add: sample_print_def sample_with_option_def)
  have kvs: "map_of sample_streaming ''stream'' = Some (JBool True)" "map_of sample_streaming ''stream_options'' = None"
    by (simp_all add: sample_streaming_def)
  from stream_option_injected [of sample_print sample_parse "''in''" sample_streaming, OF law body refl] show ?thesis
    by (auto simp: print kvs)
qed

end
