(* ===== verification/Sse_Response.thy ===== *)
theory Sse_Response
  imports Metering Protocol
begin

text \<open>
  Turning the frames of a node into the answer for the consumer (\<open>src/consumer/sse.rs\<close>): the
  collected answer and the event stream with its completion. The validity of a status code
  (\<open>StatusCode::from_u16\<close>) is the parameter \<open>status_of\<close>. The frames that the request's receiver
  yields before its channel closes are a list.
\<close>

section \<open>The collected answer\<close>

text \<open>
  The headers of the node's answer are gathered by the source but never reach the response, so they
  do not appear here. Chunks are text, so the lossy conversion of the body is the identity.
\<close>

fun collect_frames ::
  "(u16 \<Rightarrow> u16 option) \<Rightarrow> u16 \<Rightarrow> string \<Rightarrow> inbound_frame list \<Rightarrow> bool \<Rightarrow> u16 \<times> string + u16 \<times> string" where
  "collect_frames status_of status body [] timed_out =
     (if timed_out then Inl (504, ''upstream timeout'') else Inr (status, body))"
| "collect_frames status_of status body (Response s h # fs) timed_out =
     collect_frames status_of (case status_of s of Some c \<Rightarrow> c | None \<Rightarrow> 200) body fs timed_out"
| "collect_frames status_of status body (Chunk d # fs) timed_out =
     collect_frames status_of status (body @ d) fs timed_out"
| "collect_frames status_of status body (End s # fs) timed_out =
     Inr (case status_of s of Some c \<Rightarrow> c | None \<Rightarrow> status, body)"
| "collect_frames status_of status body (Error code message # fs) timed_out =
     Inl (case status_of code of Some c \<Rightarrow> c | None \<Rightarrow> 502, message)"
| "collect_frames status_of status body (ActivateResponse k # fs) timed_out =
     collect_frames status_of status body fs timed_out"

definition collect_http_response ::
  "(u16 \<Rightarrow> u16 option) \<Rightarrow> inbound_frame list \<Rightarrow> bool \<Rightarrow> u16 \<times> string + u16 \<times> string" where
  "collect_http_response status_of fs timed_out = collect_frames status_of 200 [] fs timed_out"

lemma collect_chunks:
  "collect_frames status_of status body (map Chunk ds @ fs) timed_out =
    collect_frames status_of status (body @ concat ds) fs timed_out"
  by (induction ds arbitrary: body) simp_all

text \<open>A complete answer is passed on with the status of its last frame and its chunks in order; an
  error frame of the node, also after some chunks, becomes an error with the node's code.\<close>

theorem collected_answer_exact:
  assumes "status_of s = Some s" "status_of e = Some e" "status_of c = Some c"
  shows "collect_http_response status_of (Response s h # map Chunk ds @ End e # fs) b = Inr (e, concat ds) \<and>
    collect_http_response status_of (Response s h # map Chunk ds @ Error c m # fs) b = Inl (c, m)"
  using assms by (simp add: collect_http_response_def collect_chunks)

theorem collected_answer_exact_witness:
  "collect_http_response Some [Response 200 JNull, Chunk ''a'', Chunk ''b'', End 200] False = Inr (200, ''ab'')"
  using collected_answer_exact [of Some 200 200 500 JNull "[''a'', ''b'']" "[]" False] by simp

text \<open>An answer that breaks off is not told from a complete one: when the channel closes without a
  final frame, because it overflowed or the tunnel dropped it, the chunks so far are returned with
  the success status of the answer's start.\<close>

theorem truncated_answer_is_success:
  assumes "status_of s = Some s"
  shows "collect_http_response status_of (Response s h # map Chunk ds) False = Inr (s, concat ds)"
  using assms collect_chunks [of status_of s "[]" ds "[]" False] by (simp add: collect_http_response_def)

theorem truncated_answer_is_success_witness:
  "collect_http_response Some [Response 200 JNull, Chunk ''{part''] False = Inr (200, ''{part'')"
  using truncated_answer_is_success [of Some 200 JNull "[''{part'']"] by simp

section \<open>The event stream\<close>

text \<open>What the stream sees: frames, the end of the channel, the deadline, and the consumer going away,
  which drops the stream at any point.\<close>

datatype sse_input =
    FromNode inbound_frame
  | NodeClosed
  | Deadline
  | ConsumerGone

record sse_state =
  ss_accumulated :: string
  ss_latest_usage :: "parsed_usage option"
  ss_yielded :: "string list"
  ss_guard_held :: bool
  ss_running :: bool
  ss_completions :: "(parsed_usage option \<times> nat \<times> bool) list"

definition sse_start :: sse_state where
  "sse_start =
     \<lparr>ss_accumulated = [], ss_latest_usage = None, ss_yielded = [], ss_guard_held = True,
      ss_running = True, ss_completions = []\<rparr>"

text \<open>\<open>fire\<close> releases the capacity guard and calls back once; it has fired when a completion is there.\<close>

definition fire :: "parsed_usage option \<times> nat \<times> bool \<Rightarrow> sse_state \<Rightarrow> sse_state" where
  "fire c s =
     (if ss_completions s \<noteq> [] then s
      else s\<lparr>ss_guard_held := False, ss_completions := [c]\<rparr>)"

text \<open>Dropping the stream's completion, as far as it has not fired, releases the guard and calls back
  without usage.\<close>

definition drop_completion :: "sse_state \<Rightarrow> sse_state" where
  "drop_completion s =
     (if ss_completions s \<noteq> [] then s
      else s\<lparr>ss_guard_held := False, ss_completions := [(None, 0, False)]\<rparr>)"

definition has_sparkl :: "string \<Rightarrow> bool" where
  "has_sparkl body = contains_sub ''\"sparkl\"'' body"

definition fire_complete ::
  "(string \<Rightarrow> json option) \<Rightarrow> (string \<Rightarrow> u64 option) \<Rightarrow> sse_state \<Rightarrow> sse_state" where
  "fire_complete parse receipt_of s =
     fire (or_else (ss_latest_usage s) (extract_usage_from_sse_body parse receipt_of (ss_accumulated s)),
           length (ss_accumulated s), has_sparkl (ss_accumulated s)) s"

definition timeout_line :: string where
  "timeout_line = ''data: {\"error\":\"timeout\"}'' @ [CHR 0x0A, CHR 0x0A]"

definition error_line :: "(string \<Rightarrow> string) \<Rightarrow> string \<Rightarrow> string" where
  "error_line quote message = ''data: {\"error\":'' @ quote message @ ''}'' @ [CHR 0x0A, CHR 0x0A]"

text \<open>Leaving the loop fires once more, which does nothing when it has fired.\<close>

definition finish ::
  "(string \<Rightarrow> json option) \<Rightarrow> (string \<Rightarrow> u64 option) \<Rightarrow> sse_state \<Rightarrow> sse_state" where
  "finish parse receipt_of s = (fire_complete parse receipt_of s)\<lparr>ss_running := False\<rparr>"

definition sse_chunk ::
  "(string \<Rightarrow> json option) \<Rightarrow> (string \<Rightarrow> u64 option) \<Rightarrow> string \<Rightarrow> sse_state \<Rightarrow> sse_state" where
  "sse_chunk parse receipt_of d s =
     (let acc = ss_accumulated s @ d in
      s\<lparr>ss_accumulated := acc,
        ss_latest_usage := or_else (extract_usage_from_sse_body parse receipt_of acc) (ss_latest_usage s),
        ss_yielded := ss_yielded s @ [d]\<rparr>)"

text \<open>\<open>quote\<close> prints a string as JSON.\<close>

fun sse_step ::
  "(string \<Rightarrow> json option) \<Rightarrow> (string \<Rightarrow> u64 option) \<Rightarrow> (string \<Rightarrow> string) \<Rightarrow> sse_state \<Rightarrow> sse_input \<Rightarrow> sse_state" where
  "sse_step parse receipt_of quote s (FromNode (Chunk d)) =
     (if ss_running s then sse_chunk parse receipt_of d s else s)"
| "sse_step parse receipt_of quote s (FromNode (End st)) =
     (if ss_running s then finish parse receipt_of (fire_complete parse receipt_of s) else s)"
| "sse_step parse receipt_of quote s (FromNode (Error code message)) =
     (if ss_running s then
        finish parse receipt_of
          (fire_complete parse receipt_of (s\<lparr>ss_yielded := ss_yielded s @ [error_line quote message]\<rparr>))
      else s)"
| "sse_step parse receipt_of quote s (FromNode _) = s"
| "sse_step parse receipt_of quote s NodeClosed =
     (if ss_running s then finish parse receipt_of s else s)"
| "sse_step parse receipt_of quote s Deadline =
     (if ss_running s then finish parse receipt_of (s\<lparr>ss_yielded := ss_yielded s @ [timeout_line]\<rparr>) else s)"
| "sse_step parse receipt_of quote s ConsumerGone =
     (if ss_running s then (drop_completion s)\<lparr>ss_running := False\<rparr> else s)"

definition sse_run ::
  "(string \<Rightarrow> json option) \<Rightarrow> (string \<Rightarrow> u64 option) \<Rightarrow> (string \<Rightarrow> string) \<Rightarrow> sse_input list \<Rightarrow> sse_state" where
  "sse_run parse receipt_of quote ins = foldl (sse_step parse receipt_of quote) sse_start ins"

definition sse_inv :: "sse_state \<Rightarrow> bool" where
  "sse_inv s \<longleftrightarrow>
     (if ss_running s then ss_guard_held s \<and> ss_completions s = []
      else \<not> ss_guard_held s \<and> length (ss_completions s) = 1)"

lemma sse_step_completed:
  "sse_inv s \<Longrightarrow> s' = sse_step parse receipt_of quote s i \<Longrightarrow> ss_completions s \<noteq> [] \<Longrightarrow> s' = s"
  by (cases "(parse, receipt_of, quote, s, i)" rule: sse_step.cases) (auto simp: sse_inv_def split: if_splits)

lemma sse_inv_step: "sse_inv s \<Longrightarrow> sse_inv (sse_step parse receipt_of quote s i)"
  by (cases "(parse, receipt_of, quote, s, i)" rule: sse_step.cases)
    (auto simp: sse_inv_def sse_chunk_def finish_def fire_complete_def fire_def drop_completion_def Let_def)

lemma sse_inv_run: "sse_inv (sse_run parse receipt_of quote ins)"
proof -
  have "sse_inv s \<Longrightarrow> sse_inv (foldl (sse_step parse receipt_of quote) s ins)" for s
    by (induction ins arbitrary: s) (simp_all add: sse_inv_step)
  from this [of sse_start] show ?thesis
    by (simp add: sse_run_def) (simp add: sse_inv_def sse_start_def)
qed

text \<open>C28: However a stream goes, its capacity guard is held exactly while it runs, and when it has ended,
  by the node, the deadline, a lost channel or a consumer that went away, the completion was called
  exactly once.\<close>

theorem stream_completes_once:
  "ss_guard_held (sse_run parse receipt_of quote ins) = ss_running (sse_run parse receipt_of quote ins) \<and>
   length (ss_completions (sse_run parse receipt_of quote ins)) =
     (if ss_running (sse_run parse receipt_of quote ins) then 0 else 1)"
  using sse_inv_run [of parse receipt_of quote ins] by (auto simp: sse_inv_def split: if_splits)

lemma sse_chunks:
  "ss_running s \<Longrightarrow> ss_completions s = [] \<Longrightarrow>
    ss_running (foldl (sse_step parse receipt_of quote) s (map (FromNode \<circ> Chunk) ds)) \<and>
    ss_completions (foldl (sse_step parse receipt_of quote) s (map (FromNode \<circ> Chunk) ds)) = [] \<and>
    ss_accumulated (foldl (sse_step parse receipt_of quote) s (map (FromNode \<circ> Chunk) ds)) =
      ss_accumulated s @ concat ds \<and>
    ss_yielded (foldl (sse_step parse receipt_of quote) s (map (FromNode \<circ> Chunk) ds)) = ss_yielded s @ ds"
  by (induction ds arbitrary: s) (simp_all add: sse_chunk_def Let_def)

lemma sse_latest_usage:
  assumes "ds \<noteq> []" "extract_usage_from_sse_body parse receipt_of (ss_accumulated s @ concat ds) = Some u"
    "ss_running s" "ss_completions s = []"
  shows "ss_latest_usage (foldl (sse_step parse receipt_of quote) s (map (FromNode \<circ> Chunk) ds)) = Some u"
proof -
  obtain es d where ds: "ds = es @ [d]"
    using assms(1) by (cases ds rule: rev_cases) auto
  then show ?thesis
    using sse_chunks [OF assms(3,4), of parse receipt_of quote es] assms(2)
    by (simp add: sse_chunk_def or_else_def Let_def)
qed

text \<open>When the node's answer carries usage and the stream is ended by the node, its channel or the
  deadline, the consumer has got every chunk in order and the completion gets the usage of the
  whole answer; but when the consumer goes away first, even after the last chunk, the completion
  gets none and the tokens are not recorded.\<close>

theorem stream_usage_only_if_node_ends:
  assumes "ds \<noteq> []" "extract_usage_from_sse_body parse receipt_of (concat ds) = Some u"
  shows "(\<forall>i \<in> {FromNode (End st), FromNode (Error c m), NodeClosed, Deadline}.
      ss_completions (sse_run parse receipt_of quote (map (FromNode \<circ> Chunk) ds @ i # ins)) =
        [(Some u, length (concat ds), has_sparkl (concat ds))]) \<and>
    take (length ds) (ss_yielded (sse_run parse receipt_of quote (map (FromNode \<circ> Chunk) ds))) = ds \<and>
    ss_completions (sse_run parse receipt_of quote (map (FromNode \<circ> Chunk) ds @ ConsumerGone # ins)) =
      [(None, 0, False)]"
proof -
  define s where "s = foldl (sse_step parse receipt_of quote) sse_start (map (FromNode \<circ> Chunk) ds)"
  have s: "ss_running s" "ss_completions s = []" "ss_accumulated s = concat ds" "ss_yielded s = ds"
    using sse_chunks [of sse_start parse receipt_of quote ds] by (simp_all add: s_def sse_start_def)
  have u: "ss_latest_usage s = Some u"
    using sse_latest_usage [of ds parse receipt_of sse_start u quote] assms by (simp add: s_def sse_start_def)
  have stay: "ss_completions t = [c] \<Longrightarrow> \<not> ss_running t \<Longrightarrow>
      ss_completions (foldl (sse_step parse receipt_of quote) t ins) = [c]" for t c
  proof (induction ins arbitrary: t)
    case (Cons i ins)
    moreover have "sse_step parse receipt_of quote t i = t"
      using Cons.prems(2) by (cases "(parse, receipt_of, quote, t, i)" rule: sse_step.cases) simp_all
    ultimately show ?case by simp
  qed simp
  have "ss_completions (sse_step parse receipt_of quote s i) = [(Some u, length (concat ds), has_sparkl (concat ds))]
      \<and> \<not> ss_running (sse_step parse receipt_of quote s i)"
    if "i \<in> {FromNode (End st), FromNode (Error c m), NodeClosed, Deadline}" for i
    using that s u by (auto simp: finish_def fire_complete_def fire_def or_else_def)
  moreover have "ss_completions (sse_step parse receipt_of quote s ConsumerGone) = [(None, 0, False)]"
    "\<not> ss_running (sse_step parse receipt_of quote s ConsumerGone)"
    using s by (simp_all add: drop_completion_def)
  ultimately show ?thesis
    using s(4) stay by (simp add: sse_run_def flip: s_def)
qed

definition sample_usage_event :: json where
  "sample_usage_event =
     JObj [(''usage'', JObj [(''prompt_tokens'', json_u64 3), (''completion_tokens'', json_u64 4)])]"

lemma sample_usage:
  "extract_usage_from_sse_body (\<lambda>_. Some sample_usage_event) (\<lambda>_. None) (concat [''data:'', ''x'']) =
    Some \<lparr>pu_input_tokens = 3, pu_output_tokens = 4\<rparr>"
proof -
  have tail: "split_on ''data:'' ''x'' = [''x'']"
    by (subst split_on.simps, simp, subst split_on.simps) simp
  have "split_on ''data:'' ''data:x'' = [] # split_on ''data:'' ''x''"
    by (subst split_on.simps) simp
  moreover have "trim ''x'' = ''x''"
    by (rule trim_graph) (simp add: graph_char_def)
  ultimately have "iter_sse_event_values (\<lambda>_. Some sample_usage_event) ''data:x'' = [sample_usage_event]"
    by (simp add: iter_sse_event_values_def tail sse_event_value_def first_line_def List.map_filter_def)
  then show ?thesis
    by (simp add: extract_usage_from_sse_body_def scan_event_def extract_usage_from_json_def
        sample_usage_event_def or_else_def sparkl_receipt_output_tokens_def)
qed

theorem stream_usage_only_if_node_ends_witness:
  "ss_completions (sse_run (\<lambda>_. Some sample_usage_event) (\<lambda>_. None) id
      [FromNode (Chunk ''data:''), FromNode (Chunk ''x''), ConsumerGone]) = [(None, 0, False)] \<and>
   ss_completions (sse_run (\<lambda>_. Some sample_usage_event) (\<lambda>_. None) id
      [FromNode (Chunk ''data:''), FromNode (Chunk ''x''), NodeClosed]) =
     [(Some \<lparr>pu_input_tokens = 3, pu_output_tokens = 4\<rparr>, 6, has_sparkl ''data:x'')]"
  using stream_usage_only_if_node_ends [OF _ sample_usage, of 0 0 "[]" id "[]"] by simp

end
