(* ===== verification/Chain_Session.thy ===== *)
theory Chain_Session
  imports Rust_Strings
begin

text \<open>
  Escrow sessions as the chain returns them (\<open>src/chain/session.rs\<close>): decoding the static head of
  the ABI-encoded getter result. The call itself is the parameter of \<open>fetch_session\<close>. Addresses
  and 32-byte words are byte lists.
\<close>

definition session_head_words :: nat where
  "session_head_words = 13"

definition session_struct_offset :: nat where
  "session_struct_offset = 32"

record chain_session =
  cs_user :: bytes
  cs_node_id :: bytes
  cs_model_id :: bytes
  cs_tier :: u8
  cs_locked_internal :: u128
  cs_usage_recorded :: u128
  cs_input_tokens_recorded :: u64
  cs_output_tokens_recorded :: u64
  cs_settled :: bool

definition zero_address :: bytes where
  "zero_address = replicate 20 0"

definition is_open :: "chain_session \<Rightarrow> bool" where
  "is_open s \<longleftrightarrow> cs_user s \<noteq> zero_address \<and> \<not> cs_settled s"

text \<open>\<open>session_is_open\<close> of \<open>src/chain/mod.rs\<close>.\<close>

definition session_is_open :: "chain_session \<Rightarrow> bool" where
  "session_is_open s = is_open s"

declare session_is_open_def [simp]

definition budget_exhausted :: "chain_session \<Rightarrow> bool" where
  "budget_exhausted s \<longleftrightarrow> cs_locked_internal s \<le> cs_usage_recorded s \<and> 0 < cs_locked_internal s"

section \<open>Decoding\<close>

definition word_at :: "bytes \<Rightarrow> nat \<Rightarrow> string + bytes" where
  "word_at data index =
     (let start = index * 32; stop = start + 32 in
      if stop \<le> length data then Inr (take 32 (drop start data))
      else Inl ''sessions() returndata too short'')"

definition address_at :: "bytes \<Rightarrow> nat \<Rightarrow> string + bytes" where
  "address_at data i = map_sum id (drop 12) (word_at data i)"

definition bytes32_at :: "bytes \<Rightarrow> nat \<Rightarrow> string + bytes" where
  "bytes32_at data i = word_at data i"

definition u256_at :: "bytes \<Rightarrow> nat \<Rightarrow> string + nat" where
  "u256_at data i = map_sum id be_nat (word_at data i)"

definition u64_at :: "bytes \<Rightarrow> nat \<Rightarrow> string + u64" where
  "u64_at data i = map_sum id (\<lambda>w. u64_from_be (drop 24 w)) (word_at data i)"

definition u8_at :: "bytes \<Rightarrow> nat \<Rightarrow> string + u8" where
  "u8_at data i = map_sum id (\<lambda>w. w ! 31) (word_at data i)"

definition bool_at :: "bytes \<Rightarrow> nat \<Rightarrow> string + bool" where
  "bool_at data i = map_sum id (\<lambda>w. w ! 31 \<noteq> 0) (word_at data i)"

definition u128_saturating :: "nat \<Rightarrow> u128" where
  "u128_saturating n = (if n < 2 ^ 128 then word_of_nat n else - 1)"

definition session_head_bytes :: "bytes \<Rightarrow> string + bytes" where
  "session_head_bytes data =
     (if length data < 32 then Inl ''sessions() returndata too short (need at least 32 bytes)''
      else
        (case u256_at data 0 of
           Inl e \<Rightarrow> Inl e
         | Inr offset \<Rightarrow>
             if offset = session_struct_offset then
               (if session_struct_offset + session_head_words * 32 \<le> length data
                then Inr (drop session_struct_offset data)
                else Inl ''sessions() returndata too short for offset head'')
             else
               (if session_head_words * 32 \<le> length data then Inr data
                else Inl ''sessions() returndata too short for session head'')))"

definition bind_sum :: "'e + 'a \<Rightarrow> ('a \<Rightarrow> 'e + 'b) \<Rightarrow> 'e + 'b" where
  "bind_sum x f = (case x of Inl e \<Rightarrow> Inl e | Inr a \<Rightarrow> f a)"

definition decode_session_head :: "bytes \<Rightarrow> string + chain_session" where
  "decode_session_head data =
     bind_sum (session_head_bytes data) (\<lambda>head.
     bind_sum (address_at head 0) (\<lambda>user.
     bind_sum (bytes32_at head 1) (\<lambda>node.
     bind_sum (bytes32_at head 2) (\<lambda>model.
     bind_sum (u8_at head 3) (\<lambda>tier.
     bind_sum (u256_at head 4) (\<lambda>locked.
     bind_sum (u256_at head 5) (\<lambda>usage.
     bind_sum (u64_at head 11) (\<lambda>inp.
     bind_sum (u64_at head 12) (\<lambda>out.
     bind_sum (bool_at head 10) (\<lambda>settled.
       Inr \<lparr>cs_user = user, cs_node_id = node, cs_model_id = model, cs_tier = tier,
            cs_locked_internal = u128_saturating locked, cs_usage_recorded = u128_saturating usage,
            cs_input_tokens_recorded = inp, cs_output_tokens_recorded = out,
            cs_settled = settled\<rparr>))))))))))"

text \<open>An error with a context reads as its context, so the texts of the decoder's errors above are never
  shown to a client.\<close>

definition with_context :: "string \<Rightarrow> string + 'a \<Rightarrow> string + 'a" where
  "with_context c x = map_sum (\<lambda>_. c) id x"

text \<open>The escrow address and the endpoint are configured texts; parsing them and the call are
  parameters.\<close>

definition fetch_session ::
  "(string \<Rightarrow> string + bytes) \<Rightarrow> (string \<Rightarrow> string + 'url) \<Rightarrow> ('url \<Rightarrow> bytes \<Rightarrow> u64 \<Rightarrow> string + bytes) \<Rightarrow>
   string \<Rightarrow> string \<Rightarrow> u64 \<Rightarrow> string + chain_session" where
  "fetch_session parse_address parse_url call_sessions escrow_contract rpc_url sid =
     bind_sum (with_context ''invalid escrow_contract'' (parse_address (trim escrow_contract))) (\<lambda>escrow.
       if escrow = zero_address then Inl ''escrow_contract is zero address''
       else
         bind_sum (with_context ''invalid rpc_url'' (parse_url (trim rpc_url))) (\<lambda>url.
         bind_sum (map_sum (\<lambda>e. ''sessions() eth_call failed: '' @ e) id (call_sessions url escrow sid)) (\<lambda>raw.
           with_context ''sessions() returndata decode failed'' (decode_session_head raw))))"

section \<open>What the decoder reads\<close>

text \<open>The ABI head of a session, word by word; words 6 to 9 carry fields the router does not use.\<close>

definition abi_word :: "bytes \<Rightarrow> bytes" where
  "abi_word bs = replicate (32 - length bs) 0 @ bs"

definition abi_head :: "chain_session \<Rightarrow> nat \<Rightarrow> nat \<Rightarrow> bytes list \<Rightarrow> bytes" where
  "abi_head s locked usage unused =
     concat ([abi_word (cs_user s), cs_node_id s, cs_model_id s, abi_word [cs_tier s],
       be_bytes 32 locked, be_bytes 32 usage] @ unused @
       [abi_word [if cs_settled s then 1 else 0], abi_word (u64_to_be (cs_input_tokens_recorded s)),
        abi_word (u64_to_be (cs_output_tokens_recorded s))])"

lemma length_concat_words: "list_all (\<lambda>w. length w = 32) ws \<Longrightarrow> length (concat ws) = 32 * length ws"
  by (induction ws) simp_all

lemma word_at_concat:
  "list_all (\<lambda>w. length w = 32) ws \<Longrightarrow> i < length ws \<Longrightarrow> word_at (concat ws @ tail) i = Inr (ws ! i)"
proof (induction ws arbitrary: i)
  case (Cons w ws)
  note len = length_concat_words [OF Cons.prems(1)]
  show ?case
  proof (cases i)
    case 0
    with Cons.prems len show ?thesis by (simp add: word_at_def)
  next
    case (Suc j)
    with Cons have "word_at (concat ws @ tail) j = Inr (ws ! j)" by simp
    with Suc Cons.prems show ?thesis
      by (auto simp: word_at_def Let_def split: if_splits)
  qed
qed simp

lemma word_at_short: "word_at data i = Inr w \<Longrightarrow> length w = 32"
  by (auto simp: word_at_def Let_def split: if_splits)

lemma length_abi_word: "length bs \<le> 32 \<Longrightarrow> length (abi_word bs) = 32"
  by (simp add: abi_word_def)

lemma drop_abi_word: "length bs = 32 - k \<Longrightarrow> k \<le> 32 \<Longrightarrow> drop k (abi_word bs) = bs"
  by (simp add: abi_word_def)

text \<open>Returned data that carries the offset word decodes exactly when a whole head follows the
  offset; no other length is accepted.\<close>

theorem decode_needs_whole_head:
  assumes "be_nat (take 32 data) = session_struct_offset" "32 \<le> length data"
  shows "(\<exists>s. decode_session_head data = Inr s) \<longleftrightarrow> 14 * 32 \<le> length data"
proof -
  have off: "u256_at data 0 = Inr session_struct_offset"
    using assms by (simp add: u256_at_def word_at_def)
  have ok: "word_at (drop session_struct_offset data) i = Inr (take 32 (drop (i * 32) (drop session_struct_offset data)))"
    if "14 * 32 \<le> length data" "i < 13" for i
    using that by (simp add: word_at_def session_struct_offset_def Let_def)
  show ?thesis
  proof (cases "14 * 32 \<le> length data")
    case True
    then have "session_head_bytes data = Inr (drop session_struct_offset data)"
      using off assms(2) by (simp add: session_head_bytes_def session_struct_offset_def session_head_words_def)
    then show ?thesis
      using True ok [OF True]
      by (simp add: decode_session_head_def bind_sum_def address_at_def bytes32_at_def u8_at_def
          u256_at_def u64_at_def bool_at_def)
  next
    case False
    then show ?thesis
      using off assms(2)
      by (simp add: decode_session_head_def session_head_bytes_def session_struct_offset_def
          session_head_words_def bind_sum_def)
  qed
qed

theorem decode_needs_whole_head_witness:
  "\<not> (\<exists>s. decode_session_head (be_bytes 32 session_struct_offset @ replicate 415 0) = Inr s)"
proof -
  have "be_nat (be_bytes 32 session_struct_offset) = session_struct_offset"
    by (simp add: be_nat_be_bytes session_struct_offset_def del: be_bytes.simps)
  then show ?thesis
    using decode_needs_whole_head [of "be_bytes 32 session_struct_offset @ replicate 415 0"] by simp
qed

text \<open>C30: A session encoded by the contract, behind its offset word and before any dynamic tail,
  decodes to itself; balances above \<open>u128\<close> saturate.\<close>

theorem decode_session_roundtrip:
  assumes "length (cs_user s) = 20" "length (cs_node_id s) = 32" "length (cs_model_id s) = 32"
    and "length unused = 4" "list_all (\<lambda>w. length w = 32) unused"
    and "locked < 2 ^ 256" "usage < 2 ^ 256"
    and "cs_locked_internal s = u128_saturating locked" "cs_usage_recorded s = u128_saturating usage"
  shows "decode_session_head (be_bytes 32 session_struct_offset @ abi_head s locked usage unused @ tail) = Inr s"
proof -
  let ?ws = "[abi_word (cs_user s), cs_node_id s, cs_model_id s, abi_word [cs_tier s],
      be_bytes 32 locked, be_bytes 32 usage] @ unused @
      [abi_word [if cs_settled s then 1 else 0], abi_word (u64_to_be (cs_input_tokens_recorded s)),
       abi_word (u64_to_be (cs_output_tokens_recorded s))]"
  obtain u0 u1 u2 u3 where u: "unused = [u0, u1, u2, u3]"
    using assms(4) by (auto simp: length_Suc_conv eval_nat_numeral)
  have wf: "list_all (\<lambda>w. length w = 32) ?ws"
    using assms(1-5) by (simp add: length_abi_word)
  have at: "word_at (concat ?ws @ tail) i = Inr (?ws ! i)" if "i < 13" for i
    using word_at_concat [OF wf, of i tail] that assms(4) by simp
  have len: "length (concat ?ws) = 416"
    using length_concat_words [OF wf] assms(4) by simp
  have head: "session_head_bytes (be_bytes 32 session_struct_offset @ concat ?ws @ tail) = Inr (concat ?ws @ tail)"
    using len by (simp add: session_head_bytes_def u256_at_def word_at_def session_struct_offset_def
        session_head_words_def be_nat_be_bytes del: be_bytes.simps)
  have "be_nat (be_bytes 32 locked) = locked" "be_nat (be_bytes 32 usage) = usage"
    using assms(6,7) by (simp_all add: be_nat_be_bytes)
  then show ?thesis
    unfolding abi_head_def decode_session_head_def head bind_sum_def
    using at assms(1,8,9)
    by (simp add: u address_at_def bytes32_at_def u8_at_def u256_at_def u64_at_def bool_at_def
        drop_abi_word del: concat.simps be_bytes.simps)
      (simp add: abi_word_def nth_append)
qed

definition sample_session :: chain_session where
  "sample_session =
     \<lparr>cs_user = replicate 20 9, cs_node_id = replicate 32 5, cs_model_id = replicate 32 4, cs_tier = 2,
      cs_locked_internal = 1000, cs_usage_recorded = 10, cs_input_tokens_recorded = 3,
      cs_output_tokens_recorded = 4, cs_settled = False\<rparr>"

theorem decode_session_roundtrip_witness:
  "decode_session_head (be_bytes 32 session_struct_offset @
     abi_head sample_session 1000 10 (replicate 4 (replicate 32 0)) @ [1, 2, 3]) = Inr sample_session"
  by (rule decode_session_roundtrip)
    (simp_all add: sample_session_def u128_saturating_def list_all_iff)

end
