(* ===== verification/Chain_Cache.thy ===== *)
theory Chain_Cache
  imports Chain_Session Router_Interfaces "HOL-Library.AList"
begin

text \<open>
  The verifier of sessions with its cache (\<open>ChainVerifier\<close> of \<open>src/chain/mod.rs\<close>). The cache keeps
  what was fetched, with the time it was put in; an entry is gone once it is as old as the time to
  live. \<open>fetch\<close> is what the chain answers during one operation.
\<close>

type_synonym session_fetch = "u64 \<Rightarrow> string + chain_session"

record verifier =
  cv_ttl :: int
  cv_cache :: "(u64 \<times> chain_session \<times> int) list"

definition new_verifier :: "u64 \<Rightarrow> verifier" where
  "new_verifier session_cache_ttl_secs = \<lparr>cv_ttl = secs (max session_cache_ttl_secs 1), cv_cache = []\<rparr>"

definition cached_entry :: "verifier \<Rightarrow> u64 \<Rightarrow> (chain_session \<times> int) option" where
  "cached_entry v sid = map_of (cv_cache v) sid"

definition cache_store :: "u64 \<Rightarrow> chain_session \<times> int \<Rightarrow> verifier \<Rightarrow> verifier" where
  "cache_store sid e v = v\<lparr>cv_cache := AList.update sid e (cv_cache v)\<rparr>"

definition evict_session :: "u64 \<Rightarrow> verifier \<Rightarrow> verifier" where
  "evict_session sid v = v\<lparr>cv_cache := AList.delete sid (cv_cache v)\<rparr>"

interpretation cache: keyed_table cached_entry cache_store evict_session
  by unfold_locales
    (simp_all add: cached_entry_def cache_store_def evict_session_def update_conv' delete_conv')

definition cache_get :: "int \<Rightarrow> u64 \<Rightarrow> verifier \<Rightarrow> chain_session option" where
  "cache_get now sid v =
     (case cached_entry v sid of
        Some (s, t) \<Rightarrow> if now < t + cv_ttl v then Some s else None
      | None \<Rightarrow> None)"

definition get_session :: "session_fetch \<Rightarrow> int \<Rightarrow> u64 \<Rightarrow> verifier \<Rightarrow> (string + chain_session) \<times> verifier" where
  "get_session fetch now sid v =
     (case cache_get now sid v of
        Some s \<Rightarrow> (Inr s, v)
      | None \<Rightarrow>
          (case fetch sid of
             Inl e \<Rightarrow> (Inl e, v)
           | Inr s \<Rightarrow> (Inr s, if is_open s then cache_store sid (s, now) v else v)))"

definition warm_session :: "session_fetch \<Rightarrow> int \<Rightarrow> u64 \<Rightarrow> verifier \<Rightarrow> verifier" where
  "warm_session fetch now sid v =
     (case fetch sid of
        Inr s \<Rightarrow> if is_open s then cache_store sid (s, now) v else v
      | Inl e \<Rightarrow> v)"

section \<open>The node registry on the chain\<close>

text \<open>\<open>src/chain/registry.rs\<close>: the contract address and the endpoint are configured texts; parsing them
  and the calls are parameters.\<close>

definition fetch_node_operator ::
  "(string \<Rightarrow> string + bytes) \<Rightarrow> (string \<Rightarrow> string + 'url) \<Rightarrow> ('url \<Rightarrow> bytes \<Rightarrow> node_id \<Rightarrow> string + bytes) \<Rightarrow>
   string \<Rightarrow> string \<Rightarrow> node_id \<Rightarrow> string + bytes" where
  "fetch_node_operator parse_address parse_url call_operator registry_contract rpc_url n =
     bind_sum (with_context ''invalid registry_contract'' (parse_address (trim registry_contract))) (\<lambda>registry.
       if registry = zero_address then Inl ''registry_contract is zero address''
       else
         bind_sum (with_context ''invalid rpc_url'' (parse_url (trim rpc_url))) (\<lambda>url.
           with_context ''nodeOperator() eth_call failed'' (call_operator url registry n)))"

definition fetch_latest_block ::
  "(string \<Rightarrow> string + 'url) \<Rightarrow> ('url \<Rightarrow> string + u64) \<Rightarrow> string \<Rightarrow> string + u64" where
  "fetch_latest_block parse_url call_block_number rpc_url =
     bind_sum (with_context ''invalid rpc_url'' (parse_url (trim rpc_url))) (\<lambda>url.
       with_context ''get_block_number failed'' (call_block_number url))"

text \<open>\<open>ChainVerifier::latest_block\<close>.\<close>

definition latest_block :: "(string \<Rightarrow> string + 'url) \<Rightarrow> ('url \<Rightarrow> string + u64) \<Rightarrow> string \<Rightarrow> string + u64" where
  "latest_block parse_url call_block_number rpc_url = fetch_latest_block parse_url call_block_number rpc_url"

definition operator_registered :: "(node_id \<Rightarrow> string + bytes) \<Rightarrow> node_id \<Rightarrow> string + bool" where
  "operator_registered node_operator n = map_sum id (\<lambda>op. op \<noteq> zero_address) (node_operator n)"

text \<open>With the chain disabled every node counts as registered.\<close>

definition is_node_registered :: "bool \<Rightarrow> (node_id \<Rightarrow> string + bytes) \<Rightarrow> node_id \<Rightarrow> string + bool" where
  "is_node_registered enabled node_operator n =
     (if \<not> enabled then Inr True else operator_registered node_operator n)"

text \<open>A node is taken for registered on the chain exactly when contract and endpoint are usable and the
  contract names an operator for it; every failure on the way is an error, never a registration.\<close>

theorem registered_exactly:
  "is_node_registered True (fetch_node_operator parse_address parse_url call_operator contract rpc) n = Inr True \<longleftrightarrow>
    (\<exists>registry url operator. parse_address (trim contract) = Inr registry \<and> registry \<noteq> zero_address \<and>
      parse_url (trim rpc) = Inr url \<and> call_operator url registry n = Inr operator \<and> operator \<noteq> zero_address)"
  by (auto simp: is_node_registered_def operator_registered_def fetch_node_operator_def bind_sum_def with_context_def map_sum_def
      split: sum.splits)

section \<open>What the cache may answer\<close>

datatype verifier_event =
    GetSession session_fetch int u64
  | WarmSession session_fetch int u64
  | EvictSession u64

fun verifier_step :: "verifier \<Rightarrow> verifier_event \<Rightarrow> verifier option" where
  "verifier_step v (GetSession fetch now sid) = Some (snd (get_session fetch now sid v))"
| "verifier_step v (WarmSession fetch now sid) = Some (warm_session fetch now sid v)"
| "verifier_step v (EvictSession sid) = Some (evict_session sid v)"

text \<open>The event fetched session \<open>s\<close> of id \<open>sid\<close> from the chain at time \<open>t\<close>.\<close>

fun fetched :: "verifier_event \<Rightarrow> u64 \<Rightarrow> chain_session \<Rightarrow> int \<Rightarrow> bool" where
  "fetched (GetSession fetch now sid') sid s t = (sid' = sid \<and> now = t \<and> fetch sid = Inr s)"
| "fetched (WarmSession fetch now sid') sid s t = (sid' = sid \<and> now = t \<and> fetch sid = Inr s)"
| "fetched (EvictSession sid') sid s t = False"

lemma cache_step_entry:
  assumes "verifier_step v e = Some w" "cached_entry w sid = Some (s, t)"
  shows "cached_entry v sid = Some (s, t) \<or> is_open s \<and> fetched e sid s t"
  using assms by (cases e)
    (auto simp: get_session_def warm_session_def cache.table_laws split: option.splits sum.splits if_splits)

lemma cached_entries_fetched:
  assumes "run_steps verifier_step v es = Some w" "cached_entry w sid = Some (s, t)"
  shows "cached_entry v sid = Some (s, t) \<or> is_open s \<and> (\<exists>e \<in> set es. fetched e sid s t)"
  using assms
proof (induction es arbitrary: v)
  case (Cons e es)
  from Cons.prems(1) obtain u where u: "verifier_step v e = Some u" "run_steps verifier_step u es = Some w"
    by (auto split: option.splits)
  from Cons.IH [OF u(2) Cons.prems(2)] cache_step_entry [OF u(1)] show ?case
    by auto
qed simp

lemma ttl_step: "verifier_step v e = Some w \<Longrightarrow> cv_ttl w = cv_ttl v"
  by (cases e) (auto simp: get_session_def warm_session_def cache_store_def evict_session_def
      split: option.splits sum.splits if_splits)

lemma ttl_run: "run_steps verifier_step v es = Some w \<Longrightarrow> cv_ttl w = cv_ttl v"
  by (induction es arbitrary: v) (auto split: option.splits dest: ttl_step)

text \<open>C25: After any history of lookups, warm-ups and evictions, a lookup answers either with what the
  chain says now or with an open session that the chain reported less than the time to live ago;
  closed and settled sessions are never answered from the cache.\<close>

theorem session_answers_fresh_or_recent:
  assumes "run_steps verifier_step (new_verifier ttl) es = Some v"
    and "fst (get_session fetch now sid v) = Inr s"
  shows "fetch sid = Inr s \<or>
    is_open s \<and> (\<exists>e \<in> set es. \<exists>t. fetched e sid s t \<and> now < t + secs (max ttl 1))"
proof (cases "cache_get now sid v")
  case None
  with assms(2) show ?thesis
    by (auto simp: get_session_def split: sum.splits)
next
  case (Some s')
  with assms(2) have "s' = s" by (simp add: get_session_def)
  with Some obtain t where t: "cached_entry v sid = Some (s, t)" "now < t + cv_ttl v"
    by (auto simp: cache_get_def split: option.splits if_splits)
  have "cv_ttl v = secs (max ttl 1)"
    using ttl_run [OF assms(1)] by (simp add: new_verifier_def)
  moreover have "is_open s \<and> (\<exists>e \<in> set es. fetched e sid s t)"
    using cached_entries_fetched [OF assms(1) t(1)]
    by (simp add: cached_entry_def new_verifier_def)
  ultimately show ?thesis
    using t(2) by auto
qed

theorem session_answers_fresh_or_recent_witness:
  "fst (get_session (\<lambda>_. Inl ''down'') 105 7 (warm_session (\<lambda>_. Inr sample_session) 100 7 (new_verifier 12))) =
     Inr sample_session \<and> is_open sample_session"
proof -
  have run: "run_steps verifier_step (new_verifier 12) [WarmSession (\<lambda>_. Inr sample_session) 100 7] =
      Some (warm_session (\<lambda>_. Inr sample_session) 100 7 (new_verifier 12))"
    by simp
  have "is_open sample_session"
    by (simp add: is_open_def sample_session_def zero_address_def)
  then have got: "fst (get_session (\<lambda>_. Inl ''down'') 105 7
      (warm_session (\<lambda>_. Inr sample_session) 100 7 (new_verifier 12))) = Inr sample_session"
    by (simp add: get_session_def warm_session_def cache_get_def cache.table_laws)
      (simp add: cache_store_def new_verifier_def max_def word_le_nat_alt secs_def)
  from session_answers_fresh_or_recent [OF run got] got show ?thesis by simp
qed

end
