(* ===== verification/Consumer_Auth.thy ===== *)
theory Consumer_Auth
  imports Chain_Cache Json_Value
begin

text \<open>
  Who may use the consumer API: bearer tokens (\<open>src/consumer/bearer.rs\<close>), the session check in front
  of the protected routes (\<open>src/consumer/middleware.rs\<close>) and the authenticated session of
  \<open>src/state.rs\<close>. Base58 is a package and a parameter.
\<close>

section \<open>Bearer tokens\<close>

definition parse_sk_bearer :: "(string \<Rightarrow> string + bytes) \<Rightarrow> string \<Rightarrow> string + u64" where
  "parse_sk_bearer b58_dec token =
     (case strip_prefix ''sk_'' token of
        None \<Rightarrow> Inl ''bearer token must start with sk_''
      | Some raw \<Rightarrow>
          (case b58_dec raw of
             Inl e \<Rightarrow> Inl ''invalid base58 in bearer token''
           | Inr bs \<Rightarrow>
               if length bs \<noteq> 64 then Inl ''sk_ token must decode to 64 bytes''
               else
                 (let session_bytes = take 32 bs in
                  if take 24 session_bytes \<noteq> replicate 24 0
                  then Inl ''session id exceeds u64 range in bearer token''
                  else Inr (u64_from_be (take 8 (drop 24 session_bytes))))))"

definition parse_authorization_header :: "(string \<Rightarrow> string + bytes) \<Rightarrow> string \<Rightarrow> string + u64" where
  "parse_authorization_header b58_dec authz =
     (case (case strip_prefix ''Bearer '' authz of
              Some t \<Rightarrow> Some t
            | None \<Rightarrow> strip_prefix ''bearer '' authz) of
        None \<Rightarrow> Inl ''Authorization must be Bearer sk_...''
      | Some t \<Rightarrow> parse_sk_bearer b58_dec (trim t))"

lemma parse_sk_bearer_ok:
  "parse_sk_bearer dec token = Inr sid \<longleftrightarrow>
    (\<exists>raw secret. token = ''sk_'' @ raw \<and>
      dec raw = Inr (replicate 24 0 @ u64_to_be sid @ secret) \<and> length secret = 32)"
proof
  assume "parse_sk_bearer dec token = Inr sid"
  then obtain raw bs where raw: "strip_prefix ''sk_'' token = Some raw" "dec raw = Inr bs" "length bs = 64"
    "take 24 (take 32 bs) = replicate 24 0" "sid = u64_from_be (take 8 (drop 24 (take 32 bs)))"
    by (auto simp: parse_sk_bearer_def Let_def split: option.splits sum.splits if_splits)
  have token: "token = ''sk_'' @ raw"
    using raw(1) by (simp only: strip_prefix_Some_iff)
  have "bs = take 24 bs @ take 8 (drop 24 bs) @ drop 32 bs"
    using append_take_drop_id [of 24 bs] append_take_drop_id [of 8 "drop 24 bs"] by simp
  moreover have "take 24 bs = replicate 24 0"
    using raw(4) by (simp add: min_def)
  moreover have "take 8 (drop 24 bs) = u64_to_be sid"
    using raw(3,5) by (simp add: u64_to_from_be drop_take)
  ultimately have "bs = replicate 24 0 @ u64_to_be sid @ drop 32 bs" by simp
  with token raw(2,3) show "\<exists>raw secret. token = ''sk_'' @ raw \<and>
      dec raw = Inr (replicate 24 0 @ u64_to_be sid @ secret) \<and> length secret = 32"
    by (intro exI [of _ raw] exI [of _ "drop 32 bs"]) simp
next
  assume "\<exists>raw secret. token = ''sk_'' @ raw \<and>
      dec raw = Inr (replicate 24 0 @ u64_to_be sid @ secret) \<and> length secret = 32"
  then obtain raw secret where t: "token = ''sk_'' @ raw"
    "dec raw = Inr (replicate 24 0 @ u64_to_be sid @ secret)" "length secret = 32" by blast
  show "parse_sk_bearer dec token = Inr sid"
    unfolding parse_sk_bearer_def t(1) strip_prefix_append using t(2,3)
    by (simp add: Let_def)
qed

text \<open>An authorization header is taken for session \<open>sid\<close> exactly when, after \<open>Bearer\<close> and white
  space, it is \<open>sk_\<close> and the base58 form of the 32-byte big-endian session id followed by a 32-byte
  secret; in particular an id above 64 bits never passes.\<close>

theorem bearer_decodes_session:
  "parse_authorization_header dec authz = Inr sid \<longleftrightarrow>
    (\<exists>scheme t raw secret. scheme \<in> {''Bearer '', ''bearer ''} \<and> authz = scheme @ t \<and>
      trim t = ''sk_'' @ raw \<and>
      dec raw = Inr (replicate 24 0 @ u64_to_be sid @ secret) \<and> length secret = 32)"
proof -
  have excl: "strip_prefix ''Bearer '' (''bearer '' @ t) = None" for t
    by (simp add: strip_prefix_def)
  have "parse_authorization_header dec authz = Inr sid \<longleftrightarrow>
      (\<exists>scheme t. scheme \<in> {''Bearer '', ''bearer ''} \<and> authz = scheme @ t \<and>
        parse_sk_bearer dec (trim t) = Inr sid)"
  proof
    assume "parse_authorization_header dec authz = Inr sid"
    then show "\<exists>scheme t. scheme \<in> {''Bearer '', ''bearer ''} \<and> authz = scheme @ t \<and>
        parse_sk_bearer dec (trim t) = Inr sid"
      by (auto simp: parse_authorization_header_def strip_prefix_Some_iff split: option.splits)
  next
    assume "\<exists>scheme t. scheme \<in> {''Bearer '', ''bearer ''} \<and> authz = scheme @ t \<and>
        parse_sk_bearer dec (trim t) = Inr sid"
    then obtain scheme t where st: "scheme = ''Bearer '' \<or> scheme = ''bearer ''" "authz = scheme @ t"
      "parse_sk_bearer dec (trim t) = Inr sid" by blast
    from st(1) show "parse_authorization_header dec authz = Inr sid"
    proof
      assume "scheme = ''Bearer ''"
      with st(2,3) show ?thesis
        by (simp only: parse_authorization_header_def strip_prefix_append option.case)
    next
      assume "scheme = ''bearer ''"
      with st(2,3) show ?thesis
        by (simp only: parse_authorization_header_def excl strip_prefix_append option.case)
    qed
  qed
  then show ?thesis
    by (simp only: parse_sk_bearer_ok) blast
qed

section \<open>The session check\<close>

record authenticated_session =
  as_session_id :: u64
  as_user :: bytes
  as_node_id :: bytes
  as_locked_internal :: u128
  as_usage_recorded :: u128

definition auth_budget_exhausted :: "authenticated_session \<Rightarrow> bool" where
  "auth_budget_exhausted a \<longleftrightarrow> as_locked_internal a \<le> as_usage_recorded a \<and> 0 < as_locked_internal a"

text \<open>A refusal is a status code and a message; \<open>auth_header\<close> is the header when it is readable text.\<close>

definition require_v1_session ::
  "(string \<Rightarrow> string + bytes) \<Rightarrow> bool \<Rightarrow> session_fetch \<Rightarrow> int \<Rightarrow> (node_id \<Rightarrow> bool) \<Rightarrow> string option \<Rightarrow> verifier \<Rightarrow>
   (nat \<times> string + authenticated_session) \<times> verifier" where
  "require_v1_session b58_dec enforce_budget fetch now has_tunnel auth_header v =
     (case auth_header of
        None \<Rightarrow> (Inl (401, ''missing Authorization header''), v)
      | Some authz \<Rightarrow>
          (case parse_authorization_header b58_dec authz of
             Inl e \<Rightarrow> (Inl (400, e), v)
           | Inr sid \<Rightarrow>
               (let (r, v') = get_session fetch now sid v in
                case r of
                  Inl e \<Rightarrow> (Inl (401, ''failed to verify session: '' @ e), v')
                | Inr s \<Rightarrow>
                    if \<not> session_is_open s then (Inl (401, ''session not open''), v')
                    else if enforce_budget \<and> budget_exhausted s
                    then (Inl (402, ''session prepaid balance exhausted''), v')
                    else if \<not> has_tunnel (cs_node_id s) then (Inl (503, ''provider node offline''), v')
                    else
                      (Inr \<lparr>as_session_id = sid, as_user = cs_user s, as_node_id = cs_node_id s,
                            as_locked_internal = cs_locked_internal s,
                            as_usage_recorded = cs_usage_recorded s\<rparr>, v'))))"

lemma require_v1_session_ok:
  "fst (require_v1_session dec enforce fetch now has_tunnel hdr v) = Inr a \<longleftrightarrow>
    (\<exists>authz sid s. hdr = Some authz \<and> parse_authorization_header dec authz = Inr sid \<and>
      fst (get_session fetch now sid v) = Inr s \<and> is_open s \<and> \<not> (enforce \<and> budget_exhausted s) \<and>
      has_tunnel (cs_node_id s) \<and>
      a = \<lparr>as_session_id = sid, as_user = cs_user s, as_node_id = cs_node_id s,
           as_locked_internal = cs_locked_internal s, as_usage_recorded = cs_usage_recorded s\<rparr>)"
  by (auto simp: require_v1_session_def split: option.splits sum.splits prod.splits)


text \<open>A session without budget is turned away with 402 while budgets are enforced, whatever the
  state of its node, and an admitted session under enforcement has budget left.\<close>

theorem budget_enforced:
  assumes "parse_authorization_header dec authz = Inr sid" "fst (get_session fetch now sid v) = Inr s" "is_open s"
  shows "(budget_exhausted s \<longrightarrow>
      fst (require_v1_session dec True fetch now has_tunnel (Some authz) v) =
        Inl (402, ''session prepaid balance exhausted'')) \<and>
    (\<forall>a. fst (require_v1_session dec True fetch now has_tunnel (Some authz) v) = Inr a \<longrightarrow>
      \<not> auth_budget_exhausted a)"
  using assms
  by (auto simp: require_v1_session_def auth_budget_exhausted_def budget_exhausted_def
      split: option.splits sum.splits prod.splits if_splits)

lemma sample_bearer:
  "parse_authorization_header (\<lambda>_. Inr (replicate 24 0 @ u64_to_be 7 @ replicate 32 1)) ''Bearer sk_x'' = Inr 7"
proof -
  have "strip_prefix ''Bearer '' ''Bearer sk_x'' = Some ''sk_x''"
    by (simp add: strip_prefix_def)
  moreover have "trim ''sk_x'' = ''sk_x''"
    by (rule trim_graph) (simp add: graph_char_def)
  ultimately show ?thesis
    by (auto simp: parse_authorization_header_def parse_sk_bearer_ok)
qed

theorem budget_enforced_witness:
  "fst (require_v1_session (\<lambda>_. Inr (replicate 24 0 @ u64_to_be 7 @ replicate 32 1)) True
      (\<lambda>_. Inr (sample_session\<lparr>cs_usage_recorded := 1000\<rparr>)) 0 (\<lambda>_. True) (Some ''Bearer sk_x'')
      (new_verifier 12)) = Inl (402, ''session prepaid balance exhausted'')"
proof -
  let ?s = "sample_session\<lparr>cs_usage_recorded := 1000\<rparr>"
  have "fst (get_session (\<lambda>_. Inr ?s) 0 7 (new_verifier 12)) = Inr ?s"
    by (simp add: get_session_def cache_get_def cached_entry_def new_verifier_def)
  moreover have "is_open ?s" "budget_exhausted ?s"
    by (simp_all add: is_open_def budget_exhausted_def sample_session_def zero_address_def)
  ultimately show ?thesis
    using budget_enforced [OF sample_bearer] by blast
qed

end
