(* ===== verification/Usage_Batch.thy ===== *)
theory Usage_Batch
  imports Chain_Cache
begin

text \<open>
  Per-session accumulation of token usage and its batched flush (\<open>src/consumer/usage_batch.rs\<close>).
  A flush hands one job to \<open>record_usage_with_retry\<close> (theory \<open>Usage_Submit\<close>); awaiting it or spawning
  it only changes when it runs, so a job is put on the list \<open>bt_jobs\<close>. One operation reads the clock
  once and sees one answer of the chain per session.
\<close>

record usage_batch =
  ub_watermark_input :: u64
  ub_watermark_output :: u64
  ub_pending_input :: u64
  ub_pending_output :: u64
  ub_last_flush_at :: int
  ub_last_activity :: int

record usage_config =
  uc_token_chunk :: u64
  uc_flush_interval_secs :: u64

record usage_batcher =
  bt_sessions :: "(u64 \<times> usage_batch) list"
  bt_jobs :: "(u64 \<times> u64 \<times> u64) list"
  bt_chain :: verifier

definition new_batch :: "u64 \<Rightarrow> u64 \<Rightarrow> int \<Rightarrow> usage_batch" where
  "new_batch wi wo now =
     \<lparr>ub_watermark_input = wi, ub_watermark_output = wo, ub_pending_input = 0, ub_pending_output = 0,
      ub_last_flush_at = now, ub_last_activity = now\<rparr>"

definition pending_total :: "usage_batch \<Rightarrow> u64" where
  "pending_total x = sat_add (ub_pending_input x) (ub_pending_output x)"

definition new_batcher :: "verifier \<Rightarrow> usage_batcher" where
  "new_batcher v = \<lparr>bt_sessions = [], bt_jobs = [], bt_chain = v\<rparr>"

definition batch_of :: "usage_batcher \<Rightarrow> u64 \<Rightarrow> usage_batch option" where
  "batch_of b sid = map_of (bt_sessions b) sid"

definition put_batch :: "u64 \<Rightarrow> usage_batch \<Rightarrow> usage_batcher \<Rightarrow> usage_batcher" where
  "put_batch sid x b = b\<lparr>bt_sessions := AList.update sid x (bt_sessions b)\<rparr>"

definition erase_batch :: "u64 \<Rightarrow> usage_batcher \<Rightarrow> usage_batcher" where
  "erase_batch sid b = b\<lparr>bt_sessions := AList.delete sid (bt_sessions b)\<rparr>"

interpretation batches: keyed_table batch_of put_batch erase_batch
  by unfold_locales
    (simp_all add: batch_of_def put_batch_def erase_batch_def update_conv' delete_conv')

section \<open>Operations\<close>

definition ensure_session :: "session_fetch \<Rightarrow> int \<Rightarrow> u64 \<Rightarrow> usage_batcher \<Rightarrow> usage_batcher" where
  "ensure_session fetch now sid b =
     (case batch_of b sid of
        Some x \<Rightarrow> b
      | None \<Rightarrow>
          (let (r, v) = get_session fetch now sid (bt_chain b);
               b1 = b\<lparr>bt_chain := v\<rparr> in
           case r of
             Inl e \<Rightarrow> b1
           | Inr s \<Rightarrow>
               put_batch sid (new_batch (cs_input_tokens_recorded s) (cs_output_tokens_recorded s) now) b1))"

text \<open>The two critical sections: adding to a batch and taking what it holds.\<close>

definition accumulate :: "u64 \<Rightarrow> u64 \<Rightarrow> u64 \<Rightarrow> int \<Rightarrow> usage_batcher \<Rightarrow> usage_batcher" where
  "accumulate sid input output now b =
     (case batch_of b sid of
        None \<Rightarrow> b
      | Some x \<Rightarrow>
          put_batch sid
            (x\<lparr>ub_pending_input := sat_add (ub_pending_input x) input,
               ub_pending_output := sat_add (ub_pending_output x) output,
               ub_last_activity := now\<rparr>) b)"

definition flush_due :: "usage_config \<Rightarrow> bool \<Rightarrow> int \<Rightarrow> usage_batch \<Rightarrow> bool" where
  "flush_due cfg force now x \<longleftrightarrow>
     pending_total x \<noteq> 0 \<and>
     (force \<or> \<not> (pending_total x < max (uc_token_chunk cfg) 1 \<and>
                  now - ub_last_flush_at x < secs (max (uc_flush_interval_secs cfg) 1)))"

definition take_batch :: "usage_config \<Rightarrow> bool \<Rightarrow> int \<Rightarrow> u64 \<Rightarrow> usage_batcher \<Rightarrow> usage_batcher \<times> bool" where
  "take_batch cfg force now sid b =
     (case batch_of b sid of
        None \<Rightarrow> (b, False)
      | Some x \<Rightarrow>
          if flush_due cfg force now x then
            ((put_batch sid
               (x\<lparr>ub_pending_input := 0, ub_pending_output := 0, ub_last_flush_at := now\<rparr>) b)
              \<lparr>bt_jobs := bt_jobs b @ [(sid, ub_pending_input x, ub_pending_output x)]\<rparr>, True)
          else (b, False))"

definition refresh_watermarks :: "session_fetch \<Rightarrow> int \<Rightarrow> u64 \<Rightarrow> usage_batcher \<Rightarrow> usage_batcher" where
  "refresh_watermarks fetch now sid b =
     (let (r, v) = get_session fetch now sid (bt_chain b); b1 = b\<lparr>bt_chain := v\<rparr> in
      case r of
        Inl e \<Rightarrow> b1
      | Inr s \<Rightarrow>
          (let b2 = (case batch_of b1 sid of
                       None \<Rightarrow> b1
                     | Some x \<Rightarrow>
                         put_batch sid
                           (x\<lparr>ub_watermark_input := cs_input_tokens_recorded s,
                              ub_watermark_output := cs_output_tokens_recorded s\<rparr>) b1) in
           b2\<lparr>bt_chain := warm_session fetch now sid (evict_session sid (bt_chain b2))\<rparr>))"

definition flush_session ::
  "usage_config \<Rightarrow> session_fetch \<Rightarrow> bool \<Rightarrow> int \<Rightarrow> u64 \<Rightarrow> usage_batcher \<Rightarrow> usage_batcher" where
  "flush_session cfg fetch force now sid b =
     (let (b1, taken) = take_batch cfg force now sid (ensure_session fetch now sid b) in
      if taken then refresh_watermarks fetch now sid b1 else b1)"

definition add_usage ::
  "usage_config \<Rightarrow> session_fetch \<Rightarrow> int \<Rightarrow> u64 \<Rightarrow> u64 \<Rightarrow> u64 \<Rightarrow> usage_batcher \<Rightarrow> usage_batcher" where
  "add_usage cfg fetch now sid input output b =
     (if input = 0 \<and> output = 0 then b
      else
        (let b1 = accumulate sid input output now (ensure_session fetch now sid b) in
         case batch_of b1 sid of
           None \<Rightarrow> b1
         | Some x \<Rightarrow>
             if max (uc_token_chunk cfg) 1 \<le> pending_total x
             then flush_session cfg fetch False now sid b1 else b1))"

definition force_flush :: "usage_config \<Rightarrow> session_fetch \<Rightarrow> int \<Rightarrow> u64 \<Rightarrow> usage_batcher \<Rightarrow> usage_batcher" where
  "force_flush cfg fetch now sid b = flush_session cfg fetch True now sid b"

definition remove_session :: "usage_config \<Rightarrow> session_fetch \<Rightarrow> int \<Rightarrow> u64 \<Rightarrow> usage_batcher \<Rightarrow> usage_batcher" where
  "remove_session cfg fetch now sid b = erase_batch sid (flush_session cfg fetch True now sid b)"

definition sweep_one :: "usage_config \<Rightarrow> session_fetch \<Rightarrow> int \<Rightarrow> usage_batcher \<Rightarrow> u64 \<Rightarrow> usage_batcher" where
  "sweep_one cfg fetch now b sid =
     (case batch_of b sid of
        None \<Rightarrow> b
      | Some x \<Rightarrow>
          if 0 < pending_total x \<and> secs (max (uc_flush_interval_secs cfg) 1) \<le> now - ub_last_flush_at x
          then flush_session cfg fetch True now sid b else b)"

definition sweep_timeouts :: "usage_config \<Rightarrow> session_fetch \<Rightarrow> int \<Rightarrow> usage_batcher \<Rightarrow> usage_batcher" where
  "sweep_timeouts cfg fetch now b = foldl (sweep_one cfg fetch now) b (map fst (bt_sessions b))"

definition flush_all_on_shutdown :: "usage_config \<Rightarrow> session_fetch \<Rightarrow> int \<Rightarrow> usage_batcher \<Rightarrow> usage_batcher" where
  "flush_all_on_shutdown cfg fetch now b =
     foldl (\<lambda>b sid. flush_session cfg fetch True now sid b) b (map fst (bt_sessions b))"

section \<open>Accounting\<close>

definition batch_tokens :: "usage_batch option \<Rightarrow> nat" where
  "batch_tokens x = (case x of None \<Rightarrow> 0 | Some x \<Rightarrow> unat (ub_pending_input x) + unat (ub_pending_output x))"

definition submitted :: "u64 \<Rightarrow> usage_batcher \<Rightarrow> nat" where
  "submitted sid b = (\<Sum>(s, i, u)\<leftarrow>filter (\<lambda>j. fst j = sid) (bt_jobs b). unat i + unat u)"

text \<open>The critical sections as events; operations of concurrent requests interleave at this grain.
  \<open>lost\<close> counts what is thrown away with an erased batch.\<close>

datatype batch_event =
    Ensure session_fetch int u64
  | Accumulate u64 u64 u64 int
  | Take bool int u64
  | Watermarks session_fetch int u64
  | Erase u64

fun batch_event_of :: "usage_config \<Rightarrow> usage_batcher \<Rightarrow> batch_event \<Rightarrow> usage_batcher" where
  "batch_event_of cfg b (Ensure fetch now sid) = ensure_session fetch now sid b"
| "batch_event_of cfg b (Accumulate sid i u now) = accumulate sid i u now b"
| "batch_event_of cfg b (Take force now sid) = fst (take_batch cfg force now sid b)"
| "batch_event_of cfg b (Watermarks fetch now sid) = refresh_watermarks fetch now sid b"
| "batch_event_of cfg b (Erase sid) = erase_batch sid b"

fun thrown_away :: "u64 \<Rightarrow> usage_batcher \<Rightarrow> batch_event \<Rightarrow> nat" where
  "thrown_away sid b (Erase sid') = (if sid' = sid then batch_tokens (batch_of b sid) else 0)"
| "thrown_away sid b _ = 0"

definition ledger_step ::
  "usage_config \<Rightarrow> u64 \<Rightarrow> usage_batcher \<times> nat \<Rightarrow> batch_event \<Rightarrow> (usage_batcher \<times> nat) option" where
  "ledger_step cfg sid s e =
     Some (batch_event_of cfg (fst s) e, snd s + thrown_away sid (fst s) e)"

text \<open>What one event adds for session \<open>sid\<close>: the usage of a request whose batch is there, up to the
  saturation of the counters.\<close>

fun credited :: "u64 \<Rightarrow> usage_batcher \<times> nat \<Rightarrow> batch_event \<Rightarrow> nat" where
  "credited sid s (Accumulate sid' i u now) =
     (case batch_of (fst s) sid of
        Some x \<Rightarrow>
          if sid' = sid then
            min (unat i) (2 ^ 64 - 1 - unat (ub_pending_input x)) +
            min (unat u) (2 ^ 64 - 1 - unat (ub_pending_output x))
          else 0
      | None \<Rightarrow> 0)"
| "credited sid s _ = 0"

definition ledger_level :: "u64 \<Rightarrow> usage_batcher \<times> nat \<Rightarrow> nat" where
  "ledger_level sid s = batch_tokens (batch_of (fst s) sid) + submitted sid (fst s) + snd s"

definition jobs_nonzero :: "usage_batcher \<times> nat \<Rightarrow> bool" where
  "jobs_nonzero s \<longleftrightarrow> (\<forall>(sid, i, u) \<in> set (bt_jobs (fst s)). i \<noteq> 0 \<or> u \<noteq> 0)"

lemma batch_of_frame [simp, frame_simps]:
  "batch_of (b\<lparr>bt_chain := v\<rparr>) sid = batch_of b sid"
  "batch_of (b\<lparr>bt_jobs := js\<rparr>) sid = batch_of b sid"
  by (simp_all add: batch_of_def)

lemma jobs_frame [simp, frame_simps]:
  "bt_jobs (put_batch sid x b) = bt_jobs b" "bt_jobs (erase_batch sid b) = bt_jobs b"
  by (simp_all add: put_batch_def erase_batch_def)

lemma submitted_frame [simp, frame_simps]:
  "submitted sid (b\<lparr>bt_chain := v\<rparr>) = submitted sid b"
  "submitted sid (put_batch sid' x b) = submitted sid b"
  "submitted sid (erase_batch sid' b) = submitted sid b"
  "submitted sid (b\<lparr>bt_jobs := js @ [(sid', i, u)]\<rparr>) =
    submitted sid (b\<lparr>bt_jobs := js\<rparr>) + (if sid' = sid then unat i + unat u else 0)"
  by (simp_all add: submitted_def)

lemma submitted_same_jobs: "bt_jobs b = js \<Longrightarrow> submitted sid (b'\<lparr>bt_jobs := js\<rparr>) = submitted sid b"
  by (simp add: submitted_def)

lemma tokens_new_batch [simp]: "batch_tokens (Some (new_batch wi wo now)) = 0"
  by (simp add: batch_tokens_def new_batch_def)

lemma ensure_session_ledger [simp]:
  "batch_tokens (batch_of (ensure_session fetch now sid b) k) = batch_tokens (batch_of b k)"
  "bt_jobs (ensure_session fetch now sid b) = bt_jobs b"
  by (auto simp: ensure_session_def Let_def batches.table_laws split: option.split prod.split sum.split)
    (simp add: batch_tokens_def)

lemma refresh_watermarks_ledger [simp]:
  "batch_tokens (batch_of (refresh_watermarks fetch now sid b) k) = batch_tokens (batch_of b k)"
  "bt_jobs (refresh_watermarks fetch now sid b) = bt_jobs b"
  by (auto simp: refresh_watermarks_def Let_def batches.table_laws batch_tokens_def
      split: option.split prod.split sum.split)

lemma submitted_cong: "bt_jobs b = bt_jobs b' \<Longrightarrow> submitted sid b = submitted sid b'"
  by (simp add: submitted_def)

lemma take_batch_ledger:
  "batch_tokens (batch_of (fst (take_batch cfg force now sid' b)) sid) +
     submitted sid (fst (take_batch cfg force now sid' b)) =
   batch_tokens (batch_of b sid) + submitted sid b"
  by (auto simp: take_batch_def batches.table_laws batch_tokens_def submitted_def split: option.split)

lemma pending_total_eq_0: "pending_total x = 0 \<longleftrightarrow> ub_pending_input x = 0 \<and> ub_pending_output x = 0"
  by (simp add: pending_total_def sat_add_eq_0_iff)

lemma unat_sat_add_diff: "unat (sat_add a b) = unat a + min (unat b) (2 ^ 64 - 1 - unat a)" for a b :: u64
  using unat_below [of a] by (simp add: unat_sat_add)

lemma accumulate_ledger:
  "batch_tokens (batch_of (accumulate sid' i u now b) sid) =
     batch_tokens (batch_of b sid) + credited sid (b, 0) (Accumulate sid' i u now)"
  by (simp add: accumulate_def batches.table_laws batch_tokens_def unat_sat_add_diff split: option.split)

interpretation ledger: measured_system "(new_batcher v, 0)" "ledger_step cfg sid" jobs_nonzero
  "ledger_level sid" "credited sid" for v cfg sid
proof unfold_locales
  show "jobs_nonzero (new_batcher v, 0)"
    by (simp add: jobs_nonzero_def new_batcher_def)
  show "jobs_nonzero t" if "jobs_nonzero s" "ledger_step cfg sid s e = Some t" for s e t
    using that by (cases e)
      (auto simp: ledger_step_def jobs_nonzero_def take_batch_def accumulate_def flush_due_def
        pending_total_eq_0 split: option.splits if_splits)
  show "ledger_level sid t = ledger_level sid s + credited sid s e"
    if "jobs_nonzero s" "ledger_step cfg sid s e = Some t" for s e t
  proof (cases e)
    case (Take force now sid')
    then show ?thesis
      using that(2) take_batch_ledger [of cfg force now sid' "fst s" sid]
      by (auto simp: ledger_step_def ledger_level_def)
  next
    case (Accumulate sid' i u now)
    moreover have "submitted sid (accumulate sid' i u now (fst s)) = submitted sid (fst s)"
      by (simp add: accumulate_def split: option.split)
    ultimately show ?thesis
      using that(2) accumulate_ledger [of sid' i u now "fst s" sid]
      by (auto simp: ledger_step_def ledger_level_def split: option.split)
  next
    case (Erase sid')
    then show ?thesis
      using that(2) by (auto simp: ledger_step_def ledger_level_def batches.table_laws batch_tokens_def)
  next
    case (Ensure fetch now sid')
    then show ?thesis
      using that(2) submitted_cong [of "ensure_session fetch now sid' (fst s)" "fst s"]
      by (auto simp: ledger_step_def ledger_level_def)
  next
    case (Watermarks fetch now sid')
    then show ?thesis
      using that(2) submitted_cong [of "refresh_watermarks fetch now sid' (fst s)" "fst s"]
      by (auto simp: ledger_step_def ledger_level_def)
  qed
qed

text \<open>C6: Usage is conserved. After any interleaving of the critical sections, what the batch of a
  session holds, what was handed to submission and what was thrown away by erasing a batch that was
  filled again after its flush add up to what was credited; and no job is ever empty.\<close>

theorem usage_conserved:
  assumes "run_steps (ledger_step cfg sid) (new_batcher v, 0) es = Some (b, lost)"
  shows "batch_tokens (batch_of b sid) + submitted sid b + lost =
      run_inflow (ledger_step cfg sid) (credited sid) (new_batcher v, 0) es \<and>
    (\<forall>(s, i, u) \<in> set (bt_jobs b). i \<noteq> 0 \<or> u \<noteq> 0)"
  using ledger.level_run [OF assms] ledger.inv_run [OF assms]
  by (simp add: ledger_level_def jobs_nonzero_def new_batcher_def batch_of_def batch_tokens_def submitted_def)

definition sample_cfg :: usage_config where
  "sample_cfg = \<lparr>uc_token_chunk = 10, uc_flush_interval_secs = 60\<rparr>"

theorem usage_conserved_witness:
  "\<exists>b lost. run_steps (ledger_step sample_cfg 7) (new_batcher (new_verifier 12), 0)
      [Ensure (\<lambda>_. Inr sample_session) 0 7, Accumulate 7 4 8 0, Accumulate 7 1 0 0, Erase 7] = Some (b, lost) \<and>
    batch_tokens (batch_of b 7) + submitted 7 b + lost = 13"
proof -
  let ?es = "[Ensure (\<lambda>_. Inr sample_session) 0 7, Accumulate 7 4 8 0, Accumulate 7 1 0 0, Erase 7]"
  let ?s0 = "(new_batcher (new_verifier 12), 0)"
  obtain b lost where run: "run_steps (ledger_step sample_cfg 7) ?s0 ?es = Some (b, lost)"
    by (simp add: ledger_step_def)
  define b1 where "b1 = ensure_session (\<lambda>_. Inr sample_session) 0 7 (new_batcher (new_verifier 12))"
  have b1: "batch_of b1 7 = Some (new_batch 3 4 0)"
    by (simp add: b1_def ensure_session_def get_session_def cache_get_def new_batcher_def
        cached_entry_def new_verifier_def sample_session_def batches.table_laws batch_of_def [of _ 7]
        put_batch_def)
  define b2 where "b2 = accumulate 7 4 8 0 b1"
  have b2: "batch_of b2 7 = Some ((new_batch 3 4 0)\<lparr>ub_pending_input := 4, ub_pending_output := 8\<rparr>)"
    by (simp add: b2_def accumulate_def b1 batches.table_laws) (simp add: new_batch_def)
  have "run_inflow (ledger_step sample_cfg 7) (credited 7) ?s0 ?es = 13"
    by (simp add: ledger_step_def b1 b2 flip: b1_def b2_def) (simp add: new_batch_def)
  with usage_conserved [OF run] run show ?thesis by auto
qed

section \<open>Single operations\<close>

lemma ensure_known [simp]: "batch_of b sid = Some x \<Longrightarrow> ensure_session fetch now sid b = b"
  by (simp add: ensure_session_def)

lemma flush_ledger:
  "batch_tokens (batch_of (flush_session cfg fetch force now sid' b) sid) +
     submitted sid (flush_session cfg fetch force now sid' b) =
   batch_tokens (batch_of b sid) + submitted sid b"
proof -
  obtain b1 taken where t: "take_batch cfg force now sid' (ensure_session fetch now sid' b) = (b1, taken)"
    by fastforce
  have "batch_tokens (batch_of b1 sid) + submitted sid b1 = batch_tokens (batch_of b sid) + submitted sid b"
    using take_batch_ledger [of cfg force now sid' "ensure_session fetch now sid' b" sid] t
      submitted_cong [of "ensure_session fetch now sid' b" b sid]
    by simp
  then show ?thesis
    using submitted_cong [of "refresh_watermarks fetch now sid' b1" b1 sid]
    by (simp add: flush_session_def t)
qed

lemma flush_empties:
  assumes "batch_of b sid = Some x" "flush_due cfg force now x \<or> pending_total x = 0"
  shows "batch_tokens (batch_of (flush_session cfg fetch force now sid b) sid) = 0"
  using assms
  by (auto simp: flush_session_def take_batch_def batches.table_laws)
    (auto simp: batch_tokens_def pending_total_eq_0 flush_due_def)

lemma batch_tokens_0: "batch_tokens (Some x) = 0 \<longleftrightarrow> pending_total x = 0"
  by (simp add: batch_tokens_def pending_total_eq_0 unat_eq_zero)



text \<open>A forced flush leaves nothing pending, and touches no other session.\<close>

lemma force_flush_tokens:
  "batch_tokens (batch_of (flush_session cfg fetch True now sid b) sid) = 0"
proof (cases "batch_of (ensure_session fetch now sid b) sid")
  case None
  then have "flush_session cfg fetch True now sid b = ensure_session fetch now sid b"
    by (simp add: flush_session_def take_batch_def)
  with None show ?thesis by (simp add: batch_tokens_def)
next
  case (Some x)
  have "flush_session cfg fetch True now sid b = flush_session cfg fetch True now sid (ensure_session fetch now sid b)"
    using Some by (simp add: flush_session_def)
  then show ?thesis
    using flush_empties [OF Some, of cfg True now fetch] by (simp add: flush_due_def)
qed

lemma flush_other_tokens:
  assumes "sid' \<noteq> sid"
  shows "batch_tokens (batch_of (flush_session cfg fetch force now sid' b) sid) = batch_tokens (batch_of b sid)"
proof -
  obtain b1 taken where t: "take_batch cfg force now sid' (ensure_session fetch now sid' b) = (b1, taken)"
    by fastforce
  then have "batch_of b1 sid = batch_of (ensure_session fetch now sid' b) sid"
    using assms by (auto simp: take_batch_def batches.table_laws split: option.splits if_splits)
  then show ?thesis
    by (simp add: flush_session_def t)
qed

text \<open>When a session ends with no request adding to it in between, everything its batch holds is
  handed to submission before the batch is dropped.\<close>

lemma remove_session_accounts:
  "batch_of (remove_session cfg fetch now sid b) sid = None \<and>
   submitted sid (remove_session cfg fetch now sid b) = batch_tokens (batch_of b sid) + submitted sid b"
  using flush_ledger [of cfg fetch True now sid b sid]
  by (simp add: remove_session_def batches.table_laws force_flush_tokens)

lemma flush_list_tokens:
  "batch_tokens (batch_of (foldl (\<lambda>b sid. flush_session cfg fetch True now sid b) b sids) sid) =
    (if sid \<in> set sids then 0 else batch_tokens (batch_of b sid))"
proof (induction sids arbitrary: b)
  case (Cons s sids)
  then show ?case
    by (cases "s = sid") (auto simp: force_flush_tokens flush_other_tokens)
qed simp

lemma flush_list_ledger:
  "batch_tokens (batch_of (foldl (\<lambda>b sid. flush_session cfg fetch True now sid b) b sids) sid) +
     submitted sid (foldl (\<lambda>b sid. flush_session cfg fetch True now sid b) b sids) =
   batch_tokens (batch_of b sid) + submitted sid b"
  by (induction sids arbitrary: b) (simp_all add: flush_ledger)

text \<open>The flush at shutdown loses no usage: afterwards no session has anything pending, and exactly
  what was pending has been handed to submission, also when the chain cannot be read.\<close>

lemma flush_all_accounts:
  "batch_tokens (batch_of (flush_all_on_shutdown cfg fetch now b) sid) = 0 \<and>
   submitted sid (flush_all_on_shutdown cfg fetch now b) = submitted sid b + batch_tokens (batch_of b sid)"
proof -
  have "batch_tokens (batch_of b sid) = 0" if "sid \<notin> fst ` set (bt_sessions b)"
    using that by (simp add: batch_tokens_def batch_of_def map_of_eq_None_iff [THEN iffD2])
  then have "batch_tokens (batch_of (flush_all_on_shutdown cfg fetch now b) sid) = 0"
    by (simp add: flush_all_on_shutdown_def flush_list_tokens)
  moreover have "batch_tokens (batch_of (flush_all_on_shutdown cfg fetch now b) sid) +
      submitted sid (flush_all_on_shutdown cfg fetch now b) = batch_tokens (batch_of b sid) + submitted sid b"
    unfolding flush_all_on_shutdown_def by (rule flush_list_ledger)
  ultimately show ?thesis by simp
qed

text \<open>Usage of a session that has no batch yet is dropped without a trace while the chain cannot be
  read, although its tokens were already served.\<close>

theorem usage_dropped_when_chain_down:
  assumes "batch_of b sid = None" "fetch sid = Inl e" "cache_get now sid (bt_chain b) = None"
  shows "bt_jobs (add_usage cfg fetch now sid input output b) = bt_jobs b \<and>
    batch_of (add_usage cfg fetch now sid input output b) = batch_of b"
  using assms
  by (simp add: add_usage_def ensure_session_def get_session_def accumulate_def Let_def fun_eq_iff)

theorem usage_dropped_when_chain_down_witness:
  "bt_jobs (add_usage sample_cfg (\<lambda>_. Inl ''down'') 5 7 100 200 (new_batcher (new_verifier 12))) = []"
  using usage_dropped_when_chain_down [of "new_batcher (new_verifier 12)" 7 "\<lambda>_. Inl ''down''" "''down''" 5]
  by (simp add: new_batcher_def batch_of_def cache_get_def cached_entry_def new_verifier_def)

end
