(* ===== verification/Forward.thy ===== *)
theory Forward
  imports Router_State Sse_Response Consumer_Auth Usage_Batch
begin

text \<open>
  The chat completion request (\<open>src/consumer/forward.rs\<close>): the checks in front of it, the admission,
  the forwarding over the node's tunnel and the answer. Parameters: JSON parsing and printing, the
  rounding \<open>rnd\<close> of 64-bit floats, and the outcome of the admission, which theory \<open>Capacity\<close> models
  as a protocol of concurrent tasks.
\<close>

datatype chat_error =
    ErrorResponse nat string string
  | CapacityExhausted (ce_active: u32) (ce_concurrency: u32) (ce_queued: u32) (ce_retry_after: nat)

fun chat_status :: "chat_error \<Rightarrow> nat" where
  "chat_status (ErrorResponse st ty msg) = st"
| "chat_status (CapacityExhausted a c q r) = 429"

section \<open>Reading the request\<close>

definition parse_stream_flag :: "(string \<Rightarrow> json option) \<Rightarrow> string \<Rightarrow> bool" where
  "parse_stream_flag parse body =
     (case Option.bind (Option.bind (parse body) (json_get ''stream'')) as_bool of
        Some b \<Rightarrow> b | None \<Rightarrow> False)"

definition parse_model :: "(string \<Rightarrow> json option) \<Rightarrow> string \<Rightarrow> string option" where
  "parse_model parse body = Option.bind (Option.bind (parse body) (json_get ''model'')) as_str"

text \<open>A header is a name with its value when that is readable text; of equal names the last stays.\<close>

definition headers_to_json :: "(string \<times> string option) list \<Rightarrow> json" where
  "headers_to_json headers =
     JObj (map (\<lambda>(k, s). (k, JStr s))
       (foldl (\<lambda>out (name, value). case value of Some s \<Rightarrow> AList.update name s out | None \<Rightarrow> out) [] headers))"

record chat_plan =
  cp_model :: string
  cp_tunnel :: nat
  cp_key :: cap_key
  cp_concurrency :: u32
  cp_max_queue :: u32
  cp_body :: string
  cp_stream :: bool

definition chat_checks ::
  "(string \<Rightarrow> json option) \<Rightarrow> (json \<Rightarrow> string option) \<Rightarrow> (rat \<Rightarrow> f64) \<Rightarrow> f64 \<Rightarrow>
   string \<Rightarrow> authenticated_session \<Rightarrow> router_state \<Rightarrow> chat_error + chat_plan" where
  "chat_checks parse print rnd queue_depth_ratio body auth rs =
     (let stream = parse_stream_flag parse body;
          body_str = (if stream then inject_stream_usage_option parse print body else body) in
      case parse_model parse body_str of
        None \<Rightarrow> Inl (ErrorResponse 400 ''model_not_found'' ''missing model in request body'')
      | Some model \<Rightarrow>
          if \<not> catalog_contains model (rs_models rs)
          then Inl (ErrorResponse 400 ''model_not_found'' (''unknown model: '' @ model))
          else
            (case registry_get rs (as_node_id auth) of
               None \<Rightarrow> Inl (ErrorResponse 503 ''provider_unavailable'' ''provider offline'')
             | Some i \<Rightarrow>
                 (let concurrency = concurrency_for (as_node_id auth) model (rs_models rs) in
                  Inr \<lparr>cp_model = model, cp_tunnel = i, cp_key = ModelCapacityKey (as_node_id auth) model,
                       cp_concurrency = concurrency,
                       cp_max_queue = max_queue_depth rnd concurrency queue_depth_ratio,
                       cp_body = body_str, cp_stream = stream\<rparr>)))"

section \<open>Admission and forwarding\<close>

fun capacity_exhausted_response :: "acquire_error \<Rightarrow> u32 \<Rightarrow> chat_error" where
  "capacity_exhausted_response (QueueFull active c queued) concurrency =
     CapacityExhausted active concurrency queued 15"
| "capacity_exhausted_response (WaitTimeout active c queued) concurrency =
     CapacityExhausted active concurrency queued 30"

definition emit_capacity :: "(bytes \<Rightarrow> string) \<Rightarrow> cap_key \<Rightarrow> u32 \<Rightarrow> router_state \<Rightarrow> router_state" where
  "emit_capacity enc key concurrency rs =
     (let (snap, s) = snapshot_with_concurrency key concurrency (rs_capacity rs) in
      rs\<lparr>rs_capacity := s,
         rs_telemetry := emit_model_capacity enc key (active_requests snap) (queued_requests snap)
           concurrency (rs_telemetry rs)\<rparr>)"

text \<open>\<open>acquired\<close> is the outcome of the admission. When the frame cannot be sent the guard is dropped
  (\<open>release\<close>) before the second event; otherwise the result is the request's channel.\<close>

definition chat_forward ::
  "(bytes \<Rightarrow> string) \<Rightarrow> chat_plan \<Rightarrow> acquire_error option \<Rightarrow> uuid \<Rightarrow> json \<Rightarrow>
   (router_state \<Rightarrow> router_state) \<Rightarrow> router_state \<Rightarrow> (chat_error + nat) \<times> router_state" where
  "chat_forward enc p acquired rid headers release rs =
     (case acquired of
        Some err \<Rightarrow> (Inl (capacity_exhausted_response err (cp_concurrency p)), rs)
      | None \<Rightarrow>
          (let rs1 = emit_capacity enc (cp_key p) (cp_concurrency p) rs;
               (r, t) = forward_http_request rid ''POST'' ''/v1/chat/completions'' headers (Some (cp_body p))
                          (tunnel_at rs1 (cp_tunnel p));
               rs2 = update_tunnel (cp_tunnel p) (\<lambda>_. t) rs1 in
           case r of
             Inl e \<Rightarrow>
               (Inl (ErrorResponse 502 ''router_error'' e),
                emit_capacity enc (cp_key p) (cp_concurrency p) (release rs2))
           | Inr c \<Rightarrow> (Inr c, rs2)))"

section \<open>The answer\<close>

text \<open>The usage that is queued for the session, when there is a batcher.\<close>

definition record_parsed_usage :: "bool \<Rightarrow> u64 \<Rightarrow> parsed_usage option \<Rightarrow> (u64 \<times> u64 \<times> u64) option" where
  "record_parsed_usage has_batcher sid usage =
     (case usage of
        None \<Rightarrow> None
      | Some u \<Rightarrow>
          if \<not> has_batcher then None else Some (sid, pu_input_tokens u, pu_output_tokens u))"

definition chat_answer ::
  "(string \<Rightarrow> json option) \<Rightarrow> (u16 \<Rightarrow> u16 option) \<Rightarrow> bool \<Rightarrow> u64 \<Rightarrow> inbound_frame list \<Rightarrow> bool \<Rightarrow>
   (chat_error + u16 \<times> string) \<times> (u64 \<times> u64 \<times> u64) option" where
  "chat_answer parse status_of has_batcher sid frames timed_out =
     (case collect_http_response status_of frames timed_out of
        Inr (status, body) \<Rightarrow>
          (Inr (status, body), record_parsed_usage has_batcher sid (extract_usage_from_body parse body))
      | Inl (status, msg) \<Rightarrow> (Inl (ErrorResponse (unat status) ''router_error'' msg), None))"

text \<open>A router with one node that advertises nothing, while another node advertised \<open>m\<close>.\<close>

definition sample_router :: router_state where
  "sample_router = new_router_state
     \<lparr>rs_store := [new_tunnel 100 0 [5] None], rs_tunnels := [([5], 0)],
      rs_models := new_catalog\<lparr>mc_union := [(''m'', JNull)]\<rparr>\<rparr>"

definition sample_auth :: authenticated_session where
  "sample_auth =
     \<lparr>as_session_id = 7, as_user = [9], as_node_id = [5], as_locked_internal = 100, as_usage_recorded = 0\<rparr>"

definition sample_plan :: chat_plan where
  "sample_plan =
     \<lparr>cp_model = ''m'', cp_tunnel = 0, cp_key = ModelCapacityKey [5] ''m'', cp_concurrency = 0,
      cp_max_queue = 0, cp_body = ''body'', cp_stream = False\<rparr>"

lemma sample_checks:
  "chat_checks (\<lambda>_. Some (JObj [(''model'', JStr ''m'')])) print rnd ratio ''body'' sample_auth sample_router =
    Inr sample_plan"
  by (simp add: chat_checks_def parse_stream_flag_def parse_model_def catalog_contains_def sample_router_def
      sample_auth_def sample_plan_def registry_get_def concurrency_for_def u32_or_0_def u64_or_0_def
      new_catalog_def max_queue_depth_def)

lemma chat_checks_ok:
  "chat_checks parse print rnd ratio body auth rs = Inr p \<longleftrightarrow>
    (\<exists>m i body'.
      body' = (if parse_stream_flag parse body then inject_stream_usage_option parse print body else body) \<and>
      parse_model parse body' = Some m \<and> catalog_contains m (rs_models rs) \<and>
      registry_get rs (as_node_id auth) = Some i \<and>
      p = \<lparr>cp_model = m, cp_tunnel = i, cp_key = ModelCapacityKey (as_node_id auth) m,
           cp_concurrency = concurrency_for (as_node_id auth) m (rs_models rs),
           cp_max_queue = max_queue_depth rnd (concurrency_for (as_node_id auth) m (rs_models rs)) ratio,
           cp_body = body', cp_stream = parse_stream_flag parse body\<rparr>)"
  by (auto simp: chat_checks_def Let_def split: option.splits if_splits)


text \<open>The model only has to be in the union of all nodes. A request for a model that its session's
  node does not advertise is admitted without any limit: its concurrency reads as 0, which the
  admission takes for unlimited.\<close>

theorem foreign_model_is_unlimited:
  assumes "chat_checks parse print rnd ratio body auth rs = Inr p"
    and "Option.bind (map_of (mc_by_node (rs_models rs)) (as_node_id auth)) (\<lambda>ms. map_of ms (cp_model p)) = None"
  shows "cp_concurrency p = 0 \<and> cp_max_queue p = 0 \<and>
    task_step ok (Entering (cp_key p) (cp_concurrency p) (cp_max_queue p)) s = Some (Holding (cp_key p) True, s)"
proof -
  have "cp_concurrency p = concurrency_for (as_node_id auth) (cp_model p) (rs_models rs)"
    "cp_max_queue p = max_queue_depth rnd (cp_concurrency p) ratio"
    using assms(1) by (auto simp: chat_checks_def Let_def split: option.splits if_splits)
  then show ?thesis
    using assms(2) by (simp add: concurrency_for_def u32_or_0_def u64_or_0_def max_queue_depth_def)
qed

theorem foreign_model_is_unlimited_witness:
  "task_step True (Entering (cp_key sample_plan) (cp_concurrency sample_plan) (cp_max_queue sample_plan)) new_tracker =
    Some (Holding (ModelCapacityKey [5] ''m'') True, new_tracker)"
  using foreign_model_is_unlimited [OF sample_checks]
  by (simp add: sample_router_def new_catalog_def) (simp add: sample_plan_def)

text \<open>A refused admission is answered with 429 and the load that was seen, to retry after 15 seconds
  when the queue was full and after 30 when the wait ran out, and touches nothing; an admitted
  request is registered on a channel of its own, or answered with 502 when its frame cannot be sent.\<close>

theorem chat_forward_outcomes:
  assumes "cp_tunnel p < length (rs_store rs)"
    and "chat_forward enc p acquired rid headers release rs = (r, rs')"
  shows "case acquired of
      Some (QueueFull a c q) \<Rightarrow> r = Inl (CapacityExhausted a (cp_concurrency p) q 15) \<and> rs' = rs
    | Some (WaitTimeout a c q) \<Rightarrow> r = Inl (CapacityExhausted a (cp_concurrency p) q 30) \<and> rs' = rs
    | None \<Rightarrow>
        (if tn_writer_open (tunnel_at rs (cp_tunnel p)) then
           r = Inr (length (tn_channels (tunnel_at rs (cp_tunnel p)))) \<and>
           pending_lookup (tunnel_at rs' (cp_tunnel p)) rid = Some (length (tn_channels (tunnel_at rs (cp_tunnel p))))
         else (\<exists>msg. r = Inl (ErrorResponse 502 ''router_error'' msg)))"
proof (cases acquired)
  case (Some err)
  with assms(2) show ?thesis
    by (cases err) (auto simp: chat_forward_def)
next
  case None
  let ?rs1 = "emit_capacity enc (cp_key p) (cp_concurrency p) rs"
  have t: "tunnel_at ?rs1 (cp_tunnel p) = tunnel_at rs (cp_tunnel p)" "rs_store ?rs1 = rs_store rs"
    by (simp_all add: emit_capacity_def tunnel_at_def split: prod.split)
  show ?thesis
    using assms None t
    by (auto simp: chat_forward_def Let_def forward_http_request_def send_frame_def register_pending_def
        pend.table_laws update_tunnel_def tunnel_at_def pending_insert_def pending_lookup_def update_conv'
        split: if_splits)
qed

theorem chat_forward_outcomes_witness:
  "fst (chat_forward sample_enc sample_plan None 1 (JObj []) id sample_router) = Inr 0"
proof -
  have "cp_tunnel sample_plan < length (rs_store sample_router)"
    by (simp add: sample_plan_def sample_router_def)
  moreover have "tunnel_at sample_router (cp_tunnel sample_plan) = new_tunnel 100 0 [5] None"
    by (simp add: sample_plan_def sample_router_def tunnel_at_def)
  ultimately show ?thesis
    using chat_forward_outcomes [OF _ surjective_pairing, of sample_plan sample_router sample_enc None 1 "JObj []" id]
    by (simp add: new_tunnel_def)
qed

text \<open>The usage queued for a session is exactly what the collected answer carries, and only for an
  answer that was passed on, and only with a batcher.\<close>

theorem chat_usage_recorded:
  "snd (chat_answer parse status_of has_batcher sid frames timed_out) = Some (s, i, u) \<longleftrightarrow>
    has_batcher \<and> s = sid \<and>
    (\<exists>status body. fst (chat_answer parse status_of has_batcher sid frames timed_out) = Inr (status, body) \<and>
      extract_usage_from_body parse body = Some \<lparr>pu_input_tokens = i, pu_output_tokens = u\<rparr>)"
proof (cases "collect_http_response status_of frames timed_out")
  case (Inr x)
  then show ?thesis
    by (cases x; cases "extract_usage_from_body parse (snd x)")
      (auto simp: chat_answer_def record_parsed_usage_def)
qed (auto simp: chat_answer_def split: prod.split)

end
