(* ===== verification/Capacity_Refinement.thy ===== *)
theory Capacity_Refinement
  imports Capacity
begin

text \<open>
  The contract of admission control (\<open>src/capacity/mod.rs\<close>): per model, a counting semaphore. The
  detailed machine of theory \<open>Capacity\<close>, with its loads, compare-exchanges, queue and timeouts,
  implements it step by step.
\<close>

section \<open>The abstract semaphore\<close>

datatype sem_event = Admit cap_key | Release cap_key | Internal

fun sem_step :: "(cap_key \<Rightarrow> u32) \<Rightarrow> (cap_key \<Rightarrow> nat) \<Rightarrow> sem_event \<Rightarrow> (cap_key \<Rightarrow> nat) option" where
  "sem_step C n (Admit k) = (if n k < unat (C k) then Some (n(k := n k + 1)) else None)"
| "sem_step C n (Release k) = (if 0 < n k then Some (n(k := n k - 1)) else None)"
| "sem_step C n Internal = Some n"

section \<open>What the machine means for it\<close>

definition sem_of :: "cap_state \<Rightarrow> cap_key \<Rightarrow> nat" where
  "sem_of s k = count_if (holds k) (tasks s)"

fun sem_task :: "bool \<Rightarrow> task \<Rightarrow> cap_state \<Rightarrow> sem_event" where
  "sem_task ok (CasActive k c m r a) s = (if ok \<and> slot_active (heap s ! r) = a then Admit k else Internal)"
| "sem_task ok _ s = Internal"

fun sem_drop :: "task \<Rightarrow> sem_event" where
  "sem_drop (Holding k unlimited) = (if unlimited then Internal else Release k)"
| "sem_drop _ = Internal"

fun sem_event_of :: "cap_state \<Rightarrow> cap_event \<Rightarrow> sem_event" where
  "sem_event_of s (Run i ok) = sem_task ok (tasks s ! i) s"
| "sem_event_of s (DropGuard i) = sem_drop (tasks s ! i)"
| "sem_event_of s _ = Internal"

section \<open>The simulation\<close>

lemma tasks_set [simp]:
  "tasks (set_active r v s) = tasks s" "tasks (set_queued r v s) = tasks s"
  "tasks (release_inner k s) = tasks s" "tasks (clear_node n s) = tasks s"
  "tasks (snd (snapshot k s)) = tasks s"
proof -
  show "tasks (snd (snapshot k s)) = tasks s"
    using slot_for_tasks [of k s] by (cases "slot_for k s") (simp add: snapshot_def)
qed (simp_all add: set_active_def set_queued_def release_inner_def clear_node_def split: option.split)

lemma task_step_tasks: "task_step ok t s = Some (t', s') \<Longrightarrow> tasks s' = tasks s"
  by (cases "(ok, t, s)" rule: task_step.cases)
    (use slot_for_tasks in \<open>auto simp: Let_def split: if_splits prod.splits, metis snd_conv\<close>)

lemma sem_of_update:
  assumes "i < length (tasks s)" "tasks s' = (tasks s)[i := t]"
  shows "sem_of s' k + (if holds k (tasks s ! i) then 1 else 0) =
    sem_of s k + (if holds k t then 1 else 0)"
  using assms count_if_update [OF assms(1), of "holds k" t] by (simp add: sem_of_def)

lemma sem_of_same:
  assumes "i < length (tasks s)" "tasks s' = (tasks s)[i := t]"
    and "\<And>k. holds k t = holds k (tasks s ! i)"
  shows "sem_of s' = sem_of s"
  using assms by (simp add: sem_of_def fun_eq_iff count_if_update_same)

lemma sem_of_bound: "admit_inv C M s \<Longrightarrow> sem_of s k \<le> unat (C k)"
proof (cases "slots s k")
  case None
  assume inv: "admit_inv C M s"
  have "task_admit C M (slots s) t \<Longrightarrow> \<not> holds k t" for t
    using None by (cases t) auto
  then have "sem_of s k = 0"
    using inv by (auto simp: sem_of_def count_if_0_iff admit_inv_def)
  then show ?thesis by simp
next
  case (Some r)
  assume "admit_inv C M s"
  from admit_invD(4) [OF this Some] show ?thesis
    by (simp add: slot_admit_def sem_of_def word_le_nat_alt)
qed

lemma sem_run:
  assumes inv: "admit_inv C M s" "admit_inv C M t" and run: "cap_step s (Run i ok) = Some t"
  shows "sem_step C (sem_of s) (sem_event_of s (Run i ok)) = Some (sem_of t)"
proof -
  from run obtain u s' where i: "i < length (tasks s)" and u: "task_step ok (tasks s ! i) s = Some (u, s')"
    and t: "t = s'\<lparr>tasks := (tasks s)[i := u]\<rparr>"
    by (auto elim: at_task_Some)
  have tt: "tasks t = (tasks s)[i := u]"
    by (simp add: t)
  show ?thesis
  proof (cases "sem_task ok (tasks s ! i) s")
    case (Admit k)
    then obtain c m r a where ts: "tasks s ! i = CasActive k c m r a" "ok" "slot_active (heap s ! r) = a"
      by (cases "(ok, tasks s ! i, s)" rule: sem_task.cases) (auto split: if_splits)
    with u have "u = Holding k False" by simp
    then have up: "sem_of t k' = sem_of s k' + (if k' = k then 1 else 0)" for k'
      using sem_of_update [OF i tt, of k'] ts by (simp add: eq_commute)
    have "sem_of s k < unat (C k)"
      using sem_of_bound [OF inv(2), of k] up [of k] by simp
    then show ?thesis
      using Admit up by (simp add: fun_eq_iff)
  next
    case Internal
    have "holds k u = holds k (tasks s ! i)" for k
      using u Internal by (cases "(ok, tasks s ! i, s)" rule: task_step.cases)
        (auto simp: Let_def split: if_splits prod.splits)
    then show ?thesis
      using Internal sem_of_same [OF i tt] by simp
  qed (cases "(ok, tasks s ! i, s)" rule: sem_task.cases; simp split: if_splits)
qed

lemma sem_release:
  assumes drop: "cap_step s (DropGuard i) = Some t"
  shows "sem_step C (sem_of s) (sem_event_of s (DropGuard i)) = Some (sem_of t)"
proof -
  from drop obtain k u where i: "i < length (tasks s)" and ti: "tasks s ! i = Holding k u"
    and tt: "tasks t = (tasks s)[i := Finished]"
    by (auto elim!: at_task_Some drop_guard.elims)
  have up: "sem_of t k' + (if k' = k \<and> \<not> u then 1 else 0) = sem_of s k'" for k'
    using sem_of_update [OF i tt, of k'] ti by (simp add: eq_commute)
  show ?thesis
  proof (cases u)
    case True
    with up ti show ?thesis by (simp add: fun_eq_iff)
  next
    case False
    then have "0 < sem_of s k" using up [of k] by simp
    moreover have "sem_of t k' = (if k' = k then sem_of s k - 1 else sem_of s k')" for k'
      using up [of k'] False by (auto split: if_splits)
    ultimately show ?thesis
      using ti False by (simp add: fun_eq_iff)
  qed
qed

lemma sem_simulates:
  assumes inv: "admit_inv C M s" and step: "steady_step C M s e = Some t"
  shows "sem_step C (sem_of s) (sem_event_of s e) = Some (sem_of t)"
proof -
  have st: "cap_step s e = Some t"
    using step by (auto simp: steady_step_def split: if_splits)
  have inv': "admit_inv C M t"
    using admit_inv_step [OF inv step] .
  show ?thesis
  proof (cases e)
    case (Spawn k c m)
    with st show ?thesis by (auto simp: sem_of_def fun_eq_iff)
  next
    case (Run i ok)
    then show ?thesis using sem_run [OF inv inv'] st by simp
  next
    case (Wake i notified)
    with st obtain u s' where i: "i < length (tasks s)" and u: "wake_step notified (tasks s ! i) s = Some (u, s')"
      and t: "t = s'\<lparr>tasks := (tasks s)[i := u]\<rparr>"
      by (auto elim: at_task_Some)
    have "holds k u = holds k (tasks s ! i)" for k
      using u by (cases "(notified, tasks s ! i, s)" rule: wake_step.cases) (auto split: if_splits)
    then show ?thesis
      using Wake sem_of_same [OF i, of t u] t by simp
  next
    case (DropGuard i)
    then show ?thesis using sem_release st by simp
  next
    case (Cancel i)
    with st obtain k c m r where "i < length (tasks s)" "tasks s ! i = Waiting k c m r"
      "tasks t = (tasks s)[i := Abandoned r]"
      by (auto elim!: at_task_Some cancel_step.elims)
    then show ?thesis
      using Cancel sem_of_same [of i s t "Abandoned r"] by simp
  qed (use st in \<open>auto simp: sem_of_def fun_eq_iff\<close>)
qed

interpretation semaphore: simulation new_tracker "steady_step C M" "admit_inv C M" sem_of "sem_step C" sem_event_of
  for C M
  by unfold_locales (rule sem_simulates)

lemma sem_of_new [simp]: "sem_of new_tracker = (\<lambda>_. 0)"
  by (simp add: sem_of_def new_tracker_def fun_eq_iff)



end
