(* ===== verification/Chat_Service.thy ===== *)
theory Chat_Service
  imports Tunnel_Lifecycle Forward Capacity_Refinement
begin

text \<open>
  The whole life of chat requests (\<open>chat_completions\<close> of \<open>src/consumer/forward.rs\<close> behind
  \<open>require_v1_session\<close>): many requests at once, each a small state machine over its \<open>await\<close> points,
  on the shared router, admission control and usage batches. A step is what one task does between
  two awaits; the environment chooses which task runs next and what the network and the clock give
  it, and consumers may go away at any await.
\<close>

section \<open>Requests in flight\<close>

datatype chat_outcome =
    Refused nat string
  | FailedChat chat_error
  | Answered u16 string
  | Aborted

text \<open>\<open>st_buf\<close> is the channel between the bridge task, which owns the pending request, and the stream
  that the consumer reads, \<open>st_hand\<close> the frame that the bridge is about to send there; \<open>st_bridge\<close> says
  whether that task still runs.\<close>

record chat_stream =
  st_sse :: sse_state
  st_buf :: "inbound_frame list"
  st_hand :: "inbound_frame option"
  st_bridge :: bool

text \<open>A request waits for admission (with its headers and the number of its admission task), collects an
  answer or feeds a stream (with its request id, channel and task), or is done.\<close>

datatype chat =
    ChatAdmitting authenticated_session chat_plan json nat
  | ChatAnswering authenticated_session chat_plan uuid nat nat "inbound_frame list"
  | ChatStreaming authenticated_session chat_plan uuid nat nat chat_stream
  | ChatDone chat_outcome

record chat_service =
  sv_router :: router_state
  sv_usage :: usage_batcher
  sv_chats :: "chat list"
  sv_records :: "(u64 \<times> u64 \<times> u64) list"

record chat_config =
  kc_router :: router_config
  kc_usage :: usage_config
  kc_parse :: "string \<Rightarrow> json option"
  kc_print :: "json \<Rightarrow> string option"
  kc_rnd :: "rat \<Rightarrow> f64"
  kc_ratio :: f64
  kc_b58 :: "string \<Rightarrow> string + bytes"
  kc_status_of :: "u16 \<Rightarrow> u16 option"
  kc_receipt_of :: "string \<Rightarrow> u64 option"
  kc_quote :: "string \<Rightarrow> string"
  kc_enforce_budget :: bool
  kc_has_batcher :: bool

definition new_service :: "u64 \<Rightarrow> chat_service" where
  "new_service ttl =
     \<lparr>sv_router = new_router_state, sv_usage = new_batcher (new_verifier ttl), sv_chats = [], sv_records = []\<rparr>"

definition set_chat :: "nat \<Rightarrow> chat \<Rightarrow> chat_service \<Rightarrow> chat_service" where
  "set_chat i ch S = S\<lparr>sv_chats := (sv_chats S)[i := ch]\<rparr>"

section \<open>The steps of a request\<close>

text \<open>Dropping the capacity guard of task \<open>t\<close>.\<close>

definition release_guard :: "nat \<Rightarrow> router_state \<Rightarrow> router_state" where
  "release_guard t rs =
     (case cap_step (rs_capacity rs) (DropGuard t) of
        None \<Rightarrow> rs
      | Some s \<Rightarrow> rs\<lparr>rs_capacity := s\<rparr>)"

text \<open>The middleware and the checks, up to the admission, whose task is spawned with the plan's bounds.
  The body is the text of the request after lossy decoding.\<close>

definition request_chat ::
  "chat_config \<Rightarrow> session_fetch \<Rightarrow> int \<Rightarrow> string option \<Rightarrow> string \<Rightarrow> (string \<times> string option) list \<Rightarrow>
   chat_service \<Rightarrow> chat_service" where
  "request_chat K fetch now auth_header body headers S =
     (let rs = sv_router S;
          (r, v) = require_v1_session (kc_b58 K) (kc_enforce_budget K) fetch now
            (\<lambda>n. registry_get rs n \<noteq> None) auth_header (bt_chain (sv_usage S));
          S1 = S\<lparr>sv_usage := (sv_usage S)\<lparr>bt_chain := v\<rparr>\<rparr> in
      case r of
        Inl (st, msg) \<Rightarrow> S1\<lparr>sv_chats := sv_chats S @ [ChatDone (Refused st msg)]\<rparr>
      | Inr auth \<Rightarrow>
          (case chat_checks (kc_parse K) (kc_print K) (kc_rnd K) (kc_ratio K) body auth rs of
             Inl e \<Rightarrow> S1\<lparr>sv_chats := sv_chats S @ [ChatDone (FailedChat e)]\<rparr>
           | Inr p \<Rightarrow>
               (let cap = rs_capacity rs;
                    task = Entering (cp_key p) (cp_concurrency p) (cp_max_queue p) in
                S1\<lparr>sv_router := rs\<lparr>rs_capacity := cap\<lparr>tasks := tasks cap @ [task]\<rparr>\<rparr>,
                   sv_chats := sv_chats S @
                     [ChatAdmitting auth p (headers_to_json headers) (length (tasks cap))]\<rparr>)))"

text \<open>The outcome of an admission task, once it has one.\<close>

fun admission_outcome :: "task \<Rightarrow> acquire_error option option" where
  "admission_outcome (Holding k u) = Some None"
| "admission_outcome (Failed e) = Some (Some e)"
| "admission_outcome _ = None"

definition new_stream :: chat_stream where
  "new_stream = \<lparr>st_sse = sse_start, st_buf = [], st_hand = None, st_bridge = True\<rparr>"

definition admitted_chat ::
  "'vk externals \<Rightarrow> nat \<Rightarrow> uuid \<Rightarrow> chat_service \<Rightarrow> chat_service option" where
  "admitted_chat X i rid S =
     (case sv_chats S ! i of
        ChatAdmitting auth p headers t \<Rightarrow>
          (case admission_outcome (tasks (rs_capacity (sv_router S)) ! t) of
             None \<Rightarrow> None
           | Some acquired \<Rightarrow>
               (let (r, rs) = chat_forward (x_enc X) p acquired rid headers (release_guard t) (sv_router S);
                    S1 = S\<lparr>sv_router := rs\<rparr> in
                Some
                 (case r of
                    Inl e \<Rightarrow> set_chat i (ChatDone (FailedChat e)) S1
                  | Inr c \<Rightarrow>
                      if cp_stream p then set_chat i (ChatStreaming auth p rid c t new_stream) S1
                      else set_chat i (ChatAnswering auth p rid c t []) S1)))
      | _ \<Rightarrow> None)"

text \<open>The end of a collected answer: the pending request is dropped, then the guard, then the load is
  reported and the usage queued.\<close>

definition finish_answer ::
  "'vk externals \<Rightarrow> chat_config \<Rightarrow> nat \<Rightarrow> authenticated_session \<Rightarrow> chat_plan \<Rightarrow> uuid \<Rightarrow> nat \<Rightarrow> nat \<Rightarrow>
   inbound_frame list \<Rightarrow> bool \<Rightarrow> chat_service \<Rightarrow> chat_service" where
  "finish_answer X K i auth p rid c t frames timed_out S =
     (let rs1 = update_tunnel (cp_tunnel p) (drop_pending rid c) (sv_router S);
          rs2 = emit_capacity (x_enc X) (cp_key p) (cp_concurrency p) (release_guard t rs1);
          (answer, usage) = chat_answer (kc_parse K) (kc_status_of K) (kc_has_batcher K)
            (as_session_id auth) frames timed_out in
      set_chat i
        (ChatDone (case answer of Inl e \<Rightarrow> FailedChat e | Inr (st, body) \<Rightarrow> Answered st body))
        (S\<lparr>sv_router := rs2,
           sv_records := sv_records S @ (case usage of None \<Rightarrow> [] | Some u \<Rightarrow> [u])\<rparr>))"

fun ends_answer :: "inbound_frame \<Rightarrow> bool" where
  "ends_answer (End st) = True"
| "ends_answer (Error c m) = True"
| "ends_answer _ = False"

definition receive_answer ::
  "'vk externals \<Rightarrow> chat_config \<Rightarrow> nat \<Rightarrow> chat_service \<Rightarrow> chat_service option" where
  "receive_answer X K i S =
     (case sv_chats S ! i of
        ChatAnswering auth p rid c t frames \<Rightarrow>
          (let r = fst (recv_frame c (tunnel_at (sv_router S) (cp_tunnel p)));
               S1 = S\<lparr>sv_router := update_tunnel (cp_tunnel p) (\<lambda>t. snd (recv_frame c t)) (sv_router S)\<rparr> in
           case r of
             Blocked \<Rightarrow> None
           | Closed \<Rightarrow> Some (finish_answer X K i auth p rid c t frames False S1)
           | Got f \<Rightarrow>
               Some (if ends_answer f then finish_answer X K i auth p rid c t (frames @ [f]) False S1
                     else set_chat i (ChatAnswering auth p rid c t (frames @ [f])) S1))
      | _ \<Rightarrow> None)"

definition timeout_answer ::
  "'vk externals \<Rightarrow> chat_config \<Rightarrow> nat \<Rightarrow> chat_service \<Rightarrow> chat_service option" where
  "timeout_answer X K i S =
     (case sv_chats S ! i of
        ChatAnswering auth p rid c t frames \<Rightarrow> Some (finish_answer X K i auth p rid c t frames True S)
      | _ \<Rightarrow> None)"

section \<open>Streams\<close>

text \<open>The stream takes a step. When its completion fires the guard is dropped, the load reported and the
  usage queued.\<close>

definition stream_step ::
  "'vk externals \<Rightarrow> chat_config \<Rightarrow> nat \<Rightarrow> sse_input \<Rightarrow> inbound_frame list \<Rightarrow> chat_service \<Rightarrow> chat_service" where
  "stream_step X K i inp buf S =
     (case sv_chats S ! i of
        ChatStreaming auth p rid c t st \<Rightarrow>
          (let sse = sse_step (kc_parse K) (kc_receipt_of K) (kc_quote K) (st_sse st) inp;
               S1 = set_chat i (ChatStreaming auth p rid c t (st\<lparr>st_sse := sse, st_buf := buf\<rparr>)) S in
           if ss_completions (st_sse st) = [] \<and> ss_completions sse \<noteq> [] then
             S1\<lparr>sv_router := emit_capacity (x_enc X) (cp_key p) (cp_concurrency p)
                  (release_guard t (sv_router S)),
                sv_records := sv_records S @
                  (case record_parsed_usage (kc_has_batcher K) (as_session_id auth) (fst (hd (ss_completions sse))) of
                     None \<Rightarrow> [] | Some u \<Rightarrow> [u])\<rparr>
           else S1)
      | _ \<Rightarrow> S)"

text \<open>The bridge task takes a frame from the request's channel and then sends it to the stream's channel,
  waiting while that is full. It ends, and drops the request, when the request's channel is closed,
  and when a send finds the stream gone.\<close>

definition end_bridge ::
  "nat \<Rightarrow> authenticated_session \<Rightarrow> chat_plan \<Rightarrow> uuid \<Rightarrow> nat \<Rightarrow> nat \<Rightarrow> chat_stream \<Rightarrow> chat_service \<Rightarrow> chat_service" where
  "end_bridge i auth p rid c t st S =
     set_chat i (ChatStreaming auth p rid c t (st\<lparr>st_hand := None, st_bridge := False\<rparr>))
       (S\<lparr>sv_router := update_tunnel (cp_tunnel p) (drop_pending rid c) (sv_router S)\<rparr>)"

definition bridge_step :: "nat \<Rightarrow> chat_service \<Rightarrow> chat_service option" where
  "bridge_step i S =
     (case sv_chats S ! i of
        ChatStreaming auth p rid c t st \<Rightarrow>
          if \<not> st_bridge st then None
          else
            (case st_hand st of
               Some f \<Rightarrow>
                 if \<not> ss_running (st_sse st) then Some (end_bridge i auth p rid c t st S)
                 else if length (st_buf st) < channel_capacity
                 then Some (set_chat i
                   (ChatStreaming auth p rid c t (st\<lparr>st_hand := None, st_buf := st_buf st @ [f]\<rparr>)) S)
                 else None
             | None \<Rightarrow>
                 (let r = fst (recv_frame c (tunnel_at (sv_router S) (cp_tunnel p))) in
                  case r of
                    Blocked \<Rightarrow> None
                  | Closed \<Rightarrow> Some (end_bridge i auth p rid c t st S)
                  | Got f \<Rightarrow>
                      Some (set_chat i (ChatStreaming auth p rid c t (st\<lparr>st_hand := Some f\<rparr>))
                        (S\<lparr>sv_router := update_tunnel (cp_tunnel p) (\<lambda>t. snd (recv_frame c t)) (sv_router S)\<rparr>))))
      | _ \<Rightarrow> None)"

text \<open>The consumer's side pulls a frame, sees the end of the channel, or waits.\<close>

definition pull_stream :: "'vk externals \<Rightarrow> chat_config \<Rightarrow> nat \<Rightarrow> chat_service \<Rightarrow> chat_service option" where
  "pull_stream X K i S =
     (case sv_chats S ! i of
        ChatStreaming auth p rid c t st \<Rightarrow>
          if \<not> ss_running (st_sse st) then None
          else
            (case st_buf st of
               f # fs \<Rightarrow> Some (stream_step X K i (FromNode f) fs S)
             | [] \<Rightarrow> if st_bridge st then None else Some (stream_step X K i NodeClosed [] S))
      | _ \<Rightarrow> None)"

definition deadline_stream :: "'vk externals \<Rightarrow> chat_config \<Rightarrow> nat \<Rightarrow> chat_service \<Rightarrow> chat_service option" where
  "deadline_stream X K i S =
     (case sv_chats S ! i of
        ChatStreaming auth p rid c t st \<Rightarrow>
          if ss_running (st_sse st) then Some (stream_step X K i Deadline (st_buf st) S) else None
      | _ \<Rightarrow> None)"

section \<open>Consumers that go away\<close>

text \<open>Dropping the future of a request: in the admission queue its place stays counted, during the
  answer the pending request and the guard are dropped without a report, and a stream completes
  without usage.\<close>

definition abort_chat :: "'vk externals \<Rightarrow> chat_config \<Rightarrow> nat \<Rightarrow> chat_service \<Rightarrow> chat_service option" where
  "abort_chat X K i S =
     (case sv_chats S ! i of
        ChatAdmitting auth p headers t \<Rightarrow>
          (case cap_step (rs_capacity (sv_router S)) (Cancel t) of
             None \<Rightarrow> None
           | Some s \<Rightarrow>
               Some (set_chat i (ChatDone Aborted)
                 (S\<lparr>sv_router := (sv_router S)\<lparr>rs_capacity := s\<rparr>\<rparr>)))
      | ChatAnswering auth p rid c t frames \<Rightarrow>
          Some (set_chat i (ChatDone Aborted)
            (S\<lparr>sv_router := release_guard t (update_tunnel (cp_tunnel p) (drop_pending rid c) (sv_router S))\<rparr>))
      | ChatStreaming auth p rid c t st \<Rightarrow>
          if ss_running (st_sse st) then Some (stream_step X K i ConsumerGone (st_buf st) S) else None
      | ChatDone out \<Rightarrow> None)"

section \<open>The service\<close>

text \<open>One turn of the admission task of a request that waits for it.\<close>

definition admission_turn :: "(nat \<Rightarrow> cap_event) \<Rightarrow> nat \<Rightarrow> chat_service \<Rightarrow> chat_service option" where
  "admission_turn ev i S =
     (case sv_chats S ! i of
        ChatAdmitting auth p headers t \<Rightarrow>
          (case cap_step (rs_capacity (sv_router S)) (ev t) of
             None \<Rightarrow> None
           | Some s \<Rightarrow> Some (S\<lparr>sv_router := (sv_router S)\<lparr>rs_capacity := s\<rparr>\<rparr>))
      | _ \<Rightarrow> None)"

definition record_next :: "chat_config \<Rightarrow> session_fetch \<Rightarrow> int \<Rightarrow> chat_service \<Rightarrow> chat_service option" where
  "record_next K fetch now S =
     (case sv_records S of
        [] \<Rightarrow> None
      | (sid, inp, out) # rest \<Rightarrow>
          Some (S\<lparr>sv_usage := add_usage (kc_usage K) fetch now sid inp out (sv_usage S), sv_records := rest\<rparr>))"

datatype chat_event =
    ChatRequest session_fetch int "string option" string "(string \<times> string option) list"
  | ChatTurn nat bool
  | ChatWake nat bool
  | ChatAdmitted nat uuid
  | ChatReceive nat
  | ChatTimeout nat
  | StreamBridge nat
  | StreamPull nat
  | StreamDeadline nat
  | ConsumerLeft nat
  | RecordUsage session_fetch int
  | UsageSweep session_fetch int
  | NodeSide router_event

text \<open>Tasks of the admission belong to requests: of its events the node side has only snapshots.\<close>

fun node_side :: "router_event \<Rightarrow> bool" where
  "node_side (Admission (cap_event.Snapshot k)) = True"
| "node_side (Admission _) = False"
| "node_side _ = True"

fun chat_event_index :: "chat_event \<Rightarrow> nat option" where
  "chat_event_index (ChatTurn i _) = Some i"
| "chat_event_index (ChatWake i _) = Some i"
| "chat_event_index (ChatAdmitted i _) = Some i"
| "chat_event_index (ChatReceive i) = Some i"
| "chat_event_index (ChatTimeout i) = Some i"
| "chat_event_index (StreamBridge i) = Some i"
| "chat_event_index (StreamPull i) = Some i"
| "chat_event_index (StreamDeadline i) = Some i"
| "chat_event_index (ConsumerLeft i) = Some i"
| "chat_event_index _ = None"

fun chat_turn :: "'vk externals \<Rightarrow> chat_config \<Rightarrow> chat_service \<Rightarrow> chat_event \<Rightarrow> chat_service option" where
  "chat_turn X K S (ChatRequest fetch now hdr body headers) = Some (request_chat K fetch now hdr body headers S)"
| "chat_turn X K S (ChatTurn i ok) = admission_turn (\<lambda>t. Run t ok) i S"
| "chat_turn X K S (ChatWake i notified) = admission_turn (\<lambda>t. Wake t notified) i S"
| "chat_turn X K S (ChatAdmitted i rid) = admitted_chat X i rid S"
| "chat_turn X K S (ChatReceive i) = receive_answer X K i S"
| "chat_turn X K S (ChatTimeout i) = timeout_answer X K i S"
| "chat_turn X K S (StreamBridge i) = bridge_step i S"
| "chat_turn X K S (StreamPull i) = pull_stream X K i S"
| "chat_turn X K S (StreamDeadline i) = deadline_stream X K i S"
| "chat_turn X K S (ConsumerLeft i) = abort_chat X K i S"
| "chat_turn X K S (RecordUsage fetch now) = record_next K fetch now S"
| "chat_turn X K S (UsageSweep fetch now) =
     Some (S\<lparr>sv_usage := sweep_timeouts (kc_usage K) fetch now (sv_usage S)\<rparr>)"
| "chat_turn X K S (NodeSide e) =
     (if node_side e then map_option (\<lambda>rs. S\<lparr>sv_router := rs\<rparr>) (router_step X (kc_router K) (sv_router S) e)
      else None)"

definition chat_step :: "'vk externals \<Rightarrow> chat_config \<Rightarrow> chat_service \<Rightarrow> chat_event \<Rightarrow> chat_service option" where
  "chat_step X K S e =
     (case chat_event_index e of
        Some i \<Rightarrow> if i < length (sv_chats S) then chat_turn X K S e else None
      | None \<Rightarrow> chat_turn X K S e)"

end
