(* ===== verification/Chat_Safety.thy ===== *)
theory Chat_Safety
  imports Chat_Service
begin

text \<open>
  What holds of the chat service in every state it reaches: the router stays consistent, every
  admission guard belongs to a request that is still under way, and every request stays on the node
  of its session.
\<close>

section \<open>Admission tasks as the service sees them\<close>

text \<open>The key of a task that may still hold or get a guard.\<close>

fun task_key :: "task \<Rightarrow> cap_key option" where
  "task_key (Entering k c m) = Some k"
| "task_key (Looping k c m r) = Some k"
| "task_key (CasActive k c m r a) = Some k"
| "task_key (CheckQueue k c m r a) = Some k"
| "task_key (CasQueued k c m r q) = Some k"
| "task_key (Waiting k c m r) = Some k"
| "task_key (Holding k u) = Some k"
| "task_key _ = None"

fun settled :: "task \<Rightarrow> bool" where
  "settled (Holding k u) = True"
| "settled t = (task_key t = None)"

text \<open>How tasks evolve: they keep their key or lose it, and settled ones stay settled.\<close>

definition evolves :: "task list \<Rightarrow> task list \<Rightarrow> bool" where
  "evolves ts us \<longleftrightarrow> length ts = length us \<and>
     (\<forall>t < length ts. (task_key (us ! t) = task_key (ts ! t) \<or> task_key (us ! t) = None) \<and>
       (settled (ts ! t) \<longrightarrow> settled (us ! t)))"

lemma evolves_refl [simp]: "evolves ts ts"
  by (simp add: evolves_def)

lemma evolves_trans: "evolves ts us \<Longrightarrow> evolves us vs \<Longrightarrow> evolves ts vs"
  unfolding evolves_def by metis

lemma evolves_update:
  assumes "t < length ts \<Longrightarrow> task_key u = task_key (ts ! t) \<or> task_key u = None"
    and "t < length ts \<Longrightarrow> settled (ts ! t) \<Longrightarrow> settled u"
  shows "evolves ts (ts[t := u])"
proof -
  have "(task_key (ts[t := u] ! j) = task_key (ts ! j) \<or> task_key (ts[t := u] ! j) = None) \<and>
      (settled (ts ! j) \<longrightarrow> settled (ts[t := u] ! j))" if "j < length ts" for j
    using that assms by (cases "j = t") simp_all
  then show ?thesis
    by (simp add: evolves_def)
qed

lemma evolves_task_step:
  "task_step ok t s = Some (u, s') \<Longrightarrow>
    (task_key u = task_key t \<or> task_key u = None) \<and> (settled t \<longrightarrow> settled u) \<and> tasks s' = tasks s"
  using task_step_tasks [of ok t s u s']
  by (cases "(ok, t, s)" rule: task_step.cases) (auto simp: Let_def split: if_splits prod.splits)

text \<open>The events of the admission other than a new request.\<close>

lemma cap_step_evolves:
  assumes "cap_step s e = Some s'" "\<And>k c m. e \<noteq> Spawn k c m"
  shows "evolves (tasks s) (tasks s')"
proof (cases e)
  case (Run i ok)
  with assms show ?thesis
    by (auto elim!: at_task_Some dest!: evolves_task_step intro!: evolves_update)
next
  case (Wake i notified)
  with assms show ?thesis
    by (auto elim!: at_task_Some wake_step.elims intro!: evolves_update)
next
  case (DropGuard i)
  with assms show ?thesis
    by (auto elim!: at_task_Some drop_guard.elims intro!: evolves_update)
next
  case (Cancel i)
  with assms show ?thesis
    by (auto elim!: at_task_Some cancel_step.elims intro!: evolves_update)
qed (use assms in auto)

section \<open>The router's side leaves admission tasks alone\<close>

definition router_tasks :: "router_state \<Rightarrow> task list" where
  "router_tasks rs = tasks (rs_capacity rs)"

lemma router_tasks_frame [simp]:
  "router_tasks (update_tunnel i f rs) = router_tasks rs"
  "router_tasks (emit_status enc n m s x y rs) = router_tasks rs"
  "router_tasks (registry_remove n rs) = router_tasks rs"
  "router_tasks (registry_insert n i rs) = router_tasks rs"
  "router_tasks (rs\<lparr>rs_models := mo\<rparr>) = router_tasks rs"
  "router_tasks (rs\<lparr>rs_store := st\<rparr>) = router_tasks rs"
  "router_tasks (rs\<lparr>rs_connected := co\<rparr>) = router_tasks rs"
  "router_tasks (rs\<lparr>rs_capacity := ca\<rparr>) = tasks ca"
  "router_tasks (emit_capacity enc k c rs) = router_tasks rs"
proof -
  show "router_tasks (emit_capacity enc k c rs) = router_tasks rs"
    using tasks_set(5) [of k "rs_capacity rs"]
    by (cases "snapshot k (rs_capacity rs)")
      (simp add: emit_capacity_def router_tasks_def snapshot_with_concurrency_def)
qed (simp_all add: router_tasks_def update_tunnel_def emit_status_def registry_remove_def registry_insert_def)

lemma router_tasks_connect [simp]:
  "router_tasks (snd (handle_node_connect X chain E rs)) = router_tasks rs"
  by (simp add: handle_node_connect_def Let_def open_tunnel_def replace_old_def
      split: sum.split prod.split option.split)

lemma router_step_tasks:
  assumes "router_step X cfg rs e = Some rs'" "node_side e"
  shows "router_tasks rs' = router_tasks rs"
proof (cases e)
  case (Admission a)
  with assms show ?thesis
    by (cases a) (auto simp: router_tasks_def)
next
  case (Frame i msg now)
  with assms show ?thesis
    by (auto simp: handle_inbound_text_def handle_pong_def Let_def split: sum.splits node_frame.splits if_splits)
next
  case (CloseTunnel i now)
  with assms show ?thesis
    by (auto simp: close_tunnel_def Let_def split: prod.splits if_splits)
        (simp_all add: router_tasks_def update_tunnel_def)
next
  case (Refresh i fetched now)
  with assms show ?thesis
    by (auto simp: refresh_tunnel_def Let_def split: sum.splits prod.splits if_splits)
qed (use assms in \<open>auto split: if_splits\<close>)

lemma release_guard_tasks:
  "router_tasks rs = ts \<Longrightarrow> evolves ts (router_tasks (release_guard t rs))"
  "router_tasks rs = ts \<Longrightarrow> t < length ts \<Longrightarrow> settled (ts ! t) \<Longrightarrow>
    task_key (router_tasks (release_guard t rs) ! t) = None"
proof -
  show "evolves ts (router_tasks (release_guard t rs))" if "router_tasks rs = ts"
    using that cap_step_evolves [of "rs_capacity rs" "DropGuard t"]
    by (auto simp: release_guard_def router_tasks_def split: option.split)
  show "task_key (router_tasks (release_guard t rs) ! t) = None"
    if "router_tasks rs = ts" "t < length ts" "settled (ts ! t)"
    using that by (cases "ts ! t")
      (auto simp: release_guard_def router_tasks_def at_task_def split: option.split)
qed

lemma chat_forward_tasks:
  assumes "chat_forward enc p acquired rid hdr (release_guard t) rs = (r, rs')"
  shows "evolves (router_tasks rs) (router_tasks rs')"
    and "r = Inl e \<Longrightarrow> acquired = None \<Longrightarrow> t < length (router_tasks rs) \<Longrightarrow> settled (router_tasks rs ! t) \<Longrightarrow>
      task_key (router_tasks rs' ! t) = None"
    and "acquired \<noteq> None \<or> r = Inr c \<Longrightarrow> router_tasks rs' = router_tasks rs"
  using assms release_guard_tasks
  by (auto simp: chat_forward_def Let_def split: option.splits prod.splits sum.splits)

section \<open>Who owns a guard\<close>

text \<open>The admission task of a request, with its key, as long as the request may hold its guard.\<close>

fun chat_task :: "chat \<Rightarrow> (nat \<times> cap_key) option" where
  "chat_task (ChatAdmitting auth p headers t) = Some (t, cp_key p)"
| "chat_task (ChatAnswering auth p rid c t frames) = Some (t, cp_key p)"
| "chat_task (ChatStreaming auth p rid c t st) = (if ss_guard_held (st_sse st) then Some (t, cp_key p) else None)"
| "chat_task (ChatDone out) = None"

fun chat_admitted :: "task list \<Rightarrow> chat \<Rightarrow> bool" where
  "chat_admitted ts (ChatAdmitting auth p headers t) = (t < length ts)"
| "chat_admitted ts (ChatAnswering auth p rid c t frames) = (t < length ts \<and> settled (ts ! t))"
| "chat_admitted ts (ChatStreaming auth p rid c t st) =
     (sse_inv (st_sse st) \<and> t < length ts \<and> settled (ts ! t))"
| "chat_admitted ts (ChatDone out) = True"

definition owned :: "task list \<Rightarrow> chat list \<Rightarrow> bool" where
  "owned ts chats \<longleftrightarrow>
     (\<forall>t < length ts. \<forall>k. task_key (ts ! t) = Some k \<longrightarrow> Some (t, k) \<in> chat_task ` set chats) \<and>
     (\<forall>ch \<in> set chats. chat_admitted ts ch)"

lemma chat_admitted_evolves: "chat_admitted ts ch \<Longrightarrow> evolves ts us \<Longrightarrow> chat_admitted us ch"
  by (cases ch) (auto simp: evolves_def)

lemma owned_evolves:
  assumes "owned ts chats" "evolves ts us"
  shows "owned us chats"
proof -
  have "Some (t, k) \<in> chat_task ` set chats" if "t < length us" "task_key (us ! t) = Some k" for t k
    using that assms by (simp add: owned_def evolves_def) (metis option.distinct(1))
  then show ?thesis
    using assms by (auto simp: owned_def intro: chat_admitted_evolves)
qed

text \<open>Changing one request: it keeps its task, or the task has no key any more.\<close>

lemma owned_update:
  assumes own: "owned ts chats" and ev: "evolves ts us" and i: "i < length chats"
    and task: "\<And>t k. chat_task (chats ! i) = Some (t, k) \<Longrightarrow> t < length us \<Longrightarrow>
      chat_task ch = Some (t, k) \<or> task_key (us ! t) = None"
    and adm: "chat_admitted us ch"
  shows "owned us (chats[i := ch])"
proof -
  have "Some (t, k) \<in> chat_task ` set (chats[i := ch])" if t: "t < length us" "task_key (us ! t) = Some k" for t k
  proof -
    have "Some (t, k) \<in> chat_task ` set chats"
      using owned_evolves [OF own ev] t by (simp add: owned_def)
    then obtain j where j: "j < length chats" "chat_task (chats ! j) = Some (t, k)"
      by (auto simp: in_set_conv_nth)
    show ?thesis
    proof (cases "j = i")
      case True
      with task [of t k] j t have "chat_task ch = Some (t, k)" by simp
      then show ?thesis
        using set_update_memI [OF i, of ch] by (metis image_eqI)
    next
      case False
      then have "chats[i := ch] ! j = chats ! j" by simp
      then show ?thesis
        using j by (metis image_eqI length_list_update nth_mem)
    qed
  qed
  moreover have "chat_admitted us ch'" if "ch' \<in> set (chats[i := ch])" for ch'
    using that own ev adm set_update_subset_insert [of chats i ch]
    by (auto simp: owned_def intro: chat_admitted_evolves)
  ultimately show ?thesis
    by (simp add: owned_def)
qed

lemma owned_keep:
  "owned ts chats \<Longrightarrow> i < length chats \<Longrightarrow> chat_task ch = chat_task (chats ! i) \<Longrightarrow> chat_admitted ts ch \<Longrightarrow>
    owned ts (chats[i := ch])"
  by (rule owned_update [OF _ evolves_refl]) simp_all

lemma owned_done:
  "owned ts chats \<Longrightarrow> owned ts (chats @ [ChatDone out])"
  by (auto simp: owned_def)

lemma owned_spawn:
  assumes "owned ts chats"
  shows "owned (ts @ [Entering (cp_key p) c m]) (chats @ [ChatAdmitting auth p hdr (length ts)])"
proof -
  have "chat_admitted (ts @ [Entering (cp_key p) c m]) ch" if "chat_admitted ts ch" for ch
    using that by (cases ch) (auto simp: nth_append)
  then show ?thesis
    using assms by (auto simp: owned_def nth_append less_Suc_eq)
qed

section \<open>The router stays consistent\<close>

lemma registry_wf_emit_capacity: "registry_wf rs \<Longrightarrow> registry_wf (emit_capacity enc k c rs)"
proof -
  assume wf: "registry_wf rs"
  obtain snap s where sn: "snapshot k (rs_capacity rs) = (snap, s)"
    by fastforce
  then have "registry_wf (rs\<lparr>rs_capacity := s\<rparr>)"
    using registry_wf_admission [OF wf, of "cap_event.Snapshot k" s] by simp
  then show ?thesis
    using sn by (simp add: emit_capacity_def snapshot_with_concurrency_def registry_wf_def registry_get_def)
qed

lemma registry_wf_release_guard: "registry_wf rs \<Longrightarrow> registry_wf (release_guard t rs)"
  using registry_wf_admission [of rs "DropGuard t"] by (auto simp: release_guard_def split: option.split)

lemma registry_wf_put_tunnel:
  assumes "registry_wf rs" "tunnel_wf t" "tn_node_id t = tn_node_id (tunnel_at rs i)"
  shows "registry_wf (update_tunnel i (\<lambda>_. t) rs)"
proof -
  have eq: "update_tunnel i (\<lambda>_. t) rs =
      update_tunnel i (\<lambda>u. if u = tunnel_at rs i then t else u) rs"
    by (simp add: update_tunnel_def tunnel_at_def)
  show ?thesis
    unfolding eq by (rule registry_wf_update_tunnel [OF assms(1)]) (use assms in auto)
qed

lemma emit_capacity_store [simp]:
  "rs_store (emit_capacity enc k c rs) = rs_store rs"
  "tunnel_at (emit_capacity enc k c rs) i = tunnel_at rs i"
  by (simp_all add: emit_capacity_def tunnel_at_def split: prod.split)

lemma registry_wf_tunnel: "registry_wf rs \<Longrightarrow> i < length (rs_store rs) \<Longrightarrow> tunnel_wf (tunnel_at rs i)"
  by (simp add: registry_wf_def list_all_length tunnel_at_def)

lemma registry_wf_chat_forward:
  assumes wf: "registry_wf rs" and p: "cp_tunnel p < length (rs_store rs)"
    and run: "chat_forward enc p acquired rid hdr (release_guard t) rs = (r, rs')"
  shows "registry_wf rs'"
proof (cases acquired)
  case None
  let ?rs = "emit_capacity enc (cp_key p) (cp_concurrency p) rs"
  obtain q u where fw: "forward_http_request rid ''POST'' ''/v1/chat/completions'' hdr (Some (cp_body p))
      (tunnel_at rs (cp_tunnel p)) = (q, u)" by fastforce
  have "tunnel_wf u" "tn_node_id u = tn_node_id (tunnel_at rs (cp_tunnel p))"
    using forward_wf(1) [OF registry_wf_tunnel [OF wf p], of rid "''POST''" "''/v1/chat/completions''" hdr
        "Some (cp_body p)"] forward_wf(3) [of rid "''POST''" "''/v1/chat/completions''" hdr
        "Some (cp_body p)" "tunnel_at rs (cp_tunnel p)"]
    by (simp_all add: fw)
  then have "registry_wf (update_tunnel (cp_tunnel p) (\<lambda>_. u) ?rs)"
    using registry_wf_put_tunnel [OF registry_wf_emit_capacity [OF wf]] by simp
  then show ?thesis
    using run None fw
    by (auto simp: chat_forward_def Let_def intro: registry_wf_emit_capacity registry_wf_release_guard split: sum.splits)
qed (use run wf in \<open>auto simp: chat_forward_def\<close>)

section \<open>Requests stay on the node of their session\<close>

definition bound_to :: "chat_config \<Rightarrow> router_state \<Rightarrow> authenticated_session \<Rightarrow> chat_plan \<Rightarrow> bool" where
  "bound_to K rs auth p \<longleftrightarrow>
     cp_tunnel p < length (rs_store rs) \<and> tn_node_id (rs_store rs ! cp_tunnel p) = as_node_id auth \<and>
     cp_key p = ModelCapacityKey (as_node_id auth) (cp_model p) \<and>
     as_user auth \<noteq> zero_address \<and> \<not> (kc_enforce_budget K \<and> auth_budget_exhausted auth)"

fun chat_bound :: "chat_config \<Rightarrow> router_state \<Rightarrow> chat \<Rightarrow> bool" where
  "chat_bound K rs (ChatAdmitting auth p headers t) = bound_to K rs auth p"
| "chat_bound K rs (ChatAnswering auth p rid c t frames) = bound_to K rs auth p"
| "chat_bound K rs (ChatStreaming auth p rid c t st) = bound_to K rs auth p"
| "chat_bound K rs (ChatDone out) = True"

text \<open>Tunnels are only added, and keep their node.\<close>

definition grows :: "router_state \<Rightarrow> router_state \<Rightarrow> bool" where
  "grows rs rs' \<longleftrightarrow> length (rs_store rs) \<le> length (rs_store rs') \<and>
     (\<forall>i < length (rs_store rs). tn_node_id (rs_store rs' ! i) = tn_node_id (rs_store rs ! i))"

lemma grows_refl [simp]: "grows rs rs"
  by (simp add: grows_def)

lemma grows_trans: "grows a b \<Longrightarrow> grows b c \<Longrightarrow> grows a c"
  by (auto simp: grows_def)

lemma chat_bound_grows: "chat_bound K rs ch \<Longrightarrow> grows rs rs' \<Longrightarrow> chat_bound K rs' ch"
  by (cases ch) (auto simp: bound_to_def grows_def)

lemma grows_same_store: "rs_store rs' = rs_store rs \<Longrightarrow> grows rs rs'"
  by (simp add: grows_def)

lemma grows_frame [simp]:
  "grows rs (rs\<lparr>rs_capacity := ca\<rparr>)"
  "grows rs (rs\<lparr>rs_models := mo\<rparr>)"
  "grows rs (emit_status enc n m s x y rs)"
  "grows rs (registry_remove n rs)"
  "grows rs (emit_capacity enc k c rs)"
  "grows rs (release_guard t rs)"
  by (simp_all add: grows_same_store emit_status_def registry_remove_def release_guard_def split: option.split)

lemma grows_update:
  assumes "tn_node_id (f (rs_store rs ! i)) = tn_node_id (rs_store rs ! i)"
  shows "grows rs (update_tunnel i f rs)"
proof -
  have "tn_node_id ((rs_store rs)[i := f (rs_store rs ! i)] ! j) = tn_node_id (rs_store rs ! j)"
    if "j < length (rs_store rs)" for j
    using that assms by (cases "j = i") simp_all
  then show ?thesis
    by (simp add: grows_def update_tunnel_def)
qed

lemma grows_connect: "grows rs (snd (handle_node_connect X chain E rs))"
proof -
  have "grows rs (replace_old n rs)" for n
    using grows_trans [OF grows_frame(4) grows_update]
    by (auto simp: replace_old_def retire_tunnel_facts split: option.split)
  moreover have "grows r (open_tunnel E n m r)" for n m r
    by (simp add: grows_def open_tunnel_def registry_insert_def nth_append)
  ultimately have "grows rs (open_tunnel E n m (replace_old n rs))" for n m
    by (blast intro: grows_trans)
  moreover have "grows r r' \<Longrightarrow> grows r (emit_status enc n m s x y (r'\<lparr>rs_connected := co\<rparr>))"
    "grows r r' \<Longrightarrow> grows r (registry_remove n r')" for r r' enc n m s x y co
    by (simp_all add: grows_def emit_status_def registry_remove_def)
  ultimately show ?thesis
    by (auto simp: handle_node_connect_def Let_def split: sum.split)
qed

lemma router_step_grows:
  assumes "router_step X cfg rs e = Some rs'"
  shows "grows rs rs'"
proof (cases e)
  case (Connect E)
  with assms show ?thesis using grows_connect by auto
next
  case (Frame i msg now)
  have pong: "grows rs (fst (handle_pong enc stale refresh now i rs))" for enc stale refresh
    unfolding handle_pong_def Let_def fst_conv
    by (intro grows_trans [OF grows_update grows_trans [OF grows_frame(3) grows_update]]) simp_all
  from Frame assms pong show ?thesis
    by (auto simp: handle_inbound_text_def intro!: grows_update split: sum.splits node_frame.splits if_splits)
next
  case (CloseTunnel i now)
  with assms show ?thesis
    by (auto simp: close_tunnel_def grows_def update_tunnel_def registry_remove_def emit_status_def Let_def
        nth_list_update split: prod.splits if_splits)
next
  case (Refresh i fetched now)
  with assms show ?thesis
    by (auto simp: refresh_tunnel_def Let_def grows_def update_tunnel_def nth_list_update
        split: sum.splits prod.splits if_splits)
qed (use assms in \<open>auto intro!: grows_update simp: forward_wf split: if_splits option.splits\<close>)

lemma chat_forward_grows:
  assumes "chat_forward enc p acquired rid hdr (release_guard t) rs = (r, rs')"
  shows "grows rs rs'"
proof (cases acquired)
  case None
  let ?rs = "emit_capacity enc (cp_key p) (cp_concurrency p) rs"
  obtain q u where fw: "forward_http_request rid ''POST'' ''/v1/chat/completions'' hdr (Some (cp_body p))
      (tunnel_at rs (cp_tunnel p)) = (q, u)" by fastforce
  have "grows rs (update_tunnel (cp_tunnel p) (\<lambda>_. u) ?rs)"
    using forward_wf(3) [of rid "''POST''" "''/v1/chat/completions''" hdr "Some (cp_body p)"
        "tunnel_at rs (cp_tunnel p)"]
    by (intro grows_trans [OF grows_frame(5) grows_update]) (simp add: fw [unfolded tunnel_at_def] tunnel_at_def)
  then show ?thesis
    using assms None fw
    by (auto simp: chat_forward_def Let_def split: sum.splits
        intro: grows_trans [OF _ grows_trans [OF grows_frame(6) grows_frame(5)]])
qed (use assms in \<open>auto simp: chat_forward_def\<close>)

section \<open>The invariant of the service\<close>

definition service_inv :: "chat_config \<Rightarrow> chat_service \<Rightarrow> bool" where
  "service_inv K S \<longleftrightarrow> registry_wf (sv_router S) \<and> owned (router_tasks (sv_router S)) (sv_chats S) \<and>
     list_all (chat_bound K (sv_router S)) (sv_chats S)"

lemma service_invD:
  assumes "service_inv K S"
  shows "registry_wf (sv_router S)" "owned (router_tasks (sv_router S)) (sv_chats S)"
    and "i < length (sv_chats S) \<Longrightarrow> chat_bound K (sv_router S) (sv_chats S ! i)"
    and "i < length (sv_chats S) \<Longrightarrow> chat_admitted (router_tasks (sv_router S)) (sv_chats S ! i)"
  using assms by (auto simp: service_inv_def owned_def list_all_length)

lemma set_chat_sel [simp]:
  "sv_router (set_chat i ch S) = sv_router S" "sv_chats (set_chat i ch S) = (sv_chats S)[i := ch]"
  by (simp_all add: set_chat_def)

text \<open>How a step of one request keeps the invariant.\<close>

lemma service_inv_update:
  assumes inv: "service_inv K S" and i: "i < length (sv_chats S)"
    and S': "sv_chats S' = (sv_chats S)[i := ch]"
    and router: "registry_wf (sv_router S')" "grows (sv_router S) (sv_router S')"
      "evolves (router_tasks (sv_router S)) (router_tasks (sv_router S'))"
    and task: "\<And>t k. chat_task (sv_chats S ! i) = Some (t, k) \<Longrightarrow> t < length (router_tasks (sv_router S')) \<Longrightarrow>
      chat_task ch = Some (t, k) \<or> task_key (router_tasks (sv_router S') ! t) = None"
    and ch: "chat_admitted (router_tasks (sv_router S')) ch" "chat_bound K (sv_router S') ch"
  shows "service_inv K S'"
proof -
  have "chat_bound K (sv_router S') ch'" if "ch' \<in> set ((sv_chats S)[i := ch])" for ch'
    using that inv ch(2) set_update_subset_insert [of "sv_chats S" i ch] router(2)
    by (auto simp: service_inv_def list_all_iff intro: chat_bound_grows)
  moreover have "owned (router_tasks (sv_router S')) ((sv_chats S)[i := ch])"
    using owned_update [OF service_invD(2) [OF inv] router(3) i task ch(1)] .
  ultimately show ?thesis
    using router(1) by (simp add: service_inv_def S' list_all_iff)
qed

lemma service_inv_router:
  assumes inv: "service_inv K S" and S': "sv_chats S' = sv_chats S"
    and router: "registry_wf (sv_router S')" "grows (sv_router S) (sv_router S')"
      "evolves (router_tasks (sv_router S)) (router_tasks (sv_router S'))"
  shows "service_inv K S'"
  using inv router owned_evolves [OF service_invD(2) [OF inv] router(3)]
  by (auto simp: service_inv_def S' list_all_iff intro: chat_bound_grows)

lemma service_inv_usage:
  "service_inv K S \<Longrightarrow> sv_router S' = sv_router S \<Longrightarrow> sv_chats S' = sv_chats S \<Longrightarrow> service_inv K S'"
  by (simp add: service_inv_def)

end
