(* ===== verification/Chat_Invariant.thy ===== *)
theory Chat_Invariant
  imports Chat_Safety
begin

text \<open>
  Every step of the chat service keeps its invariant, handler by handler, and what follows for
  guards and for the binding of requests to nodes.
\<close>

section \<open>A new request\<close>

lemma checked_plan_bound:
  assumes wf: "registry_wf (sv_router S)"
    and auth: "fst (require_v1_session (kc_b58 K) (kc_enforce_budget K) fetch now has_tunnel hdr v) = Inr auth"
    and plan: "chat_checks parse print rnd ratio body auth (sv_router S) = Inr p"
  shows "bound_to K (sv_router S) auth p"
proof -
  from plan obtain i where i: "registry_get (sv_router S) (as_node_id auth) = Some i" "cp_tunnel p = i"
    "cp_key p = ModelCapacityKey (as_node_id auth) (cp_model p)"
    by (auto simp: chat_checks_ok)
  moreover from auth obtain s where "is_open s" "\<not> (kc_enforce_budget K \<and> budget_exhausted s)"
    "as_user auth = cs_user s" "as_locked_internal auth = cs_locked_internal s"
    "as_usage_recorded auth = cs_usage_recorded s"
    by (auto simp: require_v1_session_ok)
  ultimately show ?thesis
    using wf by (auto simp: bound_to_def registry_wf_def is_open_def budget_exhausted_def auth_budget_exhausted_def)
qed

lemma service_inv_request:
  assumes inv: "service_inv K S"
  shows "service_inv K (request_chat K fetch now hdr body headers S)"
proof -
  let ?rs = "sv_router S"
  obtain r v where r: "require_v1_session (kc_b58 K) (kc_enforce_budget K) fetch now
      (\<lambda>n. registry_get ?rs n \<noteq> None) hdr (bt_chain (sv_usage S)) = (r, v)"
    by fastforce
  have ended: "service_inv K (S\<lparr>sv_usage := u, sv_chats := sv_chats S @ [ChatDone out]\<rparr>)" for u out
    using inv by (simp add: service_inv_def owned_done)
  show ?thesis
  proof (cases "\<exists>auth p. r = Inr auth \<and>
      chat_checks (kc_parse K) (kc_print K) (kc_rnd K) (kc_ratio K) body auth ?rs = Inr p")
    case False
    then show ?thesis
      using ended r by (auto simp: request_chat_def Let_def split: sum.split prod.split)
  next
    case True
    then obtain auth p where auth: "r = Inr auth"
      and p: "chat_checks (kc_parse K) (kc_print K) (kc_rnd K) (kc_ratio K) body auth ?rs = Inr p" by blast
    let ?task = "Entering (cp_key p) (cp_concurrency p) (cp_max_queue p)"
    let ?cap = "rs_capacity ?rs\<lparr>tasks := tasks (rs_capacity ?rs) @ [?task]\<rparr>"
    let ?rs' = "?rs\<lparr>rs_capacity := ?cap\<rparr>"
    let ?ch = "ChatAdmitting auth p (headers_to_json headers) (length (tasks (rs_capacity ?rs)))"
    have S': "request_chat K fetch now hdr body headers S =
        S\<lparr>sv_usage := (sv_usage S)\<lparr>bt_chain := v\<rparr>, sv_router := ?rs', sv_chats := sv_chats S @ [?ch]\<rparr>"
      using r auth p by (simp add: request_chat_def Let_def)
    have "registry_wf ?rs'"
      using registry_wf_admission [OF service_invD(1) [OF inv], of "Spawn (cp_key p) (cp_concurrency p) (cp_max_queue p)" ?cap]
      by simp
    moreover have "owned (router_tasks ?rs') (sv_chats S @ [?ch])"
      using owned_spawn [OF service_invD(2) [OF inv]] by (simp add: router_tasks_def)
    moreover have "bound_to K ?rs auth p"
      using checked_plan_bound [OF service_invD(1) [OF inv] _ p] r auth by (metis fst_conv)
    then have "list_all (chat_bound K ?rs') (sv_chats S @ [?ch])"
      using inv by (auto simp: service_inv_def list_all_iff bound_to_def intro: chat_bound_grows)
    ultimately show ?thesis
      unfolding S' by (simp add: service_inv_def)
  qed
qed

section \<open>Admission\<close>

lemma service_inv_turn:
  assumes inv: "service_inv K S" and i: "i < length (sv_chats S)"
    and run: "admission_turn ev i S = Some S'" and ev: "\<And>t k c m. ev t \<noteq> Spawn k c m"
  shows "service_inv K S'"
proof -
  from run obtain t s where s: "cap_step (rs_capacity (sv_router S)) (ev t) = Some s"
    and S': "S' = S\<lparr>sv_router := (sv_router S)\<lparr>rs_capacity := s\<rparr>\<rparr>"
    by (auto simp: admission_turn_def split: chat.splits option.splits)
  show ?thesis
    unfolding S'
    by (rule service_inv_router [OF inv])
      (use registry_wf_admission [OF service_invD(1) [OF inv] s] cap_step_evolves [OF s ev]
        in \<open>simp_all add: router_tasks_def\<close>)
qed

lemma sse_inv_start: "sse_inv sse_start"
  by (simp add: sse_inv_def sse_start_def)

lemma service_inv_admitted:
  assumes inv: "service_inv K S" and i: "i < length (sv_chats S)"
    and run: "admitted_chat X i rid S = Some S'"
  shows "service_inv K S'"
proof -
  let ?ts = "router_tasks (sv_router S)"
  from run obtain auth p hdr t acq r rs where ch: "sv_chats S ! i = ChatAdmitting auth p hdr t"
    and acq: "admission_outcome (?ts ! t) = Some acq"
    and fw: "chat_forward (x_enc X) p acq rid hdr (release_guard t) (sv_router S) = (r, rs)"
    and S': "S' = (case r of
        Inl e \<Rightarrow> set_chat i (ChatDone (FailedChat e)) (S\<lparr>sv_router := rs\<rparr>)
      | Inr c \<Rightarrow> if cp_stream p then set_chat i (ChatStreaming auth p rid c t new_stream) (S\<lparr>sv_router := rs\<rparr>)
          else set_chat i (ChatAnswering auth p rid c t []) (S\<lparr>sv_router := rs\<rparr>))"
    by (auto simp: admitted_chat_def router_tasks_def Let_def split: chat.splits option.splits prod.splits)
  have t: "t < length ?ts" "settled (?ts ! t)"
    using service_invD(4) [OF inv i] ch acq by (auto elim: admission_outcome.elims)
  have failed: "acq \<noteq> None \<Longrightarrow> task_key (?ts ! t) = None"
    using acq by (cases "?ts ! t") auto
  have bound: "bound_to K (sv_router S) auth p"
    using service_invD(3) [OF inv i] ch by simp
  note ev = chat_forward_tasks(1) [OF fw] and gr = chat_forward_grows [OF fw]
  have len: "length (router_tasks rs) = length ?ts"
    using ev by (simp add: evolves_def)
  have wf: "registry_wf rs"
    using registry_wf_chat_forward [OF service_invD(1) [OF inv] _ fw] bound by (simp add: bound_to_def)
  have key: "r = Inl e \<Longrightarrow> task_key (router_tasks rs ! t) = None" for e
    using chat_forward_tasks(2) [OF fw, of e] chat_forward_tasks(3) [OF fw, of undefined] t failed by (cases acq) auto
  have settled: "settled (router_tasks rs ! t)"
    using ev t by (simp add: evolves_def)
  have bound': "bound_to K rs auth p"
    using chat_bound_grows [of K "sv_router S" "ChatAnswering auth p rid 0 t []", OF _ gr] bound by simp
  obtain ch' where ch': "sv_chats S' = (sv_chats S)[i := ch']" "sv_router S' = rs"
    "chat_task ch' = Some (t, cp_key p) \<or> task_key (router_tasks rs ! t) = None"
    "chat_admitted (router_tasks rs) ch'" "chat_bound K rs ch'"
  proof (cases r)
    case (Inl e)
    then show ?thesis
      using that [of "ChatDone (FailedChat e)"] key S' by simp
  next
    case (Inr c)
    then show ?thesis
      using that [of "if cp_stream p then ChatStreaming auth p rid c t new_stream else ChatAnswering auth p rid c t []"]
        S' t len settled bound' sse_inv_start
      by (simp add: new_stream_def sse_start_def split: if_splits)
  qed
  show ?thesis
    by (rule service_inv_update [OF inv i ch'(1)]) (use ch' ch wf gr ev in auto)
qed

section \<open>Answers\<close>

lemma recv_keeps: "registry_wf rs \<Longrightarrow> registry_wf (update_tunnel i (\<lambda>t. snd (recv_frame c t)) rs)"
  "grows rs (update_tunnel i (\<lambda>t. snd (recv_frame c t)) rs)"
  by (rule registry_wf_update_tunnel) (simp_all add: tunnel_wf_recv, rule grows_update, simp)

lemma drop_keeps: "registry_wf rs \<Longrightarrow> registry_wf (update_tunnel i (drop_pending rid c) rs)"
  "grows rs (update_tunnel i (drop_pending rid c) rs)"
  by (rule registry_wf_update_tunnel) (simp_all add: tunnel_wf_drop, rule grows_update, simp)

text \<open>The router after the guard of task \<open>t\<close> was released.\<close>

lemma release_keeps:
  assumes "registry_wf rs" "router_tasks rs = ts" "t < length ts" "settled (ts ! t)"
  shows "registry_wf (release_guard t rs)" "grows rs (release_guard t rs)"
    "evolves ts (router_tasks (release_guard t rs))"
    "task_key (router_tasks (release_guard t rs) ! t) = None"
  using assms release_guard_tasks registry_wf_release_guard by simp_all

lemma service_inv_finish:
  assumes inv: "service_inv K S" and i: "i < length (sv_chats S)"
    and ch: "sv_chats S ! i = ChatAnswering auth p rid c t frames"
    and S1: "sv_chats S1 = sv_chats S" "registry_wf (sv_router S1)" "grows (sv_router S) (sv_router S1)"
      "router_tasks (sv_router S1) = router_tasks (sv_router S)"
  shows "service_inv K (finish_answer X K i auth p rid c t fs timed_out S1)"
proof -
  let ?ts = "router_tasks (sv_router S)"
  have t: "t < length ?ts" "settled (?ts ! t)"
    using service_invD(4) [OF inv i] ch by simp_all
  let ?rs = "update_tunnel (cp_tunnel p) (drop_pending rid c) (sv_router S1)"
  have wf: "registry_wf ?rs" and gr: "grows (sv_router S) ?rs" and ts: "router_tasks ?rs = ?ts"
    using drop_keeps S1 by (auto intro: grows_trans)
  note rel = release_keeps [OF wf ts t]
  let ?rs' = "emit_capacity (x_enc X) (cp_key p) (cp_concurrency p) (release_guard t ?rs)"
  have router: "sv_router (finish_answer X K i auth p rid c t fs timed_out S1) = ?rs'"
    by (simp add: finish_answer_def Let_def split: prod.split)
  obtain answer usage where "chat_answer (kc_parse K) (kc_status_of K) (kc_has_batcher K) (as_session_id auth)
      fs timed_out = (answer, usage)"
    by fastforce
  then obtain out where chats:
    "sv_chats (finish_answer X K i auth p rid c t fs timed_out S1) = (sv_chats S)[i := ChatDone out]"
    by (simp add: finish_answer_def Let_def S1)
  show ?thesis
    by (rule service_inv_update [OF inv i chats])
      (use rel gr ch in \<open>auto simp: router intro: registry_wf_emit_capacity grows_trans
        [OF _ grows_trans [OF grows_frame(6) grows_frame(5)]]\<close>)
qed

lemma service_inv_receive:
  assumes inv: "service_inv K S" and i: "i < length (sv_chats S)"
    and run: "receive_answer X K i S = Some S'"
  shows "service_inv K S'"
proof -
  from run obtain auth p rid c t frames where ch: "sv_chats S ! i = ChatAnswering auth p rid c t frames"
    by (auto simp: receive_answer_def split: chat.splits)
  let ?S1 = "S\<lparr>sv_router := update_tunnel (cp_tunnel p) (\<lambda>t. snd (recv_frame c t)) (sv_router S)\<rparr>"
  have S1: "sv_chats ?S1 = sv_chats S" "registry_wf (sv_router ?S1)" "grows (sv_router S) (sv_router ?S1)"
    "router_tasks (sv_router ?S1) = router_tasks (sv_router S)"
    using recv_keeps service_invD(1) [OF inv] by simp_all
  have bound: "bound_to K (sv_router ?S1) auth p"
    using chat_bound_grows [OF service_invD(3) [OF inv i] S1(3)] ch by simp
  have more: "service_inv K (set_chat i (ChatAnswering auth p rid c t fs) ?S1)" for fs
    by (rule service_inv_update [OF inv i, of _ "ChatAnswering auth p rid c t fs"])
      (use S1 ch bound service_invD(4) [OF inv i] in auto)
  show ?thesis
    using run ch more service_inv_finish [OF inv i ch S1]
    by (auto simp: receive_answer_def Let_def split: recv_result.splits if_splits)
qed

lemma service_inv_timeout:
  assumes inv: "service_inv K S" and i: "i < length (sv_chats S)"
    and run: "timeout_answer X K i S = Some S'"
  shows "service_inv K S'"
  using run service_inv_finish [OF inv i _ refl service_invD(1) [OF inv] grows_refl refl]
  by (auto simp: timeout_answer_def split: chat.splits)

section \<open>Streams\<close>

text \<open>A step of the stream either leaves the guard alone or fires the completion, which takes it.\<close>

lemma sse_step_guard:
  assumes "sse_inv s" "s' = sse_step parse receipt_of quote s inp"
  shows "sse_inv s'"
    and "\<not> (ss_completions s = [] \<and> ss_completions s' \<noteq> []) \<Longrightarrow> ss_guard_held s' = ss_guard_held s"
    and "ss_completions s = [] \<and> ss_completions s' \<noteq> [] \<Longrightarrow> ss_guard_held s \<and> \<not> ss_guard_held s'"
proof -
  show inv': "sse_inv s'"
    using assms sse_inv_step by simp
  show "\<not> (ss_completions s = [] \<and> ss_completions s' \<noteq> []) \<Longrightarrow> ss_guard_held s' = ss_guard_held s"
    using assms(1) inv' sse_step_completed [OF assms]
    by (cases "ss_completions s = []") (auto simp: sse_inv_def split: if_splits)
  show "ss_completions s = [] \<and> ss_completions s' \<noteq> [] \<Longrightarrow> ss_guard_held s \<and> \<not> ss_guard_held s'"
    using assms(1) inv' by (auto simp: sse_inv_def split: if_splits)
qed

lemma service_inv_stream:
  assumes inv: "service_inv K S" and i: "i < length (sv_chats S)"
  shows "service_inv K (stream_step X K i inp buf S)"
proof (cases "sv_chats S ! i")
  case (ChatStreaming auth p rid c t st)
  let ?ts = "router_tasks (sv_router S)"
  define sse where "sse = sse_step (kc_parse K) (kc_receipt_of K) (kc_quote K) (st_sse st) inp"
  let ?fires = "ss_completions (st_sse st) = [] \<and> ss_completions sse \<noteq> []"
  let ?ch = "ChatStreaming auth p rid c t (st\<lparr>st_sse := sse, st_buf := buf\<rparr>)"
  have adm: "sse_inv (st_sse st)" "t < length ?ts" "settled (?ts ! t)"
    using service_invD(4) [OF inv i] ChatStreaming by simp_all
  have bound: "bound_to K (sv_router S) auth p"
    using service_invD(3) [OF inv i] ChatStreaming by simp
  note guard = sse_step_guard [OF adm(1) sse_def]
  note rel = release_keeps [OF service_invD(1) [OF inv] refl adm(2,3)]
  have chats: "sv_chats (stream_step X K i inp buf S) = (sv_chats S)[i := ?ch]"
    using ChatStreaming by (simp add: stream_step_def Let_def sse_def)
  show ?thesis
  proof (cases ?fires)
    case True
    let ?rs = "emit_capacity (x_enc X) (cp_key p) (cp_concurrency p) (release_guard t (sv_router S))"
    have router: "sv_router (stream_step X K i inp buf S) = ?rs"
      using ChatStreaming True by (simp add: stream_step_def Let_def flip: sse_def)
    have gr: "grows (sv_router S) ?rs"
      by (rule grows_trans [OF grows_frame(6) grows_frame(5)])
    have "bound_to K ?rs auth p"
      using chat_bound_grows [OF _ gr, of K "ChatAnswering auth p rid c t []"] bound by simp
    moreover have "t < length (router_tasks ?rs)" "settled (router_tasks ?rs ! t)"
      using rel(3) adm by (simp_all add: evolves_def)
    ultimately show ?thesis
      by (intro service_inv_update [OF inv i chats])
        (use rel gr guard ChatStreaming True in \<open>auto simp: router intro: registry_wf_emit_capacity\<close>)
  next
    case False
    have router: "sv_router (stream_step X K i inp buf S) = sv_router S"
      using ChatStreaming False by (auto simp: stream_step_def Let_def simp flip: sse_def)
    show ?thesis
      by (rule service_inv_update [OF inv i chats])
        (use service_invD(1) [OF inv] adm bound guard(1) guard(2) [OF False] ChatStreaming in \<open>auto simp: router\<close>)
  qed
qed (use inv in \<open>simp_all add: stream_step_def\<close>)

lemma service_inv_restream:
  assumes inv: "service_inv K S" and i: "i < length (sv_chats S)"
    and ch: "sv_chats S ! i = ChatStreaming auth p rid c t st" "st_sse st' = st_sse st"
    and S1: "sv_chats S1 = sv_chats S" "registry_wf (sv_router S1)" "grows (sv_router S) (sv_router S1)"
      "router_tasks (sv_router S1) = router_tasks (sv_router S)"
  shows "service_inv K (set_chat i (ChatStreaming auth p rid c t st') S1)"
  by (rule service_inv_update [OF inv i, of _ "ChatStreaming auth p rid c t st'"])
    (use S1 ch service_invD(4) [OF inv i] chat_bound_grows [OF service_invD(3) [OF inv i] S1(3)] in auto)

lemma service_inv_bridge:
  assumes inv: "service_inv K S" and i: "i < length (sv_chats S)" and run: "bridge_step i S = Some S'"
  shows "service_inv K S'"
proof -
  from run obtain auth p rid c t st where ch: "sv_chats S ! i = ChatStreaming auth p rid c t st"
    by (auto simp: bridge_step_def split: chat.splits)
  note keep = service_inv_restream [OF inv i ch]
  have "service_inv K (end_bridge i auth p rid c t st S)"
    unfolding end_bridge_def by (rule keep) (use drop_keeps service_invD(1) [OF inv] in simp_all)
  moreover have "service_inv K (set_chat i (ChatStreaming auth p rid c t (st\<lparr>st_hand := None, st_buf := b\<rparr>)) S)" for b
    by (rule keep) (use service_invD(1) [OF inv] in simp_all)
  moreover have "service_inv K (set_chat i (ChatStreaming auth p rid c t (st\<lparr>st_hand := Some f\<rparr>))
      (S\<lparr>sv_router := update_tunnel (cp_tunnel p) (\<lambda>t. snd (recv_frame c t)) (sv_router S)\<rparr>))" for f
    by (rule keep) (use recv_keeps service_invD(1) [OF inv] in simp_all)
  ultimately show ?thesis
    using run ch by (auto simp: bridge_step_def Let_def split: option.splits recv_result.splits if_splits)
qed

section \<open>Aborted requests\<close>

lemma service_inv_abort:
  assumes inv: "service_inv K S" and i: "i < length (sv_chats S)" and run: "abort_chat X K i S = Some S'"
  shows "service_inv K S'"
proof (cases "sv_chats S ! i")
  case (ChatAdmitting auth p hdr t)
  with run obtain s where s: "cap_step (rs_capacity (sv_router S)) (Cancel t) = Some s"
    and S': "S' = set_chat i (ChatDone Aborted) (S\<lparr>sv_router := (sv_router S)\<lparr>rs_capacity := s\<rparr>\<rparr>)"
    by (auto simp: abort_chat_def simp del: cap_step.simps split: option.splits)
  have "task_key (tasks s ! t) = None"
    using s by (auto elim!: at_task_Some cancel_step.elims)
  then show ?thesis
    unfolding S'
    by (intro service_inv_update [OF inv i, of _ "ChatDone Aborted"])
      (use registry_wf_admission [OF service_invD(1) [OF inv] s] cap_step_evolves [OF s] ChatAdmitting
        in \<open>auto simp: router_tasks_def\<close>)
next
  case (ChatAnswering auth p rid c t frames)
  let ?rs = "update_tunnel (cp_tunnel p) (drop_pending rid c) (sv_router S)"
  have t: "t < length (router_tasks (sv_router S))" "settled (router_tasks (sv_router S) ! t)"
    using service_invD(4) [OF inv i] ChatAnswering by simp_all
  have rs: "registry_wf ?rs" "grows (sv_router S) ?rs" "router_tasks ?rs = router_tasks (sv_router S)"
    using drop_keeps service_invD(1) [OF inv] by simp_all
  have S': "S' = set_chat i (ChatDone Aborted) (S\<lparr>sv_router := release_guard t ?rs\<rparr>)"
    using run ChatAnswering by (simp add: abort_chat_def)
  show ?thesis
    unfolding S'
    by (rule service_inv_update [OF inv i, of _ "ChatDone Aborted"])
      (use release_keeps [OF rs(1,3) t] rs(2) ChatAnswering in \<open>auto intro: grows_trans\<close>)
next
  case (ChatStreaming auth p rid c t st)
  with run show ?thesis
    using service_inv_stream [OF inv i] by (auto simp: abort_chat_def split: if_splits)
qed (use run in \<open>simp add: abort_chat_def\<close>)

section \<open>The whole service\<close>

lemma service_inv_node_side:
  assumes inv: "service_inv K S" and e: "node_side e"
    and run: "router_step X R (sv_router S) e = Some rs"
  shows "service_inv K (S\<lparr>sv_router := rs\<rparr>)"
proof -
  have "registry_wf rs"
    using router.inv_step [OF service_invD(1) [OF inv] run] .
  then show ?thesis
    by (intro service_inv_router [OF inv])
      (use router_step_tasks [OF run e] router_step_grows [OF run] in simp_all)
qed

lemma service_inv_step:
  assumes inv: "service_inv K S" and run: "chat_step X K S e = Some S'"
  shows "service_inv K S'"
proof (cases e)
  case (RecordUsage fetch now)
  with run show ?thesis
    using service_inv_usage [OF inv] by (auto simp: chat_step_def record_next_def split: list.splits)
next
  case (UsageSweep fetch now)
  with run show ?thesis
    using service_inv_usage [OF inv] by (auto simp: chat_step_def)
next
  case (NodeSide r)
  with run show ?thesis
    using service_inv_node_side [OF inv] by (auto simp: chat_step_def split: if_splits)
next
  case (ChatRequest fetch now hdr body headers)
  with run show ?thesis
    using service_inv_request [OF inv] by (auto simp: chat_step_def)
next
  case (StreamPull i)
  with run show ?thesis
    using service_inv_stream [OF inv]
    by (auto simp: chat_step_def pull_stream_def split: chat.splits list.splits if_splits)
next
  case (StreamDeadline i)
  with run show ?thesis
    using service_inv_stream [OF inv]
    by (auto simp: chat_step_def deadline_stream_def split: chat.splits if_splits)
qed (use run in \<open>auto simp: chat_step_def split: if_splits
      intro: service_inv_turn [OF inv] service_inv_admitted [OF inv] service_inv_receive [OF inv]
        service_inv_timeout [OF inv] service_inv_bridge [OF inv] service_inv_abort [OF inv]\<close>)

interpretation service: invariant_system "new_service ttl" "chat_step X K" "service_inv K" for X K ttl
proof unfold_locales
  show "service_inv K (new_service ttl)"
    using registry_wf_start by (simp add: service_inv_def new_service_def owned_def)
      (simp add: router_tasks_def new_router_state_def new_tracker_def)
qed (rule service_inv_step)

end
