(* ===== verification/Chat_Properties.thy ===== *)
theory Chat_Properties
  imports Chat_Invariant
begin

text \<open>
  What the invariant of the chat service means for its clients: which requests hold capacity, and
  which node serves them; shown on a run with one node and one request.
\<close>

section \<open>A run\<close>

text \<open>One node connects, advertises a model, and a request for it is admitted and forwarded.\<close>

definition sample_body :: json where
  "sample_body =
     JObj [(''model'', JStr ''m''),
           (''usage'', JObj [(''prompt_tokens'', json_u64 3), (''completion_tokens'', json_u64 4)])]"

definition sample_config :: chat_config where
  "sample_config =
     \<lparr>kc_router = \<lparr>rc_chain_enabled = True, rc_stale = 40, rc_refresh = 60, rc_ping = 30, rc_pong = 10\<rparr>,
      kc_usage = sample_cfg, kc_parse = (\<lambda>_. Some sample_body), kc_print = (\<lambda>_. None),
      kc_rnd = Finite, kc_ratio = Finite 1, kc_b58 = (\<lambda>_. Inr (replicate 24 0 @ u64_to_be 7 @ replicate 32 1)),
      kc_status_of = Some, kc_receipt_of = (\<lambda>_. None), kc_quote = id, kc_enforce_budget = True,
      kc_has_batcher = True\<rparr>"

definition sample_node :: node_id where
  "sample_node = replicate 32 5"

definition sample_events :: "chat_event list" where
  "sample_events =
     [NodeSide (Connect (sample_env sample_node)),
      NodeSide (Refresh 0 (Inr [(''m'', JNull)]) 1000),
      ChatRequest (\<lambda>_. Inr sample_session) 0 (Some ''Bearer sk_x'') ''body'' [],
      ChatTurn 0 True, ChatAdmitted 0 1]"

definition sample_chat_auth :: authenticated_session where
  "sample_chat_auth =
     \<lparr>as_session_id = 7, as_user = replicate 20 9, as_node_id = sample_node, as_locked_internal = 1000,
      as_usage_recorded = 10\<rparr>"

definition sample_chat_plan :: chat_plan where
  "sample_chat_plan =
     \<lparr>cp_model = ''m'', cp_tunnel = 0, cp_key = ModelCapacityKey sample_node ''m'', cp_concurrency = 0,
      cp_max_queue = 0, cp_body = ''body'', cp_stream = False\<rparr>"

lemma sample_node_length: "length sample_node = 32"
  by (simp add: sample_node_def)

lemma sample_connected:
  assumes "rs1 = snd (handle_node_connect sample_externals True (sample_env sample_node) new_router_state)"
  shows "rs_store rs1 = [new_tunnel 1000 0 sample_node None]" "registry_get rs1 sample_node = Some 0"
    "rs_models rs1 = new_catalog" "rs_capacity rs1 = new_tracker"
  using assms
  by (simp_all add: handle_node_connect_def sample_handshake sample_node_length Let_def replace_old_def
      registry_get_def new_router_state_def open_tunnel_def registry_insert_def emit_status_def)
    (simp_all add: sample_env_def)

lemma sample_refreshed:
  assumes "rs2 = fst (refresh_tunnel sample_enc 1000 0 (Inr [(''m'', JNull)]) rs1)"
    and "rs_store rs1 = [new_tunnel 1000 0 sample_node None]" "rs_models rs1 = new_catalog"
  shows "rs_store rs2 = [(new_tunnel 1000 0 sample_node None)\<lparr>tn_model_count := 1\<rparr>]"
    "rs_tunnels rs2 = rs_tunnels rs1" "rs_capacity rs2 = rs_capacity rs1"
    "catalog_contains ''m'' (rs_models rs2)" "mc_by_node (rs_models rs2) = [(sample_node, [(''m'', JNull)])]"
  using assms
  by (simp_all add: refresh_tunnel_def Let_def update_tunnel_def tunnel_at_def upsert_node_def rebuild_union_def
      new_catalog_def adverts_def catalog_contains_def merge_model_entry_def new_tunnel_def)

lemma sample_session_answer:
  "require_v1_session (kc_b58 sample_config) True (\<lambda>_. Inr sample_session) 0 has (Some ''Bearer sk_x'') (new_verifier 12) =
    (if has sample_node
     then (Inr sample_chat_auth, snd (get_session (\<lambda>_. Inr sample_session) 0 7 (new_verifier 12)))
     else (Inl (503, ''provider node offline''), snd (get_session (\<lambda>_. Inr sample_session) 0 7 (new_verifier 12))))"
proof -
  have "fst (get_session (\<lambda>_. Inr sample_session) 0 7 (new_verifier 12)) = Inr sample_session"
    by (simp add: get_session_def cache_get_def cached_entry_def new_verifier_def)
  moreover have "is_open sample_session" "\<not> budget_exhausted sample_session" "cs_node_id sample_session = sample_node"
    by (simp_all add: is_open_def budget_exhausted_def sample_session_def zero_address_def sample_node_def)
  moreover have "kc_b58 sample_config = (\<lambda>_. Inr (replicate 24 0 @ u64_to_be 7 @ replicate 32 1))"
    by (simp add: sample_config_def)
  ultimately show ?thesis
    by (cases "get_session (\<lambda>_. Inr sample_session) 0 7 (new_verifier 12)")
      (simp add: require_v1_session_def sample_bearer sample_chat_auth_def sample_session_def)
qed

lemma sample_run:
  "\<exists>S. run_steps (chat_step sample_externals sample_config) (new_service 12) sample_events = Some S \<and>
    sv_chats S = [ChatAnswering sample_chat_auth sample_chat_plan 1 0 0 []] \<and>
    tasks (rs_capacity (sv_router S)) = [Holding (ModelCapacityKey sample_node ''m'') True] \<and>
    sv_records S = [] \<and> bt_sessions (sv_usage S) = [] \<and> bt_jobs (sv_usage S) = [] \<and>
    length (rs_store (sv_router S)) = 1 \<and> tn_pending (tunnel_at (sv_router S) 0) = [(1, 0)] \<and>
    ch_buf (tn_channels (tunnel_at (sv_router S) 0) ! 0) = []"
proof -
  let ?step = "chat_step sample_externals sample_config"
  let ?k = "ModelCapacityKey sample_node ''m''"
  define rs1 where "rs1 = snd (handle_node_connect sample_externals True (sample_env sample_node) new_router_state)"
  define rs2 where "rs2 = fst (refresh_tunnel sample_enc 1000 0 (Inr [(''m'', JNull)]) rs1)"
  note r1 = sample_connected [OF rs1_def]
  note r2 = sample_refreshed [OF rs2_def r1(1,3)]
  have get2: "registry_get rs2 n = registry_get rs1 n" for n
    using r2(2) by (simp add: registry_get_def)
  obtain v where v: "v = snd (get_session (\<lambda>_. Inr sample_session) 0 7 (new_verifier 12))" by blast
  let ?S1 = "(new_service 12)\<lparr>sv_router := rs1\<rparr>"
  let ?S2 = "(new_service 12)\<lparr>sv_router := rs2\<rparr>"
  let ?cap = "new_tracker\<lparr>tasks := [Entering ?k 0 0]\<rparr>"
  let ?S3 = "?S2\<lparr>sv_usage := (sv_usage ?S2)\<lparr>bt_chain := v\<rparr>, sv_router := rs2\<lparr>rs_capacity := ?cap\<rparr>,
      sv_chats := [ChatAdmitting sample_chat_auth sample_chat_plan (JObj []) 0]\<rparr>"
  have s1: "?step (new_service 12) (hd sample_events) = Some ?S1"
    by (simp add: sample_events_def chat_step_def new_service_def rs1_def sample_config_def)
  have s2: "?step ?S1 (sample_events ! 1) = Some ?S2"
    using r1(1) by (simp add: sample_events_def chat_step_def rs2_def sample_externals_def)
  have checks: "chat_checks (kc_parse sample_config) (kc_print sample_config) (kc_rnd sample_config)
      (kc_ratio sample_config) ''body'' sample_chat_auth rs2 = Inr sample_chat_plan"
    using r1(2) r2(4,5) get2
    by (simp add: chat_checks_def parse_stream_flag_def parse_model_def sample_config_def sample_body_def sample_chat_auth_def
        sample_chat_plan_def concurrency_for_def u32_or_0_def u64_or_0_def max_queue_depth_def)
  have s3: "?step ?S2 (sample_events ! 2) = Some ?S3"
    using sample_session_answer [of "\<lambda>n. registry_get rs2 n \<noteq> None"] checks r1(2,4) r2(3) get2 v
    by (simp add: sample_events_def chat_step_def request_chat_def new_service_def new_batcher_def
        sample_config_def headers_to_json_def sample_chat_plan_def new_tracker_def)
  let ?cap' = "new_tracker\<lparr>tasks := [Holding ?k True]\<rparr>"
  let ?S4 = "?S3\<lparr>sv_router := rs2\<lparr>rs_capacity := ?cap'\<rparr>\<rparr>"
  have s4: "?step ?S3 (sample_events ! 3) = Some ?S4"
    by (simp add: sample_events_def chat_step_def admission_turn_def at_task_def new_tracker_def)
  obtain r rs where fw: "chat_forward sample_enc sample_chat_plan None 1 (JObj []) (release_guard 0)
      (sv_router ?S4) = (r, rs)" by fastforce
  have tunnel: "tunnel_at (sv_router ?S4) 0 = (new_tunnel 1000 0 sample_node None)\<lparr>tn_model_count := 1\<rparr>"
    using r2(1) by (simp add: tunnel_at_def)
  then have r: "r = Inr 0" "length (rs_store rs) = 1" "tn_pending (tunnel_at rs 0) = [(1, 0)]"
    "ch_buf (tn_channels (tunnel_at rs 0) ! 0) = []"
    using fw r2(1) by (auto simp: chat_forward_def Let_def sample_chat_plan_def forward_http_request_def
        register_pending_def send_frame_def new_tunnel_def pending_insert_def update_tunnel_def tunnel_at_def)
  have rs: "router_tasks rs = [Holding ?k True]"
    using chat_forward_tasks(3) [OF fw, of 0] r(1) by (simp add: router_tasks_def new_tracker_def)
  let ?S5 = "?S4\<lparr>sv_router := rs, sv_chats := [ChatAnswering sample_chat_auth sample_chat_plan 1 0 0 []]\<rparr>"
  have s5: "?step ?S4 (sample_events ! 4) = Some ?S5"
    using fw r(1) by (simp add: sample_events_def chat_step_def admitted_chat_def set_chat_def new_tracker_def
        sample_externals_def sample_chat_plan_def)
  have "run_steps ?step (new_service 12) sample_events = Some ?S5"
    using s1 s2 s3 s4 s5 by (simp add: sample_events_def)
  then show ?thesis
    using rs r(2-4) by (intro exI [of _ ?S5]) (simp add: router_tasks_def new_service_def new_batcher_def)
qed

section \<open>Capacity belongs to requests under way\<close>

lemma service_reaches:
  assumes "reachable_by (chat_step X K) (new_service ttl) S"
  shows "service_inv K S"
  using assms by (rule service.inv_reachable)

text \<open>C3: In every state the service reaches, each capacity guard that an admission task holds belongs
  to a request that is still under way, for the same key: whichever way requests end, by their
  answer, an error frame, a timeout, a send that fails, the end of their stream or a consumer who
  leaves, none leaves capacity occupied; and once all are over, no guard is held.\<close>

theorem guards_belong_to_live_requests:
  assumes "reachable_by (chat_step X K) (new_service ttl) S"
    and "t < length (tasks (rs_capacity (sv_router S)))"
    and "tasks (rs_capacity (sv_router S)) ! t = Holding k u"
  shows "\<exists>ch \<in> set (sv_chats S). chat_task ch = Some (t, k) \<and> (\<forall>out. ch \<noteq> ChatDone out)"
proof -
  have "task_key (router_tasks (sv_router S) ! t) = Some k" "t < length (router_tasks (sv_router S))"
    using assms(2,3) by (simp_all add: router_tasks_def)
  with service_invD(2) [OF service_reaches [OF assms(1)]] have "Some (t, k) \<in> chat_task ` set (sv_chats S)"
    by (simp add: owned_def)
  then obtain ch where "ch \<in> set (sv_chats S)" "chat_task ch = Some (t, k)"
    by force
  then show ?thesis
    by (intro bexI [of _ ch]) auto
qed

theorem guards_belong_to_live_requests_witness:
  "\<exists>S. reachable_by (chat_step sample_externals sample_config) (new_service 12) S \<and>
    tasks (rs_capacity (sv_router S)) ! 0 = Holding (ModelCapacityKey sample_node ''m'') True \<and>
    (\<exists>ch \<in> set (sv_chats S). chat_task ch = Some (0, ModelCapacityKey sample_node ''m''))"
proof -
  obtain S where S: "run_steps (chat_step sample_externals sample_config) (new_service 12) sample_events = Some S"
    and ts: "tasks (rs_capacity (sv_router S)) = [Holding (ModelCapacityKey sample_node ''m'') True]"
    using sample_run by blast
  from S have "reachable_by (chat_step sample_externals sample_config) (new_service 12) S"
    by (rule run_steps_reachable [OF reach_start])
  with guards_belong_to_live_requests [OF this, of 0] ts show ?thesis
    by (intro exI [of _ S]) auto
qed

section \<open>Requests stay with their session's node\<close>

text \<open>C26: In every state the service reaches, each request under way is bound as it was admitted: its
  tunnel exists and is one of its session's node, its capacity key is that node with the requested
  model, its user is not the zero address and, where budgets are enforced, its session had budget
  left; no reconnection, replacement or refresh of a node in between changes that.\<close>

theorem requests_stay_on_their_node:
  assumes "reachable_by (chat_step X K) (new_service ttl) S" "i < length (sv_chats S)"
  shows "case sv_chats S ! i of
      ChatAdmitting auth p headers t \<Rightarrow> bound_to K (sv_router S) auth p
    | ChatAnswering auth p rid c t frames \<Rightarrow> bound_to K (sv_router S) auth p
    | ChatStreaming auth p rid c t st \<Rightarrow> bound_to K (sv_router S) auth p
    | ChatDone out \<Rightarrow> True"
  using service_invD(3) [OF service_reaches [OF assms(1)] assms(2)]
  by (cases "sv_chats S ! i") simp_all

theorem requests_stay_on_their_node_witness:
  "\<exists>S. reachable_by (chat_step sample_externals sample_config) (new_service 12) S \<and>
    sv_chats S ! 0 = ChatAnswering sample_chat_auth sample_chat_plan 1 0 0 [] \<and>
    tn_node_id (rs_store (sv_router S) ! 0) = sample_node"
proof -
  obtain S where S: "run_steps (chat_step sample_externals sample_config) (new_service 12) sample_events = Some S"
    and ch: "sv_chats S = [ChatAnswering sample_chat_auth sample_chat_plan 1 0 0 []]"
    using sample_run by blast
  from S have "reachable_by (chat_step sample_externals sample_config) (new_service 12) S"
    by (rule run_steps_reachable [OF reach_start])
  with requests_stay_on_their_node [OF this, of 0] ch show ?thesis
    by (intro exI [of _ S]) (auto simp: bound_to_def sample_chat_plan_def sample_chat_auth_def)
qed

section \<open>From the request frame to the answer\<close>

lemma upto_terminal_chunks: "upto_terminal (map Chunk ds @ End e # fs) = map Chunk ds @ [End e]"
  by (induction ds) simp_all

text \<open>C9: An admitted request and the node's answer to it: the frame that goes out carries the checked body
  to the node, and when the node's frames for this request are an answer that fits in the channel,
  interleaved in any way with those of other requests, then what is collected is exactly that
  answer, with the node's final status and its chunks in order, the usage in it is charged to the
  session of the request, and the request is no longer registered.\<close>

theorem chat_answer_end_to_end:
  assumes "registry_wf rs" "cp_tunnel p < length (rs_store rs)"
    and "chat_forward enc p None rid headers release rs = (Inr c, rs')"
    and "frames_for rid fs = Response s h # map Chunk ds @ End e # late"
    and "length ds + 2 \<le> channel_capacity" "status_of e = Some e"
    and "t = tunnel_at rs' (cp_tunnel p)" "frames = ch_buf (tn_channels (route_stream t fs) ! c)"
  shows "tn_outbox t = tn_outbox (tunnel_at rs (cp_tunnel p)) @
      [Request rid ''POST'' ''/v1/chat/completions'' headers (Some (cp_body p))] \<and>
    chat_answer parse status_of has_batcher sid frames timed_out =
      (Inr (e, concat ds), record_parsed_usage has_batcher sid (extract_usage_from_body parse (concat ds))) \<and>
    pending_lookup (route_stream t fs) rid = None"
proof -
  obtain t' where fw: "forward_http_request rid ''POST'' ''/v1/chat/completions'' headers (Some (cp_body p))
      (tunnel_at rs (cp_tunnel p)) = (Inr c, t')" and "rs' = update_tunnel (cp_tunnel p) (\<lambda>_. t')
      (emit_capacity enc (cp_key p) (cp_concurrency p) rs)"
    using assms(3) by (auto simp: chat_forward_def Let_def split: sum.splits prod.splits)
  then have t: "t = t'"
    using assms(2,7) by (simp add: tunnel_at_def update_tunnel_def)
  have "tunnel_wf t'"
    using forward_wf(1) [OF registry_wf_tunnel [OF assms(1,2)]] fw by (metis snd_conv)
  note stream = request_channel_stream [OF this forward_registers(1) [OF fw], of fs]
  have "frames = Response s h # map Chunk ds @ [End e]" "pending_lookup (route_stream t fs) rid = None"
    using stream assms(4,5) by (simp_all add: t assms(8) forward_registers(2) [OF fw] upto_terminal_chunks)
  moreover from this have "collect_http_response status_of frames timed_out = Inr (e, concat ds)"
    using assms(6) by (simp add: collect_http_response_def collect_chunks)
  ultimately show ?thesis
    using forward_registers(3) [OF fw] by (simp add: t chat_answer_def)
qed

theorem chat_answer_end_to_end_witness:
  "\<exists>rs'. chat_forward sample_enc sample_plan None 1 (JObj []) id sample_router = (Inr 0, rs') \<and>
    chat_answer (\<lambda>_. None) Some True 7
      (ch_buf (tn_channels (route_stream (tunnel_at rs' 0)
        [(1, Response 200 JNull), (2, Chunk ''z''), (1, Chunk ''a''), (1, Chunk ''b''), (1, End 200)]) ! 0)) False =
      (Inr (200, ''ab''), record_parsed_usage True 7 (extract_usage_from_body (\<lambda>_. None) ''ab''))"
proof -
  let ?fs = "[(1, Response 200 JNull), (2, Chunk ''z''), (1, Chunk ''a''), (1, Chunk ''b''), (1, End 200)] :: (uuid \<times> inbound_frame) list"
  have wf: "registry_wf sample_router"
    using registry_wf_start tunnel.inv_start
    by (auto simp: registry_wf_def sample_router_def registry_get_def new_router_state_def new_tunnel_def)
  have fits: "cp_tunnel sample_plan < length (rs_store sample_router)"
    by (simp add: sample_plan_def sample_router_def)
  obtain rs' where fw: "chat_forward sample_enc sample_plan None 1 (JObj []) id sample_router = (Inr 0, rs')"
    by (simp add: chat_forward_def Let_def sample_plan_def sample_router_def forward_http_request_def
        register_pending_def send_frame_def new_tunnel_def pending_insert_def tunnel_at_def)
  have "frames_for 1 ?fs = Response 200 JNull # map Chunk [''a'', ''b''] @ End 200 # []"
    by (simp add: frames_for_def)
  from chat_answer_end_to_end [OF wf fits fw this _ _ refl refl, of Some "\<lambda>_. None" True 7 False] fw
  show ?thesis
    by (simp add: channel_capacity_def sample_plan_def)
qed

section \<open>Usage only with a batcher\<close>

definition unmetered :: "chat_service \<Rightarrow> bool" where
  "unmetered S \<longleftrightarrow> sv_records S = [] \<and> bt_sessions (sv_usage S) = [] \<and> bt_jobs (sv_usage S) = []"

lemma unmetered_cong:
  "unmetered S \<Longrightarrow> sv_records S' = sv_records S \<Longrightarrow> sv_usage S' = sv_usage S \<Longrightarrow> unmetered S'"
  by (simp add: unmetered_def)

lemma no_record_without_batcher [simp]: "record_parsed_usage False sid u = None"
  by (simp add: record_parsed_usage_def split: option.split)

lemma unmetered_finish: "\<not> kc_has_batcher K \<Longrightarrow> unmetered S \<Longrightarrow> unmetered (finish_answer X K i auth p rid c t fs b S)"
  by (auto simp: finish_answer_def unmetered_def set_chat_def chat_answer_def Let_def split: prod.split sum.split)

lemma unmetered_stream: "\<not> kc_has_batcher K \<Longrightarrow> unmetered S \<Longrightarrow> unmetered (stream_step X K i inp buf S)"
  by (auto simp: stream_step_def unmetered_def set_chat_def Let_def split: chat.split)

lemma unmetered_set_chat [simp]: "unmetered (set_chat i ch S) = unmetered S"
  by (simp add: unmetered_def set_chat_def)

lemma unmetered_router [simp]: "unmetered (S\<lparr>sv_router := rs\<rparr>) = unmetered S"
  by (simp add: unmetered_def)

lemma unmetered_step:
  assumes "\<not> kc_has_batcher K" "unmetered S" "chat_step X K S e = Some S'"
  shows "unmetered S'"
proof -
  have turn: "chat_turn X K S e = Some S'"
    using assms(3) by (simp add: chat_step_def split: option.splits if_splits)
  note ends = unmetered_finish [OF assms(1)] unmetered_stream [OF assms(1)]
  show ?thesis
  proof (cases e)
    case (ChatRequest fetch now hdr body headers)
    then show ?thesis
      using turn assms(2) by (auto simp: request_chat_def Let_def unmetered_def split: prod.splits sum.splits)
  next
    case (UsageSweep fetch now)
    then show ?thesis
      using turn assms(2) by (auto simp: unmetered_def sweep_timeouts_def)
  next
    case (RecordUsage fetch now)
    then show ?thesis
      using turn assms(2) by (auto simp: unmetered_def record_next_def)
  next
    case (NodeSide r)
    then show ?thesis
      using turn assms(2) by (auto split: if_splits)
  qed (use turn assms(2) in \<open>auto simp: admission_turn_def admitted_chat_def receive_answer_def timeout_answer_def
      bridge_step_def end_bridge_def pull_stream_def deadline_stream_def abort_chat_def Let_def
      intro!: ends split: chat.splits option.splits prod.splits sum.splits if_splits recv_result.splits list.splits\<close>)
qed

lemma unmetered_reachable:
  assumes "reachable_by (chat_step X K) (new_service ttl) S" "\<not> kc_has_batcher K"
  shows "unmetered S"
  using assms(1)
  by (induction rule: reachable_by.induct)
    (auto simp: new_service_def new_batcher_def unmetered_def [of "\<lparr>sv_router = _, sv_usage = _, sv_chats = _, sv_records = _\<rparr>"]
      intro: unmetered_step [OF assms(2)])

end
