(* ===== verification/Capacity_Progress.thy ===== *)
theory Capacity_Progress
  imports Capacity_Refinement
begin

text \<open>
  Progress of admission control (\<open>acquire\<close> of \<open>src/capacity/mod.rs\<close>). The loop retries whenever a
  compare-exchange finds another value than the one it loaded. A potential shows that retries are
  paid for by the progress of others: the number of atomic accesses of a run is bounded by what
  happened in it. And a task that is left alone decides after a fixed number of its own steps.
\<close>

section \<open>The potential of the retry loop\<close>

text \<open>A compare-exchange that is bound to fail: its word has changed since it was loaded.\<close>

fun stale :: "cap_state \<Rightarrow> task \<Rightarrow> bool" where
  "stale s (CasActive k c m r a) = (slot_active (heap s ! r) \<noteq> a)"
| "stale s (CasQueued k c m r q) = (slot_queued (heap s ! r) \<noteq> q)"
| "stale s _ = False"

text \<open>The accesses up to the task's next decision, when nobody interferes.\<close>

fun own_accesses :: "task \<Rightarrow> nat" where
  "own_accesses (Entering k c m) = 4"
| "own_accesses (Looping k c m r) = 3"
| "own_accesses (CasActive k c m r a) = 1"
| "own_accesses (CheckQueue k c m r a) = 2"
| "own_accesses (CasQueued k c m r q) = 1"
| "own_accesses (TimedOut c r) = 2"
| "own_accesses (TimedOutRead c r q) = 1"
| "own_accesses _ = 0"

text \<open>A task that may still change a word by itself.\<close>

fun contends :: "task \<Rightarrow> bool" where
  "contends (Entering k c m) = True"
| "contends (Looping k c m r) = True"
| "contends (CasActive k c m r a) = True"
| "contends (CheckQueue k c m r a) = True"
| "contends (CasQueued k c m r q) = True"
| "contends _ = False"

definition remaining :: "cap_state \<Rightarrow> task \<Rightarrow> nat" where
  "remaining s t = own_accesses t + (if stale s t then 3 else 0)"

definition retry_potential :: "nat \<Rightarrow> cap_state \<Rightarrow> nat" where
  "retry_potential N s =
     sum_list (map (remaining s) (tasks s)) + 3 * N * count_if contends (tasks s)"

fun accesses :: "cap_event \<Rightarrow> nat" where
  "accesses (Run i ok) = 1"
| "accesses _ = 0"

fun access_budget :: "nat \<Rightarrow> cap_event \<Rightarrow> nat" where
  "access_budget N (Spawn k c m) = 3 * N + 4"
| "access_budget N (Run i ok) = (if ok then 0 else 3)"
| "access_budget N (Wake i notified) = 6 * N"
| "access_budget N (DropGuard i) = 3 * N"
| "access_budget N _ = 0"

lemma sum_list_map_le_plus:
  fixes f g :: "'a \<Rightarrow> nat"
  shows "\<forall>x \<in> set xs. g x \<le> f x + d \<Longrightarrow> sum_list (map g xs) \<le> sum_list (map f xs) + d * length xs"
  by (induction xs) auto

text \<open>What a step of task \<open>i\<close> does to the sum: its own part changes, the others grow by at most \<open>d\<close> each.\<close>

lemma sum_remaining_update:
  assumes i: "i < length ts" and d: "\<And>t. t \<in> set ts \<Longrightarrow> remaining s' t \<le> remaining s t + d"
  shows "sum_list (map (remaining s') (ts[i := u])) + remaining s (ts ! i) \<le>
    sum_list (map (remaining s) ts) + remaining s' u + d * (length ts - 1)"
proof -
  let ?xs = "take i ts" and ?ys = "drop (Suc i) ts"
  have ts: "ts = ?xs @ ts ! i # ?ys" and up: "ts[i := u] = ?xs @ u # ?ys"
    using i by (simp_all add: id_take_nth_drop upd_conv_take_nth_drop)
  have "sum_list (map (remaining s') ?xs) \<le> sum_list (map (remaining s) ?xs) + d * length ?xs"
    "sum_list (map (remaining s') ?ys) \<le> sum_list (map (remaining s) ?ys) + d * length ?ys"
    by (rule sum_list_map_le_plus, use d in \<open>blast dest: in_set_takeD in_set_dropD\<close>)+
  moreover have "d * length ?xs + d * length ?ys = d * (length ts - 1)"
    using i by (simp add: distrib_left [symmetric])
  moreover have "sum_list (map (remaining s) ts) =
      sum_list (map (remaining s) ?xs) + remaining s (ts ! i) + sum_list (map (remaining s) ?ys)"
    by (subst ts) simp
  ultimately show ?thesis
    by (simp add: up)
qed

lemma remaining_any: "remaining s' t \<le> remaining s t + 3"
  by (simp add: remaining_def)

lemma remaining_same_heap:
  "heap s' = heap s \<Longrightarrow> remaining s' t = remaining s t"
  by (cases t) (simp_all add: remaining_def)

lemma remaining_longer_heap:
  "task_wf (length (heap s)) t \<Longrightarrow> heap s' = heap s @ hs \<Longrightarrow> remaining s' t = remaining s t"
  by (cases t) (simp_all add: remaining_def nth_append)

lemma count_weighted:
  fixes m x y :: nat
  assumes "x + (if p then 1 else 0) = y + (if q then 1 else 0)"
  shows "m * x + (if p then m else 0) = m * y + (if q then m else 0)"
  using assms by (cases p; cases q) auto

lemma retry_potential_update:
  assumes i: "i < length (tasks s)" and ts: "tasks s' = (tasks s)[i := u]"
    and d: "\<And>t. t \<in> set (tasks s) \<Longrightarrow> remaining s' t \<le> remaining s t + d"
  shows "retry_potential N s' + remaining s (tasks s ! i) + (if contends (tasks s ! i) then 3 * N else 0) \<le>
    retry_potential N s + remaining s' u + d * (length (tasks s) - 1) + (if contends u then 3 * N else 0)"
proof -
  have "count_if contends (tasks s') + (if contends (tasks s ! i) then 1 else 0) =
      count_if contends (tasks s) + (if contends u then 1 else 0)"
    using count_if_update [OF i] by (simp add: ts)
  then have "3 * N * count_if contends (tasks s') + (if contends (tasks s ! i) then 3 * N else 0) =
      3 * N * count_if contends (tasks s) + (if contends u then 3 * N else 0)"
    by (rule count_weighted)
  with sum_remaining_update [OF i d, of u] show ?thesis
    by (simp add: retry_potential_def ts)
qed


section \<open>Every step is paid for\<close>

text \<open>The system with at most \<open>N\<close> requests.\<close>

definition bounded_step :: "nat \<Rightarrow> cap_state \<Rightarrow> cap_event \<Rightarrow> cap_state option" where
  "bounded_step N s e =
     (case cap_step s e of None \<Rightarrow> None | Some t \<Rightarrow> if length (tasks t) \<le> N then Some t else None)"

lemma retry_run:
  assumes inv: "queue_inv s" and i: "i < length (tasks s)" and N: "length (tasks s) \<le> N"
    and u: "task_step ok (tasks s ! i) s = Some (u, s')"
  shows "1 + retry_potential N (s'\<lparr>tasks := (tasks s)[i := u]\<rparr>) \<le> retry_potential N s + (if ok then 0 else 3)"
proof -
  let ?t = "s'\<lparr>tasks := (tasks s)[i := u]\<rparr>"
  note wf = queue_invD(1) [OF inv i]
  note upd = retry_potential_update [OF i, where s' = ?t and u = u and N = N, simplified]
  have same: ?thesis
    if "heap s' = heap s" "1 + remaining ?t u \<le> remaining s (tasks s ! i) + (if ok then 0 else 3)"
      "contends u \<longrightarrow> contends (tasks s ! i)"
  proof -
    have "remaining ?t t \<le> remaining s t + 0" for t
      using remaining_same_heap [of ?t s t] that(1) by simp
    from upd [OF this] that(2,3) show ?thesis by (auto split: if_splits)
  qed
  have change: ?thesis
    if "contends (tasks s ! i)" "\<not> contends u" "remaining ?t u = 0" "remaining s (tasks s ! i) = 1"
  proof -
    have "3 * (length (tasks s) - 1) \<le> 3 * N" using N by simp
    with upd [OF remaining_any] that show ?thesis by simp
  qed
  show ?thesis
  proof (cases "tasks s ! i")
    case (Entering k c m)
    show ?thesis
    proof (cases rule: slot_for_cases [of s k])
      case known
      with Entering u show ?thesis
        by (intro same) (auto simp: remaining_def split: if_splits)
    next
      case fresh
      then obtain hs where hs: "heap s' = heap s @ hs" and u': "u = Holding k True \<or> (\<exists>r. u = Looping k c m r)"
        using Entering u by (auto split: if_splits)
      have "remaining ?t t \<le> remaining s t + 0" if "t \<in> set (tasks s)" for t
        using remaining_longer_heap [of s t ?t hs] inv that hs by (simp add: queue_inv_def)
      from upd [OF this] Entering u' show ?thesis
        by (auto simp: remaining_def)
    qed
  next
    case (CasActive k c m r a)
    show ?thesis
    proof (cases "ok \<and> slot_active (heap s ! r) = a")
      case True
      with CasActive u show ?thesis by (intro change) (auto simp: remaining_def)
    next
      case False
      with CasActive u show ?thesis by (intro same) (auto simp: remaining_def)
    qed
  next
    case (CasQueued k c m r q)
    show ?thesis
    proof (cases "ok \<and> slot_queued (heap s ! r) = q")
      case True
      with CasQueued u show ?thesis by (intro change) (auto simp: remaining_def)
    next
      case False
      with CasQueued u show ?thesis by (intro same) (auto simp: remaining_def)
    qed
  qed (rule same; use u in \<open>auto simp: Let_def remaining_def split: if_splits\<close>)+
qed


lemma retry_change:
  assumes i: "i < length (tasks s)" and N: "length (tasks s) \<le> N" and t: "tasks t = (tasks s)[i := u]"
    and u: "own_accesses u \<le> 3" "\<not> stale t u"
  shows "retry_potential N t \<le> retry_potential N s + 3 * N + (if contends u then 3 * N else 0)"
proof -
  have "remaining t u \<le> 3"
    using u by (simp add: remaining_def)
  moreover have "3 * (length (tasks s) - 1) + 3 \<le> 3 * N"
    using i N by linarith
  ultimately show ?thesis
    using retry_potential_update [OF i t remaining_any, of N] by linarith
qed

lemma retry_amortised:
  assumes inv: "queue_inv s" and step: "bounded_step N s e = Some t"
  shows "accesses e + retry_potential N t \<le> retry_potential N s + access_budget N e"
proof -
  from step have e: "cap_step s e = Some t" and N: "length (tasks t) \<le> N"
    by (auto simp: bounded_step_def split: option.splits if_splits)
  have longer: "retry_potential N s' \<le> retry_potential N s" if "heap s' = heap s @ hs" "tasks s' = tasks s" for s' hs
  proof -
    have "map (remaining s') (tasks s) = map (remaining s) (tasks s)"
      using inv that(1) by (auto simp: queue_inv_def intro: remaining_longer_heap)
    then show ?thesis by (simp add: retry_potential_def that(2) del: map_eq_conv)
  qed
  show ?thesis
  proof (cases e)
    case (Spawn k c m)
    with e have t: "t = s\<lparr>tasks := tasks s @ [Entering k c m]\<rparr>" by simp
    have "remaining t = remaining s"
      using remaining_same_heap [of t s] t by (simp add: fun_eq_iff)
    then show ?thesis
      by (simp add: t retry_potential_def Spawn remaining_def)
  next
    case (Run i ok)
    with e N retry_run [OF inv, of i N ok] show ?thesis
      by (auto elim!: at_task_Some)
  next
    case (Wake i notified)
    with e obtain k c m r where i: "i < length (tasks s)" and ts: "tasks t =
        (tasks s)[i := if notified then Looping k c m r else TimedOut c r]"
      by (auto elim!: at_task_Some wake_step.elims)
    have "3 * N + (if notified then 3 * N else 0) \<le> 6 * N" by simp
    with retry_change [OF i _ ts] N ts Wake show ?thesis
      by (cases notified) (force simp: ts)+
  next
    case (DropGuard i)
    with e obtain k u where i: "i < length (tasks s)" and ts: "tasks t = (tasks s)[i := Finished]"
      by (auto elim!: at_task_Some drop_guard.elims)
    show ?thesis
      using retry_change [OF i _ ts, of N] N ts DropGuard by simp
  next
    case (Cancel i)
    with e obtain k c m r where i: "i < length (tasks s)" and ti: "tasks s ! i = Waiting k c m r"
      and t: "t = s\<lparr>tasks := (tasks s)[i := Abandoned r]\<rparr>"
      by (auto elim!: at_task_Some cancel_step.elims)
    have "remaining t x \<le> remaining s x + 0" for x
      using remaining_same_heap [of t s x] t by simp
    from retry_potential_update [OF i _ this, of "Abandoned r" N] show ?thesis
      using t Cancel ti by (simp add: remaining_def)
  next
    case (Snapshot k)
    with e have "t = snd (slot_for k s)" by (simp add: snapshot_def case_prod_beta)
    then show ?thesis
      using Snapshot by (cases rule: slot_for_cases [of s k]) (auto intro: longer)
  next
    case (ClearNode n)
    with e longer [of t "[]"] show ?thesis
      by (auto simp: clear_node_def)
  qed
qed

interpretation retries: amortised_system new_tracker "bounded_step N" queue_inv "retry_potential N" accesses
  "access_budget N" for N
proof unfold_locales
  show "queue_inv t" if "queue_inv s" "bounded_step N s e = Some t" for s e t
    using that by (auto simp: bounded_step_def split: option.splits if_splits intro: queue_inv_step)
qed (simp_all add: queueing.inv_start retry_amortised)


section \<open>No livelock\<close>

fun is_spawn :: "cap_event \<Rightarrow> bool" where
  "is_spawn (Spawn k c m) = True"
| "is_spawn _ = False"

fun is_access :: "cap_event \<Rightarrow> bool" where
  "is_access (Run i ok) = True"
| "is_access _ = False"

fun is_wake :: "cap_event \<Rightarrow> bool" where
  "is_wake (Wake i notified) = True"
| "is_wake _ = False"

fun is_drop :: "cap_event \<Rightarrow> bool" where
  "is_drop (DropGuard i) = True"
| "is_drop _ = False"

fun is_spurious :: "cap_event \<Rightarrow> bool" where
  "is_spurious (Run i ok) = (\<not> ok)"
| "is_spurious _ = False"

lemma tasks_step_length:
  "cap_step s e = Some t \<Longrightarrow> length (tasks t) = length (tasks s) + (if is_spawn e then 1 else 0)"
  by (cases e) (auto elim!: at_task_Some)

lemma tasks_run_length:
  "run_steps cap_step s es = Some t \<Longrightarrow> length (tasks t) = length (tasks s) + count_if is_spawn es"
  by (induction cap_step s es rule: run_steps.induct) (auto dest: tasks_step_length split: option.splits)

lemma bounded_run:
  "run_steps cap_step s es = Some t \<Longrightarrow> length (tasks t) \<le> N \<Longrightarrow> run_steps (bounded_step N) s es = Some t"
proof (induction es arbitrary: s)
  case (Cons e es)
  from Cons.prems(1) obtain u where u: "cap_step s e = Some u" "run_steps cap_step u es = Some t"
    by (auto split: option.splits)
  then have "length (tasks u) \<le> N"
    using tasks_run_length [of u es t] Cons.prems(2) by simp
  with u Cons show ?case
    by (simp add: bounded_step_def)
qed simp

lemma accesses_counted: "sum_list (map accesses es) = count_if is_access es"
proof (induction es)
  case (Cons e es)
  then show ?case by (cases e) simp_all
qed simp

lemma budget_counted:
  "sum_list (map (access_budget N) es) =
    (3 * N + 4) * count_if is_spawn es + 6 * N * count_if is_wake es + 3 * N * count_if is_drop es +
    3 * count_if is_spurious es"
proof (induction es)
  case (Cons e es)
  then show ?case by (cases e) simp_all
qed simp

text \<open>C8: The retry loop of the admission is lock-free. However the atomic accesses of concurrent requests
  interleave, their number in a run with \<open>n\<close> requests is bounded by what happens in it: at most
  \<open>3 n + 4\<close> per request, \<open>6 n\<close> per wait that ends, \<open>3 n\<close> per guard dropped and 3 per spurious failure of a
  weak compare-exchange. No request spins while nothing else gets on.\<close>

theorem acquire_is_lock_free:
  assumes "run_steps cap_step new_tracker es = Some s" and "n = count_if is_spawn es"
  shows "count_if is_access es \<le>
    (3 * n + 4) * n + 6 * n * count_if is_wake es + 3 * n * count_if is_drop es + 3 * count_if is_spurious es"
proof -
  have "length (tasks s) = n"
    using tasks_run_length [OF assms(1)] assms(2) by (simp add: new_tracker_def)
  then have "run_steps (bounded_step n) new_tracker es = Some s"
    using bounded_run [OF assms(1), of n] by simp
  from retries.amortised_run [OF this] show ?thesis
    by (simp add: accesses_counted budget_counted assms(2) retry_potential_def new_tracker_def)
qed


text \<open>Two requests for one place: the compare-exchange of the second finds the word changed, and it loads
  again.\<close>

theorem acquire_is_lock_free_witness:
  "\<exists>s. run_steps cap_step new_tracker
      [Spawn example_key 1 0, Spawn example_key 1 0, Run 0 True, Run 1 True, Run 0 True, Run 1 True,
       Run 0 True, Run 1 True, Run 1 True] = Some s \<and>
    tasks s ! 1 = CheckQueue example_key 1 0 0 1 \<and> (7::nat) \<le> (3 * 2 + 4) * 2"
proof -
  let ?es = "[Spawn example_key 1 0, Spawn example_key 1 0, Run 0 True, Run 1 True, Run 0 True, Run 1 True,
       Run 0 True, Run 1 True, Run 1 True]"
  obtain s where run: "run_steps cap_step new_tracker ?es = Some s" and "tasks s ! 1 = CheckQueue example_key 1 0 0 1"
    by (simp add: at_task_def new_tracker_def slot_for_def Let_def set_active_def)
  then show ?thesis
    using acquire_is_lock_free [OF run refl] by simp
qed

section \<open>A request that is left alone decides\<close>

text \<open>The next step a request takes by itself: its next access, or the end of its wait by the timeout.\<close>

fun own_turn :: "nat \<Rightarrow> task \<Rightarrow> cap_event" where
  "own_turn i (Waiting k c m r) = Wake i False"
| "own_turn i t = Run i True"

fun decided :: "task \<Rightarrow> bool" where
  "decided (Holding k u) = True"
| "decided (Failed e) = True"
| "decided _ = False"

fun undecided :: "task \<Rightarrow> bool" where
  "undecided (Abandoned r) = False"
| "undecided Finished = False"
| "undecided t = (\<not> decided t)"

fun turns_left :: "cap_state \<Rightarrow> task \<Rightarrow> nat" where
  "turns_left s (Entering k c m) = 7"
| "turns_left s (Looping k c m r) = 6"
| "turns_left s (CasActive k c m r a) = (if slot_active (heap s ! r) = a then 1 else 7)"
| "turns_left s (CheckQueue k c m r a) = 5"
| "turns_left s (CasQueued k c m r q) = (if slot_queued (heap s ! r) = q then 4 else 7)"
| "turns_left s (Waiting k c m r) = 3"
| "turns_left s (TimedOut c r) = 2"
| "turns_left s (TimedOutRead c r q) = 1"
| "turns_left s t = 0"

lemma turns_left_bound: "turns_left s t \<le> 7"
  by (cases t) simp_all

lemma own_turn_advances:
  assumes "i < length (tasks s)" "undecided (tasks s ! i)"
  shows "\<exists>t. cap_step s (own_turn i (tasks s ! i)) = Some t \<and> length (tasks t) = length (tasks s) \<and>
    (undecided (tasks t ! i) \<or> decided (tasks t ! i)) \<and>
    turns_left t (tasks t ! i) < turns_left s (tasks s ! i)"
  using assms
  by (cases "tasks s ! i")
    (auto simp: at_task_def Let_def slot_for_def split: prod.split option.split)


section \<open>Waiting beside a free place\<close>

text \<open>The check of \<open>active\<close> and the start of the wait are not one access. When guards are dropped in between,
  requests come to wait although places are free, and only a notification or their timeout moves them; as
  notifications that find nobody waiting yet are kept as a single permit, two such drops wake one of the
  two.\<close>

theorem waiters_beside_free_places:
  "\<exists>s. run_steps cap_step new_tracker
      ([Spawn example_key 2 2, Spawn example_key 2 2, Spawn example_key 2 2, Spawn example_key 2 2] @
       [Run 0 True, Run 0 True, Run 0 True, Run 1 True, Run 1 True, Run 1 True] @
       [Run 2 True, Run 2 True, Run 2 True, Run 2 True, Run 3 True, Run 3 True] @
       [DropGuard 0, DropGuard 1, Run 3 True, Run 3 True]) = Some s \<and>
    tasks s = [Finished, Finished, Waiting example_key 2 2 0, Waiting example_key 2 2 0] \<and>
    slot_active (heap s ! 0) = 0"
  by (simp add: at_task_def new_tracker_def slot_for_def Let_def set_active_def set_queued_def release_inner_def)
    (simp add: word_le_nat_alt)

end
