(* ===== verification/Chat_Steps.thy ===== *)
theory Chat_Steps
  imports Chat_Invariant Capacity_Progress
begin

text \<open>
  What one step of a chat request (theory \<open>Chat_Service\<close>) may change, stated once for all its handlers:
  its own entry, its own admission task, and the usage queue, at most once, when the request ends.
  From it: every request has an admission task of its own, which is alive while the request waits
  for it.
\<close>

section \<open>What a request owns\<close>

text \<open>The number of the request's admission task, as long as the request knows it.\<close>

fun ticket :: "chat \<Rightarrow> nat option" where
  "ticket (ChatAdmitting auth p headers t) = Some t"
| "ticket (ChatAnswering auth p rid c t frames) = Some t"
| "ticket (ChatStreaming auth p rid c t st) = Some t"
| "ticket (ChatDone out) = None"

fun admitting :: "chat \<Rightarrow> bool" where
  "admitting (ChatAdmitting auth p headers t) = True"
| "admitting _ = False"

text \<open>A request is over when it has its outcome, or when its stream has completed.\<close>

fun chat_over :: "chat \<Rightarrow> bool" where
  "chat_over (ChatDone out) = True"
| "chat_over (ChatStreaming auth p rid c t st) = (ss_completions (st_sse st) \<noteq> [])"
| "chat_over _ = False"

fun chat_session_id :: "chat \<Rightarrow> u64 option" where
  "chat_session_id (ChatAdmitting auth p headers t) = Some (as_session_id auth)"
| "chat_session_id (ChatAnswering auth p rid c t frames) = Some (as_session_id auth)"
| "chat_session_id (ChatStreaming auth p rid c t st) = Some (as_session_id auth)"
| "chat_session_id (ChatDone out) = None"

definition alive :: "task \<Rightarrow> bool" where
  "alive t \<longleftrightarrow> undecided t \<or> decided t"

lemma alive_simps [simp]:
  "alive (Entering k c m)" "alive (Holding k u)" "alive (Failed e)" "\<not> alive (Abandoned r)" "\<not> alive Finished"
  by (simp_all add: alive_def)

text \<open>Requests come and go without a change to which nodes are connected.\<close>

definition same_nodes :: "router_state \<Rightarrow> router_state \<Rightarrow> bool" where
  "same_nodes rs rs' \<longleftrightarrow> rs_tunnels rs' = rs_tunnels rs \<and> rs_connected rs' = rs_connected rs \<and>
     length (rs_store rs') = length (rs_store rs)"

lemma same_nodes_frame [simp]:
  "same_nodes rs rs"
  "same_nodes rs (rs'\<lparr>rs_capacity := ca\<rparr>) = same_nodes rs rs'"
  "same_nodes rs (update_tunnel i f rs') = same_nodes rs rs'"
  "same_nodes rs (emit_capacity enc k c rs') = same_nodes rs rs'"
  "same_nodes rs (release_guard t rs') = same_nodes rs rs'"
  by (simp_all add: same_nodes_def update_tunnel_def emit_capacity_def release_guard_def split: prod.split option.split)

lemma chat_forward_nodes:
  "chat_forward enc p acquired rid hdr (release_guard t) rs = (r, rs') \<Longrightarrow> same_nodes rs rs'"
  by (auto simp: chat_forward_def Let_def split: option.splits prod.splits sum.splits)

text \<open>Request \<open>i\<close> moves from \<open>ch\<close> to \<open>ch'\<close>, its task is \<open>t\<close>, and \<open>us\<close> is the usage it queues.\<close>

definition chat_moves ::
  "nat \<Rightarrow> chat_service \<Rightarrow> chat_service \<Rightarrow> chat \<Rightarrow> nat \<Rightarrow> (u64 \<times> u64 \<times> u64) list \<Rightarrow> bool" where
  "chat_moves i S S' ch' t us \<longleftrightarrow>
     ticket (sv_chats S ! i) = Some t \<and> sv_chats S' = (sv_chats S)[i := ch'] \<and>
     (ticket ch' = Some t \<or> ticket ch' = None) \<and>
     (chat_session_id ch' = chat_session_id (sv_chats S ! i) \<or> chat_session_id ch' = None) \<and>
     router_tasks (sv_router S') = (router_tasks (sv_router S))[t := router_tasks (sv_router S') ! t] \<and>
     (admitting ch' \<longrightarrow> admitting (sv_chats S ! i) \<and>
       (alive (router_tasks (sv_router S) ! t) \<longrightarrow> alive (router_tasks (sv_router S') ! t))) \<and>
     same_nodes (sv_router S) (sv_router S') \<and>
     sv_usage S' = sv_usage S \<and> sv_records S' = sv_records S @ us \<and> length us \<le> 1 \<and>
     (us \<noteq> [] \<longrightarrow> \<not> chat_over (sv_chats S ! i) \<and> chat_over ch') \<and>
     (chat_over (sv_chats S ! i) \<longrightarrow> chat_over ch') \<and>
     (\<forall>u \<in> set us. chat_session_id (sv_chats S ! i) = Some (fst u))"

lemma tasks_same: "ts' = ts \<Longrightarrow> ts' = ts[t := ts' ! t]"
  by (metis list_update_id)

lemma at_task_only:
  assumes "at_task t f s = Some s'"
  shows "tasks s' = (tasks s)[t := tasks s' ! t]"
  using assms by (auto elim!: at_task_Some)

lemma release_guard_only:
  "router_tasks (release_guard t rs) = (router_tasks rs)[t := router_tasks (release_guard t rs) ! t]"
  using at_task_only [of t drop_guard "rs_capacity rs"]
  by (auto simp: release_guard_def router_tasks_def split: option.split)

lemma chat_forward_only:
  assumes "chat_forward enc p acquired rid hdr (release_guard t) rs = (r, rs')"
  shows "router_tasks rs' = (router_tasks rs)[t := router_tasks rs' ! t]"
proof (cases "acquired = None \<and> (\<exists>e. r = Inl e)")
  case True
  let ?rs1 = "emit_capacity enc (cp_key p) (cp_concurrency p) rs"
  obtain q u where "forward_http_request rid ''POST'' ''/v1/chat/completions'' hdr (Some (cp_body p))
      (tunnel_at ?rs1 (cp_tunnel p)) = (q, u)" by fastforce
  with assms True have "router_tasks rs' = router_tasks (release_guard t (update_tunnel (cp_tunnel p) (\<lambda>_. u) ?rs1))"
    by (auto simp: chat_forward_def Let_def split: sum.splits)
  with release_guard_only [of t "update_tunnel (cp_tunnel p) (\<lambda>_. u) ?rs1"] show ?thesis
    by simp
next
  case False
  then have "acquired \<noteq> None \<or> (\<exists>c. r = Inr c)"
    by (cases r) auto
  then show ?thesis
    using chat_forward_tasks(3) [OF assms] by (blast intro: tasks_same)
qed

lemma moves_turn:
  assumes run: "admission_turn ev i S = Some S'" and i: "i < length (sv_chats S)"
    and ev: "\<And>t. ev t = Run t ok \<or> ev t = Wake t ok"
  shows "\<exists>t. chat_moves i S S' (sv_chats S ! i) t []"
proof -
  from run obtain auth p hdr t s where ch: "sv_chats S ! i = ChatAdmitting auth p hdr t"
    and s: "cap_step (rs_capacity (sv_router S)) (ev t) = Some s"
    and S': "S' = S\<lparr>sv_router := (sv_router S)\<lparr>rs_capacity := s\<rparr>\<rparr>"
    by (auto simp: admission_turn_def split: chat.splits option.splits)
  from s ev [of t] obtain f where f: "at_task t f (rs_capacity (sv_router S)) = Some s"
    "f = task_step ok \<or> f = wake_step ok"
    by auto
  have "alive (tasks s ! t)" if "alive (tasks (rs_capacity (sv_router S)) ! t)"
    using f that
    by (auto simp: alive_def Let_def elim!: at_task_Some task_step.elims wake_step.elims split: if_splits prod.splits)
  moreover have "(sv_chats S)[i := ChatAdmitting auth p hdr t] = sv_chats S"
    using ch by (metis list_update_id)
  ultimately show ?thesis
    using ch S' at_task_only [OF f(1)] by (auto simp: chat_moves_def router_tasks_def)
qed


lemma recorded_for: "record_parsed_usage has_batcher sid usage = Some u \<Longrightarrow> fst u = sid"
  by (auto simp: record_parsed_usage_def split: option.splits if_splits)

lemma option_list [simp]:
  "length (case x of None \<Rightarrow> [] | Some u \<Rightarrow> [u]) \<le> Suc 0"
  "set (case x of None \<Rightarrow> [] | Some u \<Rightarrow> [u]) = set_option x"
  by (cases x; simp)+

lemma moves_admitted:
  assumes run: "admitted_chat X i rid S = Some S'" and i: "i < length (sv_chats S)"
  shows "\<exists>ch' t. chat_moves i S S' ch' t []"
proof -
  from run obtain auth p hdr t acq r rs where ch: "sv_chats S ! i = ChatAdmitting auth p hdr t"
    and fw: "chat_forward (x_enc X) p acq rid hdr (release_guard t) (sv_router S) = (r, rs)"
    and S': "S' = (case r of
        Inl e \<Rightarrow> set_chat i (ChatDone (FailedChat e)) (S\<lparr>sv_router := rs\<rparr>)
      | Inr c \<Rightarrow> if cp_stream p then set_chat i (ChatStreaming auth p rid c t new_stream) (S\<lparr>sv_router := rs\<rparr>)
          else set_chat i (ChatAnswering auth p rid c t []) (S\<lparr>sv_router := rs\<rparr>))"
    by (auto simp: admitted_chat_def router_tasks_def Let_def split: chat.splits option.splits prod.splits)
  have "chat_moves i S S' (sv_chats S' ! i) t []"
    using ch S' chat_forward_only [OF fw] chat_forward_nodes [OF fw] i
    by (cases r) (simp_all add: chat_moves_def set_chat_def split: if_splits)
  then show ?thesis by blast
qed

lemma moves_finish:
  assumes ch: "sv_chats S ! i = ChatAnswering auth p rid c t frames" and i: "i < length (sv_chats S)"
    and S1: "S1 = S\<lparr>sv_router := rs\<rparr>" "router_tasks rs = router_tasks (sv_router S)" "same_nodes (sv_router S) rs"
  shows "\<exists>ch' us. chat_moves i S (finish_answer X K i auth p rid c t fs timed_out S1) ch' t us"
proof -
  obtain answer usage where a: "chat_answer (kc_parse K) (kc_status_of K) (kc_has_batcher K) (as_session_id auth)
      fs timed_out = (answer, usage)"
    by fastforce
  let ?S' = "finish_answer X K i auth p rid c t fs timed_out S1"
  let ?out = "ChatDone (case answer of Inl e \<Rightarrow> FailedChat e | Inr (st, body) \<Rightarrow> Answered st body)"
  have tasks: "router_tasks (sv_router ?S') = (router_tasks (sv_router S))[t := router_tasks (sv_router ?S') ! t]"
    using release_guard_only [of t "update_tunnel (cp_tunnel p) (drop_pending rid c) (sv_router S1)"] a S1
    by (simp add: finish_answer_def Let_def)
  have session: "usage = Some u \<Longrightarrow> fst u = as_session_id auth" for u
    using a by (auto simp: chat_answer_def recorded_for split: sum.splits)
  have "chat_moves i S ?S' ?out t (case usage of None \<Rightarrow> [] | Some u \<Rightarrow> [u])"
    unfolding chat_moves_def
    using tasks ch a S1 session by (auto simp: finish_answer_def Let_def set_chat_def split: option.split)
  then show ?thesis by blast
qed

lemma moves_stream:
  assumes inv: "service_inv K S" and ch: "sv_chats S ! i = ChatStreaming auth p rid c t st"
    and i: "i < length (sv_chats S)"
  shows "\<exists>ch' t us. chat_moves i S (stream_step X K i inp buf S) ch' t us"
proof -
  define sse where "sse = sse_step (kc_parse K) (kc_receipt_of K) (kc_quote K) (st_sse st) inp"
  let ?S' = "stream_step X K i inp buf S"
  let ?ch = "ChatStreaming auth p rid c t (st\<lparr>st_sse := sse, st_buf := buf\<rparr>)"
  let ?fires = "ss_completions (st_sse st) = [] \<and> ss_completions sse \<noteq> []"
  have "sse_inv (st_sse st)"
    using service_invD(4) [OF inv i] ch by simp
  then have stay: "ss_completions (st_sse st) \<noteq> [] \<Longrightarrow> ss_completions sse \<noteq> []"
    using sse_step_completed [OF _ sse_def] by auto
  define used where "used = (case record_parsed_usage (kc_has_batcher K) (as_session_id auth)
      (fst (hd (ss_completions sse))) of None \<Rightarrow> [] | Some u \<Rightarrow> [u])"
  have used: "length used \<le> 1" "\<forall>u \<in> set used. fst u = as_session_id auth"
    unfolding used_def by (simp_all add: recorded_for)
  let ?us = "if ?fires then used else []"
  have tasks: "router_tasks (sv_router ?S') = (router_tasks (sv_router S))[t := router_tasks (sv_router ?S') ! t]"
    using release_guard_only [of t "sv_router S"] ch
    by (cases ?fires) (auto simp: stream_step_def Let_def simp flip: sse_def)
  have "chat_moves i S ?S' ?ch t ?us"
    unfolding chat_moves_def
    using tasks ch used stay by (auto simp: stream_step_def Let_def set_chat_def simp flip: sse_def used_def)
  then show ?thesis by blast
qed


lemma moves_bridge:
  assumes run: "bridge_step i S = Some S'" and i: "i < length (sv_chats S)"
  shows "\<exists>ch' t. chat_moves i S S' ch' t []"
proof -
  from run obtain auth p rid c t st where ch: "sv_chats S ! i = ChatStreaming auth p rid c t st"
    by (auto simp: bridge_step_def split: chat.splits)
  have "\<exists>st'. sv_chats S' = (sv_chats S)[i := ChatStreaming auth p rid c t st'] \<and> st_sse st' = st_sse st \<and>
      router_tasks (sv_router S') = router_tasks (sv_router S) \<and> same_nodes (sv_router S) (sv_router S') \<and>
      sv_usage S' = sv_usage S \<and> sv_records S' = sv_records S"
    using run ch
    by (auto simp: bridge_step_def end_bridge_def set_chat_def Let_def split: option.splits recv_result.splits if_splits)
  then obtain st' where st': "sv_chats S' = (sv_chats S)[i := ChatStreaming auth p rid c t st']" "st_sse st' = st_sse st"
    "router_tasks (sv_router S') = router_tasks (sv_router S)" "same_nodes (sv_router S) (sv_router S')"
    "sv_usage S' = sv_usage S" "sv_records S' = sv_records S"
    by blast
  have "chat_moves i S S' (ChatStreaming auth p rid c t st') t []"
    using st' ch tasks_same [OF st'(3)] by (simp add: chat_moves_def)
  then show ?thesis by blast
qed

lemma moves_abort:
  assumes inv: "service_inv K S" and run: "abort_chat X K i S = Some S'" and i: "i < length (sv_chats S)"
  shows "\<exists>ch' t us. chat_moves i S S' ch' t us"
proof (cases "sv_chats S ! i")
  case (ChatAdmitting auth p hdr t)
  with run obtain s where s: "at_task t cancel_step (rs_capacity (sv_router S)) = Some s"
    and S': "S' = set_chat i (ChatDone Aborted) (S\<lparr>sv_router := (sv_router S)\<lparr>rs_capacity := s\<rparr>\<rparr>)"
    by (auto simp: abort_chat_def split: option.splits)
  have "chat_moves i S S' (ChatDone Aborted) t []"
    using at_task_only [OF s] ChatAdmitting S' by (simp add: chat_moves_def router_tasks_def set_chat_def)
  then show ?thesis by blast
next
  case (ChatAnswering auth p rid c t frames)
  let ?rs = "update_tunnel (cp_tunnel p) (drop_pending rid c) (sv_router S)"
  have S': "S' = set_chat i (ChatDone Aborted) (S\<lparr>sv_router := release_guard t ?rs\<rparr>)"
    using run ChatAnswering by (simp add: abort_chat_def)
  have "chat_moves i S S' (ChatDone Aborted) t []"
    using release_guard_only [of t ?rs] ChatAnswering S' by (simp add: chat_moves_def set_chat_def)
  then show ?thesis by blast
next
  case (ChatStreaming auth p rid c t st)
  with run show ?thesis
    by (auto simp: abort_chat_def intro!: moves_stream [OF inv _ i] split: if_splits)
qed (use run in \<open>simp add: abort_chat_def\<close>)

lemma moves_receive:
  assumes run: "receive_answer X K i S = Some S'" and i: "i < length (sv_chats S)"
  shows "\<exists>ch' t us. chat_moves i S S' ch' t us"
proof -
  from run obtain auth p rid c t frames where ch: "sv_chats S ! i = ChatAnswering auth p rid c t frames"
    by (auto simp: receive_answer_def split: chat.splits)
  let ?rs = "update_tunnel (cp_tunnel p) (\<lambda>t. snd (recv_frame c t)) (sv_router S)"
  have "chat_moves i S (set_chat i (ChatAnswering auth p rid c t fs) (S\<lparr>sv_router := ?rs\<rparr>))
      (ChatAnswering auth p rid c t fs) t []" for fs
    using ch tasks_same [of "router_tasks ?rs" "router_tasks (sv_router S)" t] by (simp add: chat_moves_def set_chat_def)
  moreover have "router_tasks ?rs = router_tasks (sv_router S)" "same_nodes (sv_router S) ?rs" by simp_all
  note moves_finish [OF ch i refl this]
  ultimately show ?thesis
    using run ch by (simp add: receive_answer_def Let_def split: recv_result.splits if_splits) blast+
qed

lemma moves_step:
  assumes inv: "service_inv K S" and run: "chat_step X K S e = Some S'" and e: "chat_event_index e = Some i"
  shows "i < length (sv_chats S) \<and> (\<exists>ch' t us. chat_moves i S S' ch' t us)"
proof -
  from run e have i: "i < length (sv_chats S)" and turn: "chat_turn X K S e = Some S'"
    by (auto simp: chat_step_def split: if_splits)
  have "\<exists>ch' t us. chat_moves i S S' ch' t us"
  proof (cases e)
    case (ChatTurn j ok)
    with e turn moves_turn [OF _ i, of "\<lambda>t. Run t ok" S' ok] show ?thesis by auto
  next
    case (ChatWake j ok)
    with e turn moves_turn [OF _ i, of "\<lambda>t. Wake t ok" S' ok] show ?thesis by auto
  next
    case (ChatAdmitted j rid)
    with e turn moves_admitted [OF _ i] show ?thesis by fastforce
  next
    case (ChatReceive j)
    with e turn moves_receive [OF _ i] show ?thesis by auto
  next
    case (ChatTimeout j)
    with e turn obtain auth p rid c t frames where ch: "sv_chats S ! i = ChatAnswering auth p rid c t frames"
      and S': "S' = finish_answer X K i auth p rid c t frames True S"
      by (auto simp: timeout_answer_def split: chat.splits)
    have "S = S\<lparr>sv_router := sv_router S\<rparr>" by simp
    from moves_finish [OF ch i this refl same_nodes_frame(1)] show ?thesis
      unfolding S' by blast
  next
    case (StreamBridge j)
    with e turn moves_bridge [OF _ i] show ?thesis by fastforce
  next
    case (StreamPull j)
    with e turn show ?thesis
      by (auto simp: pull_stream_def intro!: moves_stream [OF inv _ i] split: chat.splits list.splits if_splits)
  next
    case (StreamDeadline j)
    with e turn show ?thesis
      by (auto simp: deadline_stream_def intro!: moves_stream [OF inv _ i] split: chat.splits if_splits)
  next
    case (ConsumerLeft j)
    with e turn moves_abort [OF inv _ i] show ?thesis by auto
  qed (use e in simp_all)
  with i show ?thesis by blast
qed


section \<open>Admission tasks are not shared\<close>

definition tickets_wf :: "chat_service \<Rightarrow> bool" where
  "tickets_wf S \<longleftrightarrow>
     (\<forall>i t. i < length (sv_chats S) \<and> ticket (sv_chats S ! i) = Some t \<longrightarrow>
       t < length (router_tasks (sv_router S)) \<and>
       (admitting (sv_chats S ! i) \<longrightarrow> alive (router_tasks (sv_router S) ! t))) \<and>
     (\<forall>i j t. i < length (sv_chats S) \<and> j < length (sv_chats S) \<and>
       ticket (sv_chats S ! i) = Some t \<and> ticket (sv_chats S ! j) = Some t \<longrightarrow> j = i)"

lemma tickets_wfD:
  assumes "tickets_wf S" "i < length (sv_chats S)" "ticket (sv_chats S ! i) = Some t"
  shows "t < length (router_tasks (sv_router S))"
    and "admitting (sv_chats S ! i) \<Longrightarrow> alive (router_tasks (sv_router S) ! t)"
    and "j < length (sv_chats S) \<Longrightarrow> ticket (sv_chats S ! j) = Some t \<Longrightarrow> j = i"
  using assms unfolding tickets_wf_def by blast+

lemma tickets_wf_same:
  "tickets_wf S \<Longrightarrow> sv_chats S' = sv_chats S \<Longrightarrow> router_tasks (sv_router S') = router_tasks (sv_router S) \<Longrightarrow>
    tickets_wf S'"
  unfolding tickets_wf_def by (elim ssubst)

lemma tickets_wf_moves:
  assumes wf: "tickets_wf S" and i: "i < length (sv_chats S)" and mv: "chat_moves i S S' ch' t us"
  shows "tickets_wf S'"
proof -
  let ?ts = "router_tasks (sv_router S)" and ?ts' = "router_tasks (sv_router S')"
  from mv have t: "ticket (sv_chats S ! i) = Some t" and chats: "sv_chats S' = (sv_chats S)[i := ch']"
    and ch': "ticket ch' = Some t \<or> ticket ch' = None"
    and adm: "admitting ch' \<Longrightarrow> admitting (sv_chats S ! i) \<and> (alive (?ts ! t) \<longrightarrow> alive (?ts' ! t))"
    and ts: "?ts' = ?ts[t := ?ts' ! t]"
    by (auto simp: chat_moves_def)
  have len: "length ?ts' = length ?ts"
    using ts by (metis length_list_update)
  have own: "t' = t \<and> admitting ch' = admitting (sv_chats S' ! i)" if "ticket (sv_chats S' ! i) = Some t'" for t'
    using that chats ch' i by auto
  have other: "ticket (sv_chats S ! j) = Some t' \<and> sv_chats S' ! j = sv_chats S ! j \<and> t' \<noteq> t \<and> ?ts' ! t' = ?ts ! t'"
    if "j < length (sv_chats S)" "j \<noteq> i" "ticket (sv_chats S' ! j) = Some t'" for j t'
  proof -
    have same: "sv_chats S' ! j = sv_chats S ! j"
      using chats that(2) by (metis nth_list_update_neq)
    then have "t' \<noteq> t"
      using tickets_wfD(3) [OF wf i t that(1)] that by metis
    then show ?thesis
      using same that(3) ts by (metis nth_list_update_neq)
  qed
  have "t' < length ?ts' \<and> (admitting (sv_chats S' ! j) \<longrightarrow> alive (?ts' ! t'))"
    if "j < length (sv_chats S)" "ticket (sv_chats S' ! j) = Some t'" for j t'
    using that own [of t'] other [of j t'] tickets_wfD(1,2) [OF wf that(1), of t'] tickets_wfD(1,2) [OF wf i t] adm len
    by (cases "j = i") metis+
  moreover have "l = j" if "j < length (sv_chats S)" "l < length (sv_chats S)"
    "ticket (sv_chats S' ! j) = Some t'" "ticket (sv_chats S' ! l) = Some t'" for j l t'
    using that own [of t'] other [of j t'] other [of l t'] tickets_wfD(3) [OF wf that(1), of t' l]
    by (cases "j = i"; cases "l = i") metis+
  moreover have "length (sv_chats S') = length (sv_chats S)"
    by (simp add: chats)
  ultimately show ?thesis
    unfolding tickets_wf_def by metis
qed


text \<open>A new request is answered at once, or queues for admission with a task of its own.\<close>

lemma request_chat_cases:
  obtains (answered) out where
    "sv_chats (request_chat K fetch now hdr body headers S) = sv_chats S @ [ChatDone out]"
    "router_tasks (sv_router (request_chat K fetch now hdr body headers S)) = router_tasks (sv_router S)"
  | (queued) auth p k c m where
    "sv_chats (request_chat K fetch now hdr body headers S) =
      sv_chats S @ [ChatAdmitting auth p (headers_to_json headers) (length (router_tasks (sv_router S)))]"
    "router_tasks (sv_router (request_chat K fetch now hdr body headers S)) =
      router_tasks (sv_router S) @ [Entering k c m]"
proof -
  let ?S' = "request_chat K fetch now hdr body headers S"
  obtain r v where r: "require_v1_session (kc_b58 K) (kc_enforce_budget K) fetch now
      (\<lambda>n. registry_get (sv_router S) n \<noteq> None) hdr (bt_chain (sv_usage S)) = (r, v)"
    by fastforce
  show thesis
  proof (cases r)
    case (Inl e)
    then show ?thesis
      using r by (cases e) (auto simp: request_chat_def Let_def intro!: answered)
  next
    case (Inr auth)
    show ?thesis
    proof (cases "chat_checks (kc_parse K) (kc_print K) (kc_rnd K) (kc_ratio K) body auth (sv_router S)")
      case (Inl e)
      then show ?thesis
        using r Inr by (auto simp: request_chat_def Let_def intro!: answered)
    next
      case plan: (Inr p)
      then show ?thesis
        using r Inr by (intro queued [of auth p "cp_key p" "cp_concurrency p" "cp_max_queue p"])
          (simp_all add: request_chat_def Let_def router_tasks_def)
    qed
  qed
qed

lemma request_chats:
  "\<exists>ch. sv_chats (request_chat K fetch now hdr body headers S) = sv_chats S @ [ch] \<and>
    sv_records (request_chat K fetch now hdr body headers S) = sv_records S \<and>
    batch_of (sv_usage (request_chat K fetch now hdr body headers S)) = batch_of (sv_usage S) \<and>
    bt_jobs (sv_usage (request_chat K fetch now hdr body headers S)) = bt_jobs (sv_usage S)"
  by (cases rule: request_chat_cases [of K fetch now hdr body headers S])
    (auto simp: request_chat_def Let_def batch_of_def split: prod.split sum.split)


lemma tickets_wf_append:
  assumes wf: "tickets_wf S" and S': "sv_chats S' = sv_chats S @ [ch]"
      "router_tasks (sv_router S') = router_tasks (sv_router S) @ us"
    and ch: "ticket ch = None \<or> ticket ch = Some (length (router_tasks (sv_router S))) \<and> us \<noteq> [] \<and> alive (hd us)"
  shows "tickets_wf S'"
proof -
  let ?n = "length (sv_chats S)"
  have old: "i < ?n \<Longrightarrow> sv_chats S' ! i = sv_chats S ! i" for i
    by (simp add: S' nth_append)
  have new: "\<not> i < ?n \<Longrightarrow> i < length (sv_chats S') \<Longrightarrow> i = ?n \<and> sv_chats S' ! i = ch" for i
    by (simp add: S' nth_append less_Suc_eq)
  have "t < length (router_tasks (sv_router S')) \<and>
      (admitting (sv_chats S' ! i) \<longrightarrow> alive (router_tasks (sv_router S') ! t))"
    if "i < length (sv_chats S')" "ticket (sv_chats S' ! i) = Some t" for i t
    using that tickets_wfD(1,2) [OF wf, of i t] ch S'
    by (cases "i < ?n") (auto simp: nth_append hd_conv_nth)
  moreover have "j = i" if "i < length (sv_chats S')" "j < length (sv_chats S')"
    "ticket (sv_chats S' ! i) = Some t" "ticket (sv_chats S' ! j) = Some t" for i j t
    using that tickets_wfD(1) [OF wf, of _ t] tickets_wfD(3) [OF wf, of i t j] old new ch
    by (metis less_irrefl option.distinct(1) option.inject)
  ultimately show ?thesis
    unfolding tickets_wf_def by blast
qed

lemma tickets_wf_request: "tickets_wf S \<Longrightarrow> tickets_wf (request_chat K fetch now hdr body headers S)"
  by (cases rule: request_chat_cases [of K fetch now hdr body headers S])
    (auto intro: tickets_wf_append)

lemma tickets_wf_step:
  assumes inv: "service_inv K S" and wf: "tickets_wf S" and run: "chat_step X K S e = Some S'"
  shows "tickets_wf S'"
proof (cases "chat_event_index e")
  case (Some i)
  with moves_step [OF inv run] tickets_wf_moves [OF wf] show ?thesis by blast
next
  case None
  show ?thesis
  proof (cases e)
    case (NodeSide r)
    with run show ?thesis
      using tickets_wf_same [OF wf] by (auto simp: chat_step_def router_step_tasks split: if_splits)
  qed (use None run wf in \<open>auto simp: chat_step_def tickets_wf_request record_next_def
      intro: tickets_wf_same split: list.splits\<close>)
qed

interpretation owners: invariant_system "new_service ttl" "chat_step X K"
  "\<lambda>S. service_inv K S \<and> tickets_wf S" for X K ttl
proof unfold_locales
  show "service_inv K (new_service ttl) \<and> tickets_wf (new_service ttl)"
    using service.inv_start by (auto simp: tickets_wf_def new_service_def)
qed (use service_inv_step tickets_wf_step in blast)

end
