(* ===== verification/Chat_Progress.thy ===== *)
theory Chat_Progress
  imports Chat_Steps Chat_Properties
begin

text \<open>
  No request gets stuck (\<open>acquire\<close> of \<open>src/capacity/mod.rs\<close>, \<open>chat_completions\<close> of
  \<open>src/consumer/forward.rs\<close>, the deadlines of \<open>src/consumer/sse.rs\<close>): whatever state the service is in
  and whoever is silent, the node, the consumer or the other requests, a request under way can end
  by its own steps and its own timers, and then gives its capacity guard up.
\<close>

section \<open>The steps a request takes by itself\<close>

text \<open>Its turns in the admission, the timeout of its wait there, the forwarding with some request id, and
  the deadline of its answer.\<close>

fun unaided :: "uuid \<Rightarrow> nat \<Rightarrow> chat_event \<Rightarrow> bool" where
  "unaided rid i (ChatTurn j ok) = (j = i \<and> ok)"
| "unaided rid i (ChatWake j notified) = (j = i \<and> \<not> notified)"
| "unaided rid i (ChatAdmitted j r) = (j = i \<and> r = rid)"
| "unaided rid i (ChatTimeout j) = (j = i)"
| "unaided rid i (StreamDeadline j) = (j = i)"
| "unaided rid i _ = False"

fun self_event :: "uuid \<Rightarrow> nat \<Rightarrow> task list \<Rightarrow> chat \<Rightarrow> chat_event" where
  "self_event rid i ts (ChatAdmitting auth p headers t) =
     (if decided (ts ! t) then ChatAdmitted i rid
      else case ts ! t of Waiting k c m r \<Rightarrow> ChatWake i False | _ \<Rightarrow> ChatTurn i True)"
| "self_event rid i ts (ChatAnswering auth p r c t frames) = ChatTimeout i"
| "self_event rid i ts (ChatStreaming auth p r c t st) = StreamDeadline i"
| "self_event rid i ts (ChatDone out) = ChatTurn i True"

text \<open>How many of them are left.\<close>

fun self_steps :: "cap_state \<Rightarrow> chat \<Rightarrow> nat" where
  "self_steps s (ChatAdmitting auth p headers t) = 2 + turns_left s (tasks s ! t)"
| "self_steps s (ChatAnswering auth p r c t frames) = 1"
| "self_steps s (ChatStreaming auth p r c t st) = (if ss_completions (st_sse st) = [] then 1 else 0)"
| "self_steps s (ChatDone out) = 0"

lemma self_event_unaided: "\<not> chat_over ch \<Longrightarrow> unaided rid i (self_event rid i ts ch)"
  by (cases ch) (auto split: task.split)

lemma self_event_index [simp]: "chat_event_index (self_event rid i ts ch) = Some i"
  by (cases ch) (auto split: task.split)

abbreviation service_cap :: "chat_service \<Rightarrow> cap_state" where
  "service_cap S \<equiv> rs_capacity (sv_router S)"

lemma self_admission_turn:
  assumes t: "t < length (tasks (service_cap S))" "alive (tasks (service_cap S) ! t)" "\<not> decided (tasks (service_cap S) ! t)"
    and i: "i < length (sv_chats S)" and ch: "sv_chats S ! i = ChatAdmitting auth p headers t"
  shows "\<exists>S'. chat_step X K S (self_event rid i (tasks (service_cap S)) (sv_chats S ! i)) = Some S' \<and>
    self_steps (service_cap S') (sv_chats S' ! i) < self_steps (service_cap S) (sv_chats S ! i)"
proof -
  let ?s = "service_cap S"
  have "undecided (tasks ?s ! t)"
    using t by (simp add: alive_def)
  from own_turn_advances [OF t(1) this] obtain s' where
    s': "cap_step ?s (own_turn t (tasks ?s ! t)) = Some s'" "turns_left s' (tasks s' ! t) < turns_left ?s (tasks ?s ! t)"
    by blast
  let ?S' = "S\<lparr>sv_router := (sv_router S)\<lparr>rs_capacity := s'\<rparr>\<rparr>"
  have "chat_step X K S (self_event rid i (tasks ?s) (sv_chats S ! i)) = Some ?S'"
    using t(3) s'(1) i ch
    by (cases "tasks ?s ! t") (simp_all add: chat_step_def admission_turn_def)
  then show ?thesis
    using s'(2) ch by auto
qed

lemma self_step:
  assumes inv: "service_inv K S" "tickets_wf S" and i: "i < length (sv_chats S)" and live: "\<not> chat_over (sv_chats S ! i)"
  shows "\<exists>S'. chat_step X K S (self_event rid i (tasks (service_cap S)) (sv_chats S ! i)) = Some S' \<and>
    self_steps (service_cap S') (sv_chats S' ! i) < self_steps (service_cap S) (sv_chats S ! i)"
proof (cases "sv_chats S ! i")
  case (ChatAdmitting auth p headers t)
  have t: "t < length (tasks (service_cap S))" "alive (tasks (service_cap S) ! t)"
    using tickets_wfD(1,2) [OF inv(2) i, of t] ChatAdmitting by (simp_all add: router_tasks_def)
  show ?thesis
  proof (cases "decided (tasks (service_cap S) ! t)")
    case True
    then obtain acq where acq: "admission_outcome (tasks (service_cap S) ! t) = Some acq"
      by (cases "tasks (service_cap S) ! t") auto
    obtain r rs where fw: "chat_forward (x_enc X) p acq rid headers (release_guard t) (sv_router S) = (r, rs)"
      by fastforce
    show ?thesis
      using True acq fw i ChatAdmitting
      by (cases r) (auto simp: chat_step_def admitted_chat_def Let_def set_chat_def)
  next
    case False
    from self_admission_turn [OF t False i ChatAdmitting] show ?thesis .
  qed
next
  case (ChatAnswering auth p r c t frames)
  then show ?thesis
    using i by (auto simp: chat_step_def timeout_answer_def finish_answer_def Let_def set_chat_def split: prod.splits)
next
  case (ChatStreaming auth p r c t st)
  have "sse_inv (st_sse st)"
    using service_invD(4) [OF inv(1) i] ChatStreaming by simp
  then have run: "ss_running (st_sse st)" "ss_completions (st_sse st) = []"
    using live ChatStreaming by (auto simp: sse_inv_def split: if_splits)
  have "ss_completions (sse_step (kc_parse K) (kc_receipt_of K) (kc_quote K) (st_sse st) Deadline) \<noteq> []"
    using run by (simp add: finish_def fire_complete_def fire_def)
  then show ?thesis
    using i ChatStreaming run
    by (auto simp: chat_step_def deadline_stream_def stream_step_def Let_def set_chat_def)
qed (use live in simp)


section \<open>Every request can end\<close>

lemma self_steps_bound: "self_steps s ch \<le> 9"
  using turns_left_bound [of s] by (cases ch) (auto simp: le_Suc_eq numeral_eq_Suc)

lemma unaided_index: "unaided rid i e \<Longrightarrow> chat_event_index e = Some i"
  by (cases e) auto

lemma moves_others:
  "chat_moves i S S' ch' t us \<Longrightarrow> length (sv_chats S') = length (sv_chats S) \<and>
    (\<forall>j. j \<noteq> i \<longrightarrow> sv_chats S' ! j = sv_chats S ! j)"
  by (auto simp: chat_moves_def)

lemma self_run:
  assumes "service_inv K S" "tickets_wf S" "i < length (sv_chats S)"
  shows "\<exists>es S'. run_steps (chat_step X K) S es = Some S' \<and>
    length es \<le> self_steps (service_cap S) (sv_chats S ! i) \<and> list_all (unaided rid i) es \<and>
    chat_over (sv_chats S' ! i) \<and> length (sv_chats S') = length (sv_chats S) \<and>
    (\<forall>j. j \<noteq> i \<longrightarrow> sv_chats S' ! j = sv_chats S ! j)"
  using assms
proof (induction "self_steps (service_cap S) (sv_chats S ! i)" arbitrary: S rule: less_induct)
  case less
  show ?case
  proof (cases "chat_over (sv_chats S ! i)")
    case True
    then show ?thesis
      by (intro exI [of _ "[]"] exI [of _ S]) simp
  next
    case False
    let ?e = "self_event rid i (tasks (service_cap S)) (sv_chats S ! i)"
    from self_step [OF less.prems False, of X rid] obtain S1 where
      step: "chat_step X K S ?e = Some S1"
      and left: "self_steps (service_cap S1) (sv_chats S1 ! i) < self_steps (service_cap S) (sv_chats S ! i)"
      by blast
    obtain ch' t us where "chat_moves i S S1 ch' t us"
      using moves_step [OF less.prems(1) step self_event_index] by blast
    note others = moves_others [OF this]
    have "service_inv K S1" "tickets_wf S1" "i < length (sv_chats S1)"
      using service_inv_step tickets_wf_step less.prems step others by auto
    from less.hyps [OF left this] obtain es S' where run: "run_steps (chat_step X K) S1 es = Some S'"
      and es: "length es \<le> self_steps (service_cap S1) (sv_chats S1 ! i)" "list_all (unaided rid i) es"
      and S': "chat_over (sv_chats S' ! i)" "length (sv_chats S') = length (sv_chats S1)"
        "\<forall>j. j \<noteq> i \<longrightarrow> sv_chats S' ! j = sv_chats S1 ! j"
      by blast
    show ?thesis
      by (intro exI [of _ "?e # es"] exI [of _ S'])
        (use step run es S' left others self_event_unaided [OF False] in simp)
  qed
qed



end
