(* ===== verification/Usage_Ledger.thy ===== *)
theory Usage_Ledger
  imports Chat_Steps Chat_Properties
begin

text \<open>
  Usage from the answer of a request to the submission queue: the chat service
  (\<open>src/consumer/forward.rs\<close>, \<open>sse.rs\<close>) together with the critical sections of the usage batcher
  (\<open>src/consumer/usage_batch.rs\<close>), which the tasks that add usage, the sweeper, the chain watcher and
  the shutdown run in any interleaving. Every request is metered at most once, for its own session,
  and what was metered can be found again.
\<close>

section \<open>The batcher's operations are sequences of critical sections\<close>

definition flush_sections ::
  "usage_config \<Rightarrow> session_fetch \<Rightarrow> bool \<Rightarrow> int \<Rightarrow> u64 \<Rightarrow> usage_batcher \<Rightarrow> batch_event list" where
  "flush_sections cfg fetch force now sid b =
     [Ensure fetch now sid, Take force now sid] @
     (if snd (take_batch cfg force now sid (ensure_session fetch now sid b)) then [Watermarks fetch now sid] else [])"

definition add_sections ::
  "usage_config \<Rightarrow> session_fetch \<Rightarrow> int \<Rightarrow> u64 \<Rightarrow> u64 \<Rightarrow> u64 \<Rightarrow> usage_batcher \<Rightarrow> batch_event list" where
  "add_sections cfg fetch now sid input output b =
     (if input = 0 \<and> output = 0 then []
      else
        (let b1 = accumulate sid input output now (ensure_session fetch now sid b) in
         [Ensure fetch now sid, Accumulate sid input output now] @
         (case batch_of b1 sid of
            None \<Rightarrow> []
          | Some x \<Rightarrow>
              if max (uc_token_chunk cfg) 1 \<le> pending_total x then flush_sections cfg fetch False now sid b1 else [])))"

lemma flush_is_sections:
  "flush_session cfg fetch force now sid b = foldl (batch_event_of cfg) b (flush_sections cfg fetch force now sid b)"
  by (cases "take_batch cfg force now sid (ensure_session fetch now sid b)")
    (simp add: flush_session_def flush_sections_def)

lemma add_is_sections:
  "add_usage cfg fetch now sid input output b =
    foldl (batch_event_of cfg) b (add_sections cfg fetch now sid input output b)"
  by (simp add: add_usage_def add_sections_def Let_def flush_is_sections del: max.bounded_iff split: option.split)

lemma remove_is_sections:
  "remove_session cfg fetch now sid b =
    foldl (batch_event_of cfg) b (flush_sections cfg fetch True now sid b @ [Erase sid])"
  by (simp add: remove_session_def flush_is_sections)

section \<open>The metered service\<close>

text \<open>A request queues a record; \<open>Credit\<close> is the critical section in which the task that was spawned for the
  \<open>n\<close>th waiting record adds it to its batch. Other sections, and what happens to the session cache, may come
  at any time.\<close>

datatype metering_event =
    Service chat_event
  | Credit nat int
  | Section batch_event
  | CacheChange verifier

fun usage_op :: "chat_event \<Rightarrow> bool" where
  "usage_op (RecordUsage fetch now) = True"
| "usage_op (UsageSweep fetch now) = True"
| "usage_op _ = False"

fun adds_usage :: "batch_event \<Rightarrow> bool" where
  "adds_usage (Accumulate sid i u now) = True"
| "adds_usage _ = False"

definition credit_record :: "nat \<Rightarrow> int \<Rightarrow> chat_service \<Rightarrow> chat_service" where
  "credit_record n now S =
     (let (sid, i, u) = sv_records S ! n in
      S\<lparr>sv_usage := accumulate sid i u now (sv_usage S),
        sv_records := take n (sv_records S) @ drop (Suc n) (sv_records S)\<rparr>)"

fun metering_step :: "'vk externals \<Rightarrow> chat_config \<Rightarrow> chat_service \<Rightarrow> metering_event \<Rightarrow> chat_service option" where
  "metering_step X K S (Service e) = (if usage_op e then None else chat_step X K S e)"
| "metering_step X K S (Credit n now) =
     (if n < length (sv_records S) then Some (credit_record n now S) else None)"
| "metering_step X K S (Section be) =
     (if adds_usage be then None else Some (S\<lparr>sv_usage := batch_event_of (kc_usage K) (sv_usage S) be\<rparr>))"
| "metering_step X K S (CacheChange v) = Some (S\<lparr>sv_usage := (sv_usage S)\<lparr>bt_chain := v\<rparr>\<rparr>)"

text \<open>What a run meters: for every record the request that queued it, with its session.\<close>

fun metered_by :: "chat_service \<Rightarrow> metering_event \<Rightarrow> chat_service \<Rightarrow> (nat \<times> u64 option \<times> u64 \<times> u64 \<times> u64) list" where
  "metered_by S (Service e) S' =
     (case chat_event_index e of
        None \<Rightarrow> []
      | Some i \<Rightarrow> map (\<lambda>r. (i, chat_session_id (sv_chats S ! i), r)) (drop (length (sv_records S)) (sv_records S')))"
| "metered_by S _ S' = []"

fun meter_log ::
  "'vk externals \<Rightarrow> chat_config \<Rightarrow> chat_service \<Rightarrow> metering_event list \<Rightarrow> (nat \<times> u64 option \<times> u64 \<times> u64 \<times> u64) list" where
  "meter_log X K S [] = []"
| "meter_log X K S (e # es) =
     (case metering_step X K S e of None \<Rightarrow> [] | Some S' \<Rightarrow> metered_by S e S' @ meter_log X K S' es)"

definition billed :: "(nat \<times> u64 option \<times> u64 \<times> u64 \<times> u64) list \<Rightarrow> (u64 \<times> u64 \<times> u64) list" where
  "billed entries = map (\<lambda>(i, s, r). r) entries"

text \<open>What a run loses of session \<open>sid\<close>: records that find no batch, as happens when the chain could not be
  read, and what an erased batch still held.\<close>

definition tokens_of :: "u64 \<Rightarrow> (u64 \<times> u64 \<times> u64) list \<Rightarrow> nat" where
  "tokens_of sid rs = (\<Sum>(s, i, u)\<leftarrow>filter (\<lambda>r. fst r = sid) rs. unat i + unat u)"

fun lost_at :: "u64 \<Rightarrow> chat_service \<Rightarrow> metering_event \<Rightarrow> nat" where
  "lost_at sid S (Credit n now) =
     (if batch_of (sv_usage S) sid = None then tokens_of sid [sv_records S ! n] else 0)"
| "lost_at sid S (Section be) = thrown_away sid (sv_usage S) be"
| "lost_at sid S _ = 0"

lemma tokens_of_simps [simp]:
  "tokens_of sid [] = 0"
  "tokens_of sid ((s, i, u) # rs) = (if s = sid then unat i + unat u else 0) + tokens_of sid rs"
  "tokens_of sid (rs @ rs') = tokens_of sid rs + tokens_of sid rs'"
  by (simp_all add: tokens_of_def)

lemma billed_simps [simp]:
  "billed [] = []" "billed (xs @ ys) = billed xs @ billed ys" "billed (map (\<lambda>r. (i, s, r)) us) = us"
  by (simp_all add: billed_def comp_def)

section \<open>Every request is metered at most once\<close>

text \<open>A request that is over stays over.\<close>

lemma service_frame:
  assumes inv: "service_inv K S" and run: "chat_step X K S e = Some S'" and e: "\<not> usage_op e"
  shows "batch_of (sv_usage S') = batch_of (sv_usage S)" "bt_jobs (sv_usage S') = bt_jobs (sv_usage S)"
    and "sv_records S' = sv_records S @ billed (metered_by S (Service e) S')"
    and "length (sv_chats S) \<le> length (sv_chats S')"
    and "j < length (sv_chats S) \<Longrightarrow> chat_over (sv_chats S ! j) \<Longrightarrow> chat_over (sv_chats S' ! j)"
proof -
  have "batch_of (sv_usage S') = batch_of (sv_usage S) \<and> bt_jobs (sv_usage S') = bt_jobs (sv_usage S) \<and>
    sv_records S' = sv_records S @ billed (metered_by S (Service e) S') \<and>
    length (sv_chats S) \<le> length (sv_chats S') \<and>
    (\<forall>j < length (sv_chats S). chat_over (sv_chats S ! j) \<longrightarrow> chat_over (sv_chats S' ! j))"
  proof (cases "chat_event_index e")
    case (Some i)
    then obtain ch' t us where i: "i < length (sv_chats S)" and mv: "chat_moves i S S' ch' t us"
      using moves_step [OF inv run] by blast
    from mv have S': "sv_chats S' = (sv_chats S)[i := ch']" "sv_usage S' = sv_usage S" "sv_records S' = sv_records S @ us"
      and over: "chat_over (sv_chats S ! i) \<longrightarrow> chat_over ch'"
      by (simp_all add: chat_moves_def)
    have "billed (metered_by S (Service e) S') = us"
      using Some S'(3) by simp
    moreover have "chat_over (sv_chats S' ! j)" if "j < length (sv_chats S)" "chat_over (sv_chats S ! j)" for j
      using that S'(1) over i by (cases "j = i") simp_all
    ultimately show ?thesis
      using S' by simp
  next
    case None
    show ?thesis
    proof (cases e)
      case (ChatRequest fetch now hdr body headers)
      then have S': "S' = request_chat K fetch now hdr body headers S"
        using run by (simp add: chat_step_def)
      obtain ch where "sv_chats S' = sv_chats S @ [ch]" "sv_records S' = sv_records S"
        "batch_of (sv_usage S') = batch_of (sv_usage S)" "bt_jobs (sv_usage S') = bt_jobs (sv_usage S)"
        unfolding S' using request_chats by blast
      then show ?thesis
        using ChatRequest by (simp add: nth_append)
    qed (use None run e in \<open>auto simp: chat_step_def split: if_splits\<close>)
  qed
  then show "batch_of (sv_usage S') = batch_of (sv_usage S)" "bt_jobs (sv_usage S') = bt_jobs (sv_usage S)"
    "sv_records S' = sv_records S @ billed (metered_by S (Service e) S')"
    "length (sv_chats S) \<le> length (sv_chats S')"
    "j < length (sv_chats S) \<Longrightarrow> chat_over (sv_chats S ! j) \<Longrightarrow> chat_over (sv_chats S' ! j)"
    by blast+
qed

lemma metered_once_step:
  assumes inv: "service_inv K S" and run: "metering_step X K S e = Some S'"
  shows "distinct (map fst (metered_by S e S')) \<and>
    (\<forall>(i, sid, r) \<in> set (metered_by S e S').
      i < length (sv_chats S) \<and> \<not> chat_over (sv_chats S ! i) \<and> chat_over (sv_chats S' ! i) \<and> sid = Some (fst r))"
proof (cases e)
  case (Service c)
  with run have run': "chat_step X K S c = Some S'" by (simp split: if_splits)
  show ?thesis
  proof (cases "chat_event_index c")
    case (Some i)
    then obtain ch' t us where i: "i < length (sv_chats S)" and mv: "chat_moves i S S' ch' t us"
      using moves_step [OF inv run'] by blast
    have "metered_by S e S' = map (\<lambda>r. (i, chat_session_id (sv_chats S ! i), r)) us"
      using Service Some mv by (simp add: chat_moves_def)
    moreover have "us = [] \<or> (\<exists>r. us = [r])"
      using mv by (cases us; cases "tl us") (auto simp: chat_moves_def)
    ultimately show ?thesis
      using mv i by (auto simp: chat_moves_def)
  qed (simp add: Service)
qed (use run in \<open>simp_all split: if_splits\<close>)

lemma metering_keeps:
  assumes inv: "service_inv K S" and run: "metering_step X K S e = Some S'"
  shows "service_inv K S'" "length (sv_chats S) \<le> length (sv_chats S')"
    and "j < length (sv_chats S) \<Longrightarrow> chat_over (sv_chats S ! j) \<Longrightarrow> chat_over (sv_chats S' ! j)"
proof -
  have "service_inv K S' \<and> length (sv_chats S) \<le> length (sv_chats S') \<and>
    (\<forall>j < length (sv_chats S). chat_over (sv_chats S ! j) \<longrightarrow> chat_over (sv_chats S' ! j))"
  proof (cases e)
    case (Service c)
    with run have "chat_step X K S c = Some S'" "\<not> usage_op c" by (auto split: if_splits)
    with service_frame [OF inv this] service_inv_step [OF inv] show ?thesis by blast
  qed (use run service_inv_usage [OF inv] in \<open>auto simp: credit_record_def split: if_splits prod.splits\<close>)
  then show "service_inv K S'" "length (sv_chats S) \<le> length (sv_chats S')"
    "j < length (sv_chats S) \<Longrightarrow> chat_over (sv_chats S ! j) \<Longrightarrow> chat_over (sv_chats S' ! j)"
    by blast+
qed

lemma meter_log_once:
  assumes "service_inv K S"
  shows "distinct (map fst (meter_log X K S es)) \<and>
    (\<forall>(i, sid, r) \<in> set (meter_log X K S es).
      sid = Some (fst r) \<and> (i < length (sv_chats S) \<longrightarrow> \<not> chat_over (sv_chats S ! i)))"
  using assms
proof (induction es arbitrary: S)
  case (Cons e es)
  show ?case
  proof (cases "metering_step X K S e")
    case (Some S')
    note keep = metering_keeps [OF Cons.prems Some]
    note once = metered_once_step [OF Cons.prems Some] and later = Cons.IH [OF keep(1)]
    have now: "sid = Some (fst r) \<and> i < length (sv_chats S) \<and> \<not> chat_over (sv_chats S ! i) \<and> chat_over (sv_chats S' ! i)"
      if "(i, sid, r) \<in> set (metered_by S e S')" for i sid r
      using bspec [OF conjunct2 [OF once] that] by simp
    have then_on: "sid = Some (fst r) \<and> (i < length (sv_chats S') \<longrightarrow> \<not> chat_over (sv_chats S' ! i))"
      if "(i, sid, r) \<in> set (meter_log X K S' es)" for i sid r
      using bspec [OF conjunct2 [OF later] that] by simp
    have "fst ` set (metered_by S e S') \<inter> fst ` set (meter_log X K S' es) = {}"
      using now then_on keep(2) by (fastforce dest: order.strict_trans2)
    moreover have "sid = Some (fst r) \<and> (i < length (sv_chats S) \<longrightarrow> \<not> chat_over (sv_chats S ! i))"
      if "(i, sid, r) \<in> set (metered_by S e S' @ meter_log X K S' es)" for i sid r
      using that now [of i sid r] then_on [of i sid r] keep(2) keep(3) [of i] by (auto dest: order.strict_trans2)
    then have "\<forall>(i, sid, r) \<in> set (metered_by S e S' @ meter_log X K S' es).
        sid = Some (fst r) \<and> (i < length (sv_chats S) \<longrightarrow> \<not> chat_over (sv_chats S ! i))"
      by blast
    moreover have "meter_log X K S (e # es) = metered_by S e S' @ meter_log X K S' es"
      using Some by simp
    ultimately show ?thesis
      using conjunct1 [OF once] conjunct1 [OF later] by (simp only: map_append distinct_append set_map simp_thms)
  qed simp
qed simp


section \<open>What was metered can be found again\<close>

definition usage_level :: "u64 \<Rightarrow> chat_service \<Rightarrow> nat" where
  "usage_level sid S =
     tokens_of sid (sv_records S) + batch_tokens (batch_of (sv_usage S) sid) + submitted sid (sv_usage S)"

lemma section_level:
  assumes "\<not> adds_usage be"
  shows "batch_tokens (batch_of (batch_event_of cfg b be) sid) + submitted sid (batch_event_of cfg b be) +
    thrown_away sid b be = batch_tokens (batch_of b sid) + submitted sid b"
proof (cases be)
  case (Take force now sid')
  then show ?thesis using take_batch_ledger by simp
next
  case (Ensure fetch now sid')
  then show ?thesis
    using submitted_cong [of "ensure_session fetch now sid' b" b] by simp
next
  case (Watermarks fetch now sid')
  then show ?thesis
    using submitted_cong [of "refresh_watermarks fetch now sid' b" b] by simp
next
  case (Erase sid')
  then show ?thesis by (simp add: batches.table_laws batch_tokens_def)
qed (use assms in simp)

lemma credit_level:
  assumes n: "n < length (sv_records S)" and small: "usage_level sid S < 2 ^ 64"
  shows "usage_level sid (credit_record n now S) + lost_at sid S (Credit n now) = usage_level sid S"
proof -
  obtain s i u where r: "sv_records S ! n = (s, i, u)" by (cases "sv_records S ! n")
  have split: "tokens_of sid (sv_records S) =
      tokens_of sid (take n (sv_records S) @ drop (Suc n) (sv_records S)) + (if s = sid then unat i + unat u else 0)"
    by (subst id_take_nth_drop [OF n]) (simp add: r)
  have sub: "submitted sid (accumulate s i u now b) = submitted sid b" for b
    by (simp add: accumulate_def split: option.split)
  have batch: "batch_tokens (batch_of (accumulate s i u now (sv_usage S)) sid) + lost_at sid S (Credit n now) =
      batch_tokens (batch_of (sv_usage S) sid) + (if s = sid then unat i + unat u else 0)"
  proof (cases "batch_of (sv_usage S) sid")
    case None
    then show ?thesis
      using r by (auto simp: accumulate_def batches.table_laws batch_tokens_def split: option.split)
  next
    case (Some x)
    have "s = sid \<Longrightarrow> unat (ub_pending_input x) + unat i < 2 ^ 64 \<and> unat (ub_pending_output x) + unat u < 2 ^ 64"
      using small split Some by (simp add: usage_level_def batch_tokens_def)
    then show ?thesis
      using Some accumulate_ledger [of s i u now "sv_usage S" sid] by auto
  qed
  show ?thesis
    using split sub [of "sv_usage S"] batch by (simp add: usage_level_def credit_record_def r)
qed

lemma level_step:
  assumes inv: "service_inv K S" and run: "metering_step X K S e = Some S'" and small: "usage_level sid S < 2 ^ 64"
  shows "usage_level sid S' + lost_at sid S e = usage_level sid S + tokens_of sid (billed (metered_by S e S'))"
proof (cases e)
  case (Service c)
  with run have c: "chat_step X K S c = Some S'" "\<not> usage_op c" by (auto split: if_splits)
  note frame = service_frame [OF inv c]
  have "submitted sid (sv_usage S') = submitted sid (sv_usage S)"
    using submitted_cong [OF frame(2)] .
  moreover have "tokens_of sid (sv_records S') =
      tokens_of sid (sv_records S) + tokens_of sid (billed (metered_by S e S'))"
    using arg_cong [OF frame(3), of "tokens_of sid"] Service by (simp only: tokens_of_simps)
  ultimately show ?thesis
    using frame(1) Service by (simp add: usage_level_def)
next
  case (Credit n now)
  with run show ?thesis
    using credit_level [OF _ small, of n now] by (auto split: if_splits)
next
  case (Section be)
  with run show ?thesis
    using section_level [of be "kc_usage K" "sv_usage S" sid] by (auto simp: usage_level_def split: if_splits)
next
  case (CacheChange v)
  with run submitted_cong [of "sv_usage S'" "sv_usage S" sid] show ?thesis
    by (auto simp: usage_level_def)
qed

lemma usage_level_run:
  assumes "service_inv K S" "run_steps (metering_step X K) S es = Some S'"
    and "usage_level sid S + tokens_of sid (billed (meter_log X K S es)) < 2 ^ 64"
  shows "usage_level sid S' + run_inflow (metering_step X K) (lost_at sid) S es =
    usage_level sid S + tokens_of sid (billed (meter_log X K S es))"
  using assms
proof (induction es arbitrary: S)
  case (Cons e es)
  from Cons.prems(2) obtain S1 where S1: "metering_step X K S e = Some S1" "run_steps (metering_step X K) S1 es = Some S'"
    by (auto split: option.splits)
  note step = level_step [OF Cons.prems(1) S1(1), of sid]
  have "usage_level sid S < 2 ^ 64"
    using Cons.prems(3) by simp
  with step have step': "usage_level sid S1 + lost_at sid S e =
      usage_level sid S + tokens_of sid (billed (metered_by S e S1))" by simp
  then have "usage_level sid S1 + tokens_of sid (billed (meter_log X K S1 es)) < 2 ^ 64"
    using Cons.prems(3) S1(1) by simp
  from Cons.IH [OF metering_keeps(1) [OF Cons.prems(1) S1(1)] S1(2) this] step' S1(1) show ?case
    by simp
qed simp

text \<open>C5: Every request is metered at most once and for its own session, and what was metered can be found
  again. After any interleaving of requests with the critical sections of the batcher, the tokens metered
  for a session are those of the records that still wait, those in its batch and those handed to
  submission, plus what was lost: records that found no batch, as when the chain could not be read, and what
  an erased batch still held.\<close>

theorem usage_metered_once_and_accounted:
  fixes es :: "metering_event list" and K :: chat_config
  assumes "run_steps (metering_step X K) (new_service ttl) es = Some S"
    and "bill = meter_log X K (new_service ttl) es"
    and "tokens_of sid (billed bill) < 2 ^ 64"
  shows "distinct (map fst bill) \<and> (\<forall>(i, s, r) \<in> set bill. s = Some (fst r)) \<and>
    tokens_of sid (billed bill) =
      tokens_of sid (sv_records S) + batch_tokens (batch_of (sv_usage S) sid) + submitted sid (sv_usage S) +
      run_inflow (metering_step X K) (lost_at sid) (new_service ttl) es"
proof -
  have "usage_level sid (new_service ttl) = 0"
    by (simp add: usage_level_def new_service_def new_batcher_def batch_of_def batch_tokens_def submitted_def)
  then show ?thesis
    using usage_level_run [OF service.inv_start assms(1), of sid] meter_log_once [OF service.inv_start, where X = X and es = es]
      assms(2,3) by (fastforce simp: usage_level_def)
qed


text \<open>A run of the service alone only queues records.\<close>

lemma service_run:
  assumes "service_inv K S" "list_all (\<lambda>e. \<not> usage_op e) es" "run_steps (chat_step X K) S es = Some S'"
  shows "run_steps (metering_step X K) S (map Service es) = Some S' \<and>
    sv_records S' = sv_records S @ billed (meter_log X K S (map Service es))"
  using assms
proof (induction es arbitrary: S)
  case (Cons e es)
  from Cons.prems obtain S1 where S1: "chat_step X K S e = Some S1" "run_steps (chat_step X K) S1 es = Some S'"
    and e: "\<not> usage_op e"
    by (auto split: option.splits)
  have "service_inv K S1"
    using service_inv_step [OF Cons.prems(1) S1(1)] .
  with Cons.IH [of S1] Cons.prems(2) S1 e service_frame(3) [OF Cons.prems(1) S1(1) e] show ?case
    by (simp del: metered_by.simps)
qed simp

lemma meter_log_append:
  "run_steps (metering_step X K) S es = Some S' \<Longrightarrow>
    meter_log X K S (es @ fs) = meter_log X K S es @ meter_log X K S' fs"
  by (induction es arbitrary: S) (auto split: option.splits)

definition sample_answered :: "chat_event list" where
  "sample_answered = sample_events @ [NodeSide (DropPending 0 1 0), ChatReceive 0]"

lemma sample_answered_run:
  "\<exists>S. run_steps (chat_step sample_externals sample_config) (new_service 12) sample_answered = Some S \<and>
    sv_records S = [(7, 3, 4)] \<and> bt_sessions (sv_usage S) = [] \<and> bt_jobs (sv_usage S) = []"
proof -
  let ?step = "chat_step sample_externals sample_config"
  obtain S where run: "run_steps ?step (new_service 12) sample_events = Some S"
    and S: "sv_chats S = [ChatAnswering sample_chat_auth sample_chat_plan 1 0 0 []]" "sv_records S = []"
      "bt_sessions (sv_usage S) = []" "bt_jobs (sv_usage S) = []" "length (rs_store (sv_router S)) = 1"
      "tn_pending (tunnel_at (sv_router S) 0) = [(1, 0)]" "ch_buf (tn_channels (tunnel_at (sv_router S) 0) ! 0) = []"
    using sample_run by blast
  let ?S1 = "S\<lparr>sv_router := update_tunnel 0 (drop_pending 1 0) (sv_router S)\<rparr>"
  have s1: "?step S (NodeSide (DropPending 0 1 0)) = Some ?S1"
    using S by (simp add: chat_step_def)
  have same_buf: "ch_buf (xs[c := (xs ! c)\<lparr>ch_open := False\<rparr>] ! c) = ch_buf (xs ! c)" for xs c
    by (cases "c < length xs") (simp_all add: list_update_beyond)
  have recv: "fst (recv_frame 0 (tunnel_at (sv_router ?S1) 0)) = Closed"
    using S by (simp add: same_buf recv_frame_def tunnel_at_def update_tunnel_def drop_pending_def pending_remove_def)
  have usage: "chat_answer (kc_parse sample_config) (kc_status_of sample_config) (kc_has_batcher sample_config)
      (as_session_id sample_chat_auth) [] False = (Inr (200, []), Some (7, 3, 4))"
    by (simp add: chat_answer_def collect_http_response_def sample_config_def sample_body_def sample_chat_auth_def
        extract_usage_from_body_def extract_usage_from_json_def record_parsed_usage_def or_else_def)
  obtain S2 where s2: "?step ?S1 (ChatReceive 0) = Some S2" "sv_records S2 = [(7, 3, 4)]"
    "sv_usage S2 = sv_usage S"
    using recv usage S
    by (simp add: chat_step_def receive_answer_def finish_answer_def Let_def sample_chat_plan_def set_chat_def)
  have "run_steps ?step (new_service 12) sample_answered = Some S2"
    using run s1 s2(1) by (simp add: sample_answered_def run_steps_append)
  then show ?thesis
    using s2 S by auto
qed

theorem usage_metered_once_and_accounted_witness:
  "\<exists>S. run_steps (metering_step sample_externals sample_config) (new_service 12)
      (map Service sample_answered @ [Section (Ensure (\<lambda>_. Inr sample_session) 0 7), Credit 0 0]) = Some S \<and>
    sv_records S = [] \<and>
    7 = batch_tokens (batch_of (sv_usage S) 7) + submitted 7 (sv_usage S) +
      run_inflow (metering_step sample_externals sample_config) (lost_at 7) (new_service 12)
        (map Service sample_answered @ [Section (Ensure (\<lambda>_. Inr sample_session) 0 7), Credit 0 0])"
proof -
  let ?step = "metering_step sample_externals sample_config"
  let ?log = "meter_log sample_externals sample_config"
  let ?rest = "[Section (Ensure (\<lambda>_. Inr sample_session) 0 7), Credit 0 0]"
  let ?es = "map Service sample_answered @ ?rest"
  obtain S where run: "run_steps (chat_step sample_externals sample_config) (new_service 12) sample_answered = Some S"
    and S: "sv_records S = [(7, 3, 4)]"
    using sample_answered_run by blast
  have "list_all (\<lambda>e. \<not> usage_op e) sample_answered"
    by (simp add: sample_answered_def sample_events_def)
  note served = service_run [OF service.inv_start this run]
  have billed: "billed (?log (new_service 12) ?es) = [(7, 3, 4)]"
    using served S meter_log_append [OF conjunct1 [OF served], of ?rest] by (simp add: new_service_def credit_record_def)
  obtain S' where run': "run_steps ?step (new_service 12) ?es = Some S'" "sv_records S' = []"
    using conjunct1 [OF served] S by (simp add: run_steps_append credit_record_def)
  then show ?thesis
    using usage_metered_once_and_accounted [OF run'(1) refl, of 7] by (simp add: billed)
qed

end
