(* ===== verification/Usage_Submit.thy ===== *)
theory Usage_Submit
  imports Router_Prelude
begin

text \<open>
  Submitting recorded usage (\<open>record_usage\<close> and \<open>record_usage_with_retry\<close> of
  \<open>src/chain/usage.rs\<close>). One attempt sends a transaction and waits for a confirmation; what the
  chain does with it is an input: whether the send succeeds, whether the transaction is mined and
  whether the confirmation is seen.
\<close>

datatype chain_reply =
    SendFails
  | Sent (mined: bool) (confirmed: bool)

text \<open>The deltas that one attempt puts on the chain, and whether it returns \<open>Ok\<close>.\<close>

definition record_usage :: "u64 \<Rightarrow> u64 \<Rightarrow> chain_reply \<Rightarrow> (u64 \<times> u64) list \<times> bool" where
  "record_usage input output reply =
     (if input = 0 \<and> output = 0 then ([], True)
      else (case reply of
              SendFails \<Rightarrow> ([], False)
            | Sent m c \<Rightarrow> (if m then [(input, output)] else [], c)))"

definition max_attempts :: nat where
  "max_attempts = 3"

record submission =
  sb_recorded :: "(u64 \<times> u64) list"
  sb_attempts :: nat
  sb_sleeps :: "nat list"
  sb_success :: bool

text \<open>\<open>left\<close> attempts remain; \<open>reply k\<close> is the chain's reply to attempt \<open>k\<close>.\<close>

fun retry_from :: "nat \<Rightarrow> nat \<Rightarrow> u64 \<Rightarrow> u64 \<Rightarrow> (nat \<Rightarrow> chain_reply) \<Rightarrow> submission" where
  "retry_from attempt 0 input output reply =
     \<lparr>sb_recorded = [], sb_attempts = 0, sb_sleeps = [], sb_success = False\<rparr>"
| "retry_from attempt (Suc left) input output reply =
     (let (rec, ok) = record_usage input output (reply attempt) in
      if ok then \<lparr>sb_recorded = rec, sb_attempts = 1, sb_sleeps = [], sb_success = True\<rparr>
      else
        (let rest = retry_from (attempt + 1) left input output reply;
             sleep = (if attempt < max_attempts then [2 ^ (attempt - 1)] else []) in
         \<lparr>sb_recorded = rec @ sb_recorded rest, sb_attempts = Suc (sb_attempts rest),
          sb_sleeps = sleep @ sb_sleeps rest, sb_success = sb_success rest\<rparr>))"

definition record_usage_with_retry :: "u64 \<Rightarrow> u64 \<Rightarrow> (nat \<Rightarrow> chain_reply) \<Rightarrow> submission" where
  "record_usage_with_retry input output reply = retry_from 1 max_attempts input output reply"

definition accepted :: "chain_reply \<Rightarrow> bool" where
  "accepted r \<longleftrightarrow> (case r of Sent m c \<Rightarrow> c | SendFails \<Rightarrow> False)"

definition landed :: "chain_reply \<Rightarrow> bool" where
  "landed r \<longleftrightarrow> (case r of Sent m c \<Rightarrow> m | SendFails \<Rightarrow> False)"

text \<open>C38: A submission makes at most three attempts, sleeping one and then two seconds between them;
  it succeeds exactly when one of the attempts is confirmed, and each attempt that the chain mines
  up to then records the whole delta once.\<close>

theorem submission_outcome:
  assumes "input \<noteq> 0 \<or> output \<noteq> 0"
  shows "(sb_success (record_usage_with_retry input output reply) \<longleftrightarrow>
      accepted (reply 1) \<or> accepted (reply 2) \<or> accepted (reply 3)) \<and>
    sb_attempts (record_usage_with_retry input output reply) =
      (if accepted (reply 1) then 1 else if accepted (reply 2) then 2 else 3) \<and>
    sb_sleeps (record_usage_with_retry input output reply) =
      (if accepted (reply 1) then [] else if accepted (reply 2) then [1] else [1, 2]) \<and>
    sb_recorded (record_usage_with_retry input output reply) =
      map (\<lambda>_. (input, output))
        (filter landed (map reply (if accepted (reply 1) then [1] else if accepted (reply 2) then [1, 2] else [1, 2, 3])))"
proof -
  have one: "record_usage input output r = (if landed r then [(input, output)] else [], accepted r)" for r
    using assms by (auto simp: record_usage_def landed_def accepted_def split: chain_reply.split)
  show ?thesis
    by (simp add: record_usage_with_retry_def max_attempts_def eval_nat_numeral one)
qed

theorem submission_outcome_witness:
  "sb_success (record_usage_with_retry 5 7 (\<lambda>k. if k = 2 then Sent True True else SendFails))"
  using submission_outcome [of 5 7 "\<lambda>k. if k = 2 then Sent True True else SendFails"]
  by (simp add: accepted_def)

text \<open>When a transaction is mined but its confirmation is not seen, the retry records the same usage
  a second time.\<close>

theorem lost_confirmation_records_twice:
  assumes "input \<noteq> 0 \<or> output \<noteq> 0" "reply 1 = Sent True False" "reply 2 = Sent True True"
  shows "sb_recorded (record_usage_with_retry input output reply) = [(input, output), (input, output)] \<and>
    sb_success (record_usage_with_retry input output reply)"
  using assms by (auto simp: record_usage_with_retry_def max_attempts_def eval_nat_numeral record_usage_def)

theorem lost_confirmation_records_twice_witness:
  "sb_recorded (record_usage_with_retry 5 7 (\<lambda>k. Sent True (k = 2))) = [(5, 7), (5, 7)]"
  using lost_confirmation_records_twice [of 5 7 "\<lambda>k. Sent True (k = 2)"] by simp

end
