(* ===== verification/Metrics.thy ===== *)
theory Metrics
  imports Chat_Steps Chat_Properties Usage_Submit
begin

text \<open>
  The counters of \<open>src/metrics.rs\<close> and where they are counted (\<open>consumer/forward.rs\<close>,
  \<open>tunnel/connect.rs\<close>, \<open>chain/usage.rs\<close>). The recorder is process wide: the macros of the metrics
  package act on the installed one and do nothing while there is none. A counter is the number of its
  increments, from 0.
\<close>

section \<open>The recorder\<close>

datatype metric_kind = Counter | Histogram

record recorder =
  rec_described :: "(string \<times> metric_kind) list"
  rec_counters :: "string \<Rightarrow> nat"
  rec_histograms :: "string \<Rightarrow> f64 list"

definition empty_recorder :: recorder where
  "empty_recorder = \<lparr>rec_described = [], rec_counters = (\<lambda>_. 0), rec_histograms = (\<lambda>_. [])\<rparr>"

definition describe :: "string \<Rightarrow> metric_kind \<Rightarrow> recorder option \<Rightarrow> recorder option" where
  "describe name kind = map_option (\<lambda>r. r\<lparr>rec_described := rec_described r @ [(name, kind)]\<rparr>)"

definition increment :: "string \<Rightarrow> recorder option \<Rightarrow> recorder option" where
  "increment name = map_option (\<lambda>r. r\<lparr>rec_counters := (rec_counters r)(name := rec_counters r name + 1)\<rparr>)"

definition record_value :: "string \<Rightarrow> f64 \<Rightarrow> recorder option \<Rightarrow> recorder option" where
  "record_value name x =
     map_option (\<lambda>r. r\<lparr>rec_histograms := (rec_histograms r)(name := rec_histograms r name @ [x])\<rparr>)"

definition init_metrics :: "recorder option \<Rightarrow> recorder option" where
  "init_metrics =
     describe ''sparkl_router_capacity_rejected_total'' Counter \<circ>
     describe ''sparkl_router_record_usage_failures_total'' Counter \<circ>
     describe ''sparkl_router_record_usage_success_total'' Counter \<circ>
     describe ''sparkl_router_chunk_latency_seconds'' Histogram \<circ>
     describe ''sparkl_router_tunnel_connections_total'' Counter \<circ>
     describe ''sparkl_router_requests_forwarded_total'' Counter"

text \<open>Installing succeeds once in a process.\<close>

definition install_prometheus_recorder :: "string \<Rightarrow> recorder option \<Rightarrow> string + recorder option" where
  "install_prometheus_recorder taken g =
     (case g of
        None \<Rightarrow> Inr (Some empty_recorder)
      | Some r \<Rightarrow> Inl (''prometheus install: '' @ taken))"

definition inc_requests_forwarded :: "recorder option \<Rightarrow> recorder option" where
  "inc_requests_forwarded = increment ''sparkl_router_requests_forwarded_total''"

definition inc_tunnel_connected :: "recorder option \<Rightarrow> recorder option" where
  "inc_tunnel_connected = increment ''sparkl_router_tunnel_connections_total''"

definition observe_chunk_latency :: "f64 \<Rightarrow> recorder option \<Rightarrow> recorder option" where
  "observe_chunk_latency seconds = record_value ''sparkl_router_chunk_latency_seconds'' seconds"

definition inc_record_usage_success :: "recorder option \<Rightarrow> recorder option" where
  "inc_record_usage_success = increment ''sparkl_router_record_usage_success_total''"

definition inc_record_usage_failures :: "recorder option \<Rightarrow> recorder option" where
  "inc_record_usage_failures = increment ''sparkl_router_record_usage_failures_total''"

definition inc_capacity_rejected :: "recorder option \<Rightarrow> recorder option" where
  "inc_capacity_rejected = increment ''sparkl_router_capacity_rejected_total''"

text \<open>The start of the process describes the metrics first and installs the recorder then.\<close>

definition start_metrics :: "string \<Rightarrow> recorder option \<Rightarrow> string + recorder option" where
  "start_metrics taken g = install_prometheus_recorder taken (init_metrics g)"

section \<open>Where the handlers count\<close>

definition count_forward :: "acquire_error option \<Rightarrow> chat_error + nat \<Rightarrow> recorder option \<Rightarrow> recorder option" where
  "count_forward acquired r g =
     (case acquired of
        Some err \<Rightarrow> inc_capacity_rejected g
      | None \<Rightarrow> (case r of Inl e \<Rightarrow> g | Inr c \<Rightarrow> inc_requests_forwarded g))"

definition count_connect :: "string + nat \<Rightarrow> recorder option \<Rightarrow> recorder option" where
  "count_connect r g = (case r of Inl e \<Rightarrow> g | Inr i \<Rightarrow> inc_tunnel_connected g)"

definition count_submission :: "submission \<Rightarrow> recorder option \<Rightarrow> recorder option" where
  "count_submission sub g = (if sb_success sub then inc_record_usage_success g else inc_record_usage_failures g)"

fun count_event :: "'vk externals \<Rightarrow> chat_config \<Rightarrow> chat_service \<Rightarrow> chat_event \<Rightarrow> recorder option \<Rightarrow> recorder option" where
  "count_event X K S (ChatAdmitted i rid) g =
     (case sv_chats S ! i of
        ChatAdmitting auth p headers t \<Rightarrow>
          (case admission_outcome (tasks (rs_capacity (sv_router S)) ! t) of
             None \<Rightarrow> g
           | Some acquired \<Rightarrow>
               count_forward acquired
                 (fst (chat_forward (x_enc X) p acquired rid headers (release_guard t) (sv_router S))) g)
      | _ \<Rightarrow> g)"
| "count_event X K S (NodeSide (Connect E)) g =
     count_connect (fst (handle_node_connect X (rc_chain_enabled (kc_router K)) E (sv_router S))) g"
| "count_event X K S _ g = g"

definition counted_step ::
  "'vk externals \<Rightarrow> chat_config \<Rightarrow> chat_service \<times> recorder option \<Rightarrow> chat_event \<Rightarrow>
   (chat_service \<times> recorder option) option" where
  "counted_step X K s e = map_option (\<lambda>S'. (S', count_event X K (fst s) e (snd s))) (chat_step X K (fst s) e)"

definition forwarded_total :: "recorder option \<Rightarrow> nat" where
  "forwarded_total g = (case g of None \<Rightarrow> 0 | Some r \<Rightarrow> rec_counters r ''sparkl_router_requests_forwarded_total'')"

definition rejected_total :: "recorder option \<Rightarrow> nat" where
  "rejected_total g = (case g of None \<Rightarrow> 0 | Some r \<Rightarrow> rec_counters r ''sparkl_router_capacity_rejected_total'')"

definition connections_total :: "recorder option \<Rightarrow> nat" where
  "connections_total g = (case g of None \<Rightarrow> 0 | Some r \<Rightarrow> rec_counters r ''sparkl_router_tunnel_connections_total'')"

section \<open>What the counters say\<close>

lemma totals_inc:
  "forwarded_total (inc_requests_forwarded (Some r)) = Suc (forwarded_total (Some r))"
  "rejected_total (inc_requests_forwarded (Some r)) = rejected_total (Some r)"
  "connections_total (inc_requests_forwarded (Some r)) = connections_total (Some r)"
  "forwarded_total (inc_capacity_rejected (Some r)) = forwarded_total (Some r)"
  "rejected_total (inc_capacity_rejected (Some r)) = Suc (rejected_total (Some r))"
  "connections_total (inc_capacity_rejected (Some r)) = connections_total (Some r)"
  "forwarded_total (inc_tunnel_connected (Some r)) = forwarded_total (Some r)"
  "rejected_total (inc_tunnel_connected (Some r)) = rejected_total (Some r)"
  "connections_total (inc_tunnel_connected (Some r)) = Suc (connections_total (Some r))"
  by (simp_all add: forwarded_total_def rejected_total_def connections_total_def inc_requests_forwarded_def
      inc_capacity_rejected_def inc_tunnel_connected_def increment_def)

lemma count_event_recorder: "count_event X K S e (Some r) \<noteq> None"
  by (cases "(X, K, S, e, Some r)" rule: count_event.cases)
    (auto simp: count_forward_def count_connect_def inc_requests_forwarded_def inc_capacity_rejected_def
      inc_tunnel_connected_def increment_def split: chat.split option.split sum.split)


text \<open>Only a connection that got its ready frame is counted, and only connections add tunnels.\<close>

fun connects :: "'vk externals \<Rightarrow> bool \<Rightarrow> router_state \<Rightarrow> router_event \<Rightarrow> nat" where
  "connects X chain rs (Connect E) = (case fst (handle_node_connect X chain E rs) of Inl e \<Rightarrow> 0 | Inr i \<Rightarrow> 1)"
| "connects X chain rs _ = 0"

definition nodes_grow :: "nat \<Rightarrow> router_state \<Rightarrow> router_state \<Rightarrow> bool" where
  "nodes_grow d rs rs' \<longleftrightarrow> rs_connected rs' = rs_connected rs + d \<and>
     length (rs_tunnels rs') \<le> length (rs_tunnels rs) + d \<and> length (rs_store rs) + d \<le> length (rs_store rs')"

lemma nodes_grow_same: "same_nodes rs rs' \<Longrightarrow> nodes_grow 0 rs rs'"
  by (simp add: same_nodes_def nodes_grow_def)

lemma alist_update_length: "length (AList.update k v al) \<le> Suc (length al)"
  by (induction al) auto

lemma alist_delete_update_length: "length (AList.delete k (AList.update k v al)) \<le> length al"
proof (induction al)
  case (Cons x al)
  then show ?case
    by (cases x) (auto simp: AList.delete_eq intro: le_SucI length_filter_le)
qed simp

lemma nodes_grow_connect:
  "nodes_grow (connects X chain rs (Connect E)) rs (snd (handle_node_connect X chain E rs))"
proof (cases "handshake X chain E")
  case (Inr nm)
  obtain n m where nm: "nm = (n, m)" by (cases nm)
  let ?rs1 = "replace_old n rs"
  let ?rs2 = "open_tunnel E n m ?rs1"
  have old: "length (rs_tunnels ?rs1) \<le> length (rs_tunnels rs)" "rs_connected ?rs1 = rs_connected rs"
    using length_filter_le
    by (auto simp: replace_old_def registry_remove_def update_tunnel_def AList.delete_eq split: option.split)
  have opened: "length (rs_tunnels ?rs2) \<le> Suc (length (rs_tunnels ?rs1))" "rs_connected ?rs2 = rs_connected ?rs1"
    "length (rs_store ?rs2) = Suc (length (rs_store ?rs1))"
    by (simp_all add: open_tunnel_def registry_insert_def alist_update_length)
  have "length (AList.delete n (rs_tunnels ?rs2)) \<le> length (rs_tunnels ?rs1)"
    by (simp add: open_tunnel_def registry_insert_def alist_delete_update_length)
  then show ?thesis
    using Inr nm old opened
    by (simp add: handle_node_connect_def Let_def nodes_grow_def registry_remove_def emit_status_def
        rs_store_replace_old)
qed (simp add: handle_node_connect_def nodes_grow_def)


lemma nodes_grow_step:
  assumes "router_step X R rs e = Some rs'"
  shows "nodes_grow (connects X (rc_chain_enabled R) rs e) rs rs'"
proof (cases e)
  case (Connect E)
  with assms nodes_grow_connect show ?thesis by auto
next
  case (Frame i msg now)
  with assms show ?thesis
    by (auto simp: nodes_grow_def handle_inbound_text_def handle_pong_def update_tunnel_def emit_status_def Let_def
        split: sum.splits node_frame.splits if_splits)
next
  case (CloseTunnel i now)
  with assms show ?thesis
    using length_filter_le
    by (auto simp: nodes_grow_def close_tunnel_def update_tunnel_def registry_remove_def emit_status_def Let_def
        AList.delete_eq split: prod.splits if_splits)
next
  case (Refresh i fetched now)
  with assms show ?thesis
    by (auto simp: nodes_grow_def refresh_tunnel_def update_tunnel_def Let_def split: sum.splits prod.splits if_splits)
qed (use assms in \<open>auto simp: nodes_grow_def update_tunnel_def split: if_splits option.splits\<close>)

fun counters_agree :: "chat_service \<times> recorder option \<Rightarrow> bool" where
  "counters_agree (S, g) \<longleftrightarrow>
     g \<noteq> None \<and> forwarded_total g + rejected_total g \<le> count_if (\<lambda>ch. \<not> admitting ch) (sv_chats S) \<and>
     connections_total g = rs_connected (sv_router S) \<and>
     length (rs_tunnels (sv_router S)) \<le> connections_total g \<and>
     connections_total g \<le> length (rs_store (sv_router S))"

text \<open>What one event counts.\<close>

lemma count_event_totals:
  "forwarded_total (count_event X K S e (Some r)) + rejected_total (count_event X K S e (Some r)) \<le>
    forwarded_total (Some r) + rejected_total (Some r) +
    (case e of ChatAdmitted i rid \<Rightarrow> if admitting (sv_chats S ! i) then 1 else 0 | _ \<Rightarrow> 0)"
  "connections_total (count_event X K S e (Some r)) =
    connections_total (Some r) +
    (case e of NodeSide re \<Rightarrow> connects X (rc_chain_enabled (kc_router K)) (sv_router S) re | _ \<Rightarrow> 0)"
  by (cases "(X, K, S, e, Some r)" rule: count_event.cases;
      auto simp: count_forward_def count_connect_def totals_inc split: chat.split option.split sum.split)+

lemma admitted_leaves:
  assumes "admitted_chat X i rid S = Some S'" "i < length (sv_chats S)"
  shows "admitting (sv_chats S ! i) \<and> \<not> admitting (sv_chats S' ! i)"
  using assms
  by (auto simp: admitted_chat_def Let_def set_chat_def split: chat.splits option.splits prod.splits sum.splits if_splits)


lemma counters_step:
  assumes inv: "service_inv K S" and agree: "counters_agree (S, Some r)" and run: "chat_step X K S e = Some S'"
  shows "counters_agree (S', count_event X K S e (Some r))"
proof -
  let ?g = "count_event X K S e (Some r)"
  let ?waits = "\<lambda>ch. \<not> admitting ch"
  let ?d = "case e of ChatAdmitted i rid \<Rightarrow> if admitting (sv_chats S ! i) then 1 else 0 | _ \<Rightarrow> (0::nat)"
  let ?c = "case e of NodeSide re \<Rightarrow> connects X (rc_chain_enabled (kc_router K)) (sv_router S) re | _ \<Rightarrow> 0"
  have "count_if ?waits (sv_chats S) + ?d \<le> count_if ?waits (sv_chats S') \<and> nodes_grow ?c (sv_router S) (sv_router S')"
  proof (cases "chat_event_index e")
    case (Some i)
    with moves_step [OF inv run] obtain ch' t us where i: "i < length (sv_chats S)" and mv: "chat_moves i S S' ch' t us"
      by blast
    have S': "sv_chats S' = (sv_chats S)[i := ch']" and adm: "admitting ch' \<Longrightarrow> admitting (sv_chats S ! i)"
      using mv by (auto simp: chat_moves_def)
    have "?d = 1 \<Longrightarrow> admitting (sv_chats S ! i) \<and> \<not> admitting ch'"
    proof -
      assume "?d = 1"
      then obtain rid where "admitted_chat X i rid S = Some S'"
        using run Some by (cases e) (auto simp: chat_step_def split: if_splits)
      with admitted_leaves [OF this i] S' i show ?thesis by simp
    qed
    then have "count_if ?waits (sv_chats S) + ?d \<le> count_if ?waits (sv_chats S')"
      using count_if_update [OF i, of ?waits ch'] adm by (auto simp: S' split: chat_event.splits if_splits)
    moreover have "?c = 0"
      using Some by (cases e) auto
    ultimately show ?thesis
      using nodes_grow_same mv by (simp add: chat_moves_def)
  next
    case None
    show ?thesis
    proof (cases e)
      case (ChatRequest fetch now hdr body headers)
      with run have "S' = request_chat K fetch now hdr body headers S" by (simp add: chat_step_def)
      then have "same_nodes (sv_router S) (sv_router S') \<and> (\<exists>ch. sv_chats S' = sv_chats S @ [ch])"
        using request_chats [of K fetch now hdr body headers S]
        by (auto simp: request_chat_def Let_def split: prod.split sum.split)
      then show ?thesis
        using ChatRequest nodes_grow_same by auto
    next
      case (NodeSide re)
      with run show ?thesis
        using nodes_grow_step by (fastforce simp: chat_step_def split: if_splits)
    next
      case (RecordUsage fetch now)
      with run nodes_grow_same [OF same_nodes_frame(1)] show ?thesis
        by (auto simp: chat_step_def record_next_def split: list.splits)
    next
      case (UsageSweep fetch now)
      with run nodes_grow_same [OF same_nodes_frame(1)] show ?thesis
        by (auto simp: chat_step_def)
    qed (use None in simp_all)
  qed
  moreover note count_event_totals [of X K S e r] count_event_recorder [of X K S e r]
  ultimately show ?thesis
    using agree unfolding counters_agree.simps nodes_grow_def by linarith
qed

interpretation counting: invariant_system "(new_service ttl, Some empty_recorder)" "counted_step X K"
  "\<lambda>s. service_inv K (fst s) \<and> counters_agree s" for X K ttl
proof unfold_locales
  show "service_inv K (fst (new_service ttl, Some empty_recorder)) \<and> counters_agree (new_service ttl, Some empty_recorder)"
    using service.inv_start
    by (simp add: new_service_def new_router_state_def forwarded_total_def rejected_total_def connections_total_def
        empty_recorder_def)
  show "service_inv K (fst t) \<and> counters_agree t"
    if inv: "service_inv K (fst s) \<and> counters_agree s" and step: "counted_step X K s e = Some t" for s e t
  proof -
    obtain S r where s: "s = (S, Some r)" "service_inv K S" "counters_agree (S, Some r)"
      using inv by (cases s; cases "snd s") auto
    then obtain S' where "chat_step X K S e = Some S'" "t = (S', count_event X K S e (Some r))"
      using step by (auto simp: counted_step_def)
    with counters_step [OF s(2,3)] service_inv_step [OF s(2)] show ?thesis by auto
  qed
qed

text \<open>The counters say what happened. Whatever requests and connections the started service has seen, no
  request is counted twice, as forwarded and as rejected, and none before its admission is over; and the
  connection counter lies between the nodes that are registered now and the tunnels that were ever opened.\<close>

theorem counters_consistent:
  assumes "start_metrics taken None = Inr g"
    and "reachable_by (counted_step X K) (new_service ttl, g) (S, g')"
  shows "forwarded_total g' + rejected_total g' \<le> count_if (\<lambda>ch. \<not> admitting ch) (sv_chats S) \<and>
    tunnel_count (sv_router S) \<le> connections_total g' \<and> connections_total g' \<le> length (rs_store (sv_router S))"
proof -
  have "g = Some empty_recorder"
    using assms(1) by (simp add: start_metrics_def init_metrics_def install_prometheus_recorder_def describe_def)
  with counting.inv_reachable [where ttl = ttl and X = X and K = K and s = "(S, g')"] assms(2) show ?thesis
    by (simp add: tunnel_count_def)
qed

lemma counted_run:
  "run_steps (chat_step X K) S es = Some S' \<Longrightarrow> \<exists>g'. run_steps (counted_step X K) (S, g) es = Some (S', g')"
proof (induction es arbitrary: S g)
  case (Cons e es)
  then show ?case by (auto simp: counted_step_def split: option.splits)
qed simp

theorem counters_consistent_witness:
  "\<exists>S g'. run_steps (counted_step sample_externals sample_config) (new_service 12, Some empty_recorder) sample_events = Some (S, g') \<and>
    connections_total g' \<le> 1 \<and> forwarded_total g' + rejected_total g' \<le> 1"
proof -
  obtain S where S: "run_steps (chat_step sample_externals sample_config) (new_service 12) sample_events = Some S"
    "sv_chats S = [ChatAnswering sample_chat_auth sample_chat_plan 1 0 0 []]" "length (rs_store (sv_router S)) = 1"
    using sample_run by blast
  then obtain g' where run: "run_steps (counted_step sample_externals sample_config)
      (new_service 12, Some empty_recorder) sample_events = Some (S, g')"
    using counted_run by blast
  have "start_metrics [] None = Inr (Some empty_recorder)"
    by (simp add: start_metrics_def init_metrics_def install_prometheus_recorder_def describe_def)
  from counters_consistent [OF this run_steps_reachable [OF reach_start run]] S run show ?thesis
    by auto
qed

text \<open>The descriptions are lost: they are given before there is a recorder.\<close>

theorem descriptions_are_lost:
  "start_metrics taken None = Inr (Some empty_recorder) \<and> rec_described empty_recorder = [] \<and>
    map_option (length \<circ> rec_described) (init_metrics (Some empty_recorder)) = Some 6"
  by (simp add: start_metrics_def init_metrics_def install_prometheus_recorder_def describe_def empty_recorder_def)

text \<open>Every submission is counted once, as a success exactly when one of its attempts was confirmed.\<close>

definition usage_totals :: "recorder option \<Rightarrow> nat \<times> nat" where
  "usage_totals g = (case g of None \<Rightarrow> (0, 0)
     | Some r \<Rightarrow> (rec_counters r ''sparkl_router_record_usage_success_total'',
                 rec_counters r ''sparkl_router_record_usage_failures_total''))"

lemma submissions_counted:
  "usage_totals (foldl (\<lambda>g sub. count_submission sub g) (Some empty_recorder) subs) =
    (count_if sb_success subs, count_if (\<lambda>sub. \<not> sb_success sub) subs)"
proof -
  have "\<exists>r'. foldl (\<lambda>g sub. count_submission sub g) (Some r) subs = Some r' \<and>
      rec_counters r' ''sparkl_router_record_usage_success_total'' =
        rec_counters r ''sparkl_router_record_usage_success_total'' + count_if sb_success subs \<and>
      rec_counters r' ''sparkl_router_record_usage_failures_total'' =
        rec_counters r ''sparkl_router_record_usage_failures_total'' + count_if (\<lambda>sub. \<not> sb_success sub) subs" for r
  proof (induction subs arbitrary: r)
    case (Cons sub subs)
    obtain r1 where r1: "count_submission sub (Some r) = Some r1"
      "rec_counters r1 ''sparkl_router_record_usage_success_total'' =
        rec_counters r ''sparkl_router_record_usage_success_total'' + (if sb_success sub then 1 else 0)"
      "rec_counters r1 ''sparkl_router_record_usage_failures_total'' =
        rec_counters r ''sparkl_router_record_usage_failures_total'' + (if sb_success sub then 0 else 1)"
      by (cases "sb_success sub")
        (simp_all add: count_submission_def inc_record_usage_success_def inc_record_usage_failures_def increment_def)
    with Cons.IH [of r1] show ?case by auto
  qed simp
  from this [of empty_recorder] show ?thesis
    by (auto simp: usage_totals_def empty_recorder_def)
qed

end
