(* ===== verification/Connection_Loop.thy ===== *)
theory Connection_Loop
  imports Tunnel_Lifecycle
begin

text \<open>
  A connection from beginning to end: the loop of \<open>run_tunnel_lifecycle\<close>
  (\<open>src/tunnel/lifecycle.rs\<close>) over what its \<open>select!\<close> yields, with the clean-up behind it, and
  \<open>node_connect\<close>, which runs the handshake and then the loop (\<open>src/tunnel/connect.rs\<close>). The writer
  and the pinger run beside it; their turns are steps of the router.
\<close>

text \<open>The shutdown signal, a message or failure of the socket at a time, or the end of the socket.\<close>

datatype loop_input = ShutdownSignal | WsInput ws_message int | WsEnd

text \<open>The state, the payloads of the pongs that were sent, and whether the loop was left.\<close>

fun lifecycle_loop ::
  "'vk externals \<Rightarrow> router_config \<Rightarrow> nat \<Rightarrow> loop_input list \<Rightarrow> router_state \<Rightarrow>
   router_state \<times> bytes list \<times> bool" where
  "lifecycle_loop X cfg i [] rs = (rs, [], False)"
| "lifecycle_loop X cfg i (ShutdownSignal # inps) rs = (rs, [], True)"
| "lifecycle_loop X cfg i (WsEnd # inps) rs = (rs, [], True)"
| "lifecycle_loop X cfg i (WsInput m now # inps) rs =
     (case m of
        WsText t \<Rightarrow>
          lifecycle_loop X cfg i inps (fst (handle_inbound_text X (rc_stale cfg) (rc_refresh cfg) now i t rs))
      | WsPing p \<Rightarrow> (let (rs', pongs, left) = lifecycle_loop X cfg i inps rs in (rs', p # pongs, left))
      | WsClose \<Rightarrow> (rs, [], True)
      | WsFailure \<Rightarrow> (rs, [], True)
      | WsOther \<Rightarrow> lifecycle_loop X cfg i inps rs)"

definition run_tunnel_lifecycle ::
  "'vk externals \<Rightarrow> router_config \<Rightarrow> nat \<Rightarrow> loop_input list \<Rightarrow> int \<Rightarrow> router_state \<Rightarrow> router_state \<times> bytes list" where
  "run_tunnel_lifecycle X cfg i inps now rs =
     (let (rs', pongs, left) = lifecycle_loop X cfg i inps rs in
      (if left then close_tunnel (x_enc X) now i rs' else rs', pongs))"

definition node_connection ::
  "'vk externals \<Rightarrow> router_config \<Rightarrow> connect_env \<Rightarrow> loop_input list \<Rightarrow> int \<Rightarrow> router_state \<Rightarrow> router_state" where
  "node_connection X cfg E inps now rs =
     (case handle_node_connect X (rc_chain_enabled cfg) E rs of
        (Inl e, rs') \<Rightarrow> rs'
      | (Inr i, rs') \<Rightarrow> fst (run_tunnel_lifecycle X cfg i inps now rs'))"

section \<open>A connection is a run of the router\<close>

fun ends_connection :: "loop_input \<Rightarrow> bool" where
  "ends_connection ShutdownSignal = True"
| "ends_connection WsEnd = True"
| "ends_connection (WsInput m now) = (m = WsClose \<or> m = WsFailure)"

fun frame_events :: "nat \<Rightarrow> loop_input list \<Rightarrow> router_event list" where
  "frame_events i [] = []"
| "frame_events i (WsInput (WsText t) now # inps) = Frame i t now # frame_events i inps"
| "frame_events i (inp # inps) = (if ends_connection inp then [] else frame_events i inps)"

fun ping_payloads :: "loop_input list \<Rightarrow> bytes list" where
  "ping_payloads [] = []"
| "ping_payloads (WsInput (WsPing p) now # inps) = p # ping_payloads inps"
| "ping_payloads (inp # inps) = (if ends_connection inp then [] else ping_payloads inps)"

lemma length_store_inbound [simp]:
  "length (rs_store (fst (handle_inbound_text X stale refresh now i t rs))) = length (rs_store rs)"
  by (auto simp: handle_inbound_text_def handle_pong_def Let_def update_tunnel_def emit_status_def
      split: sum.split node_frame.split)

lemma node_id_inbound [simp]:
  "tn_node_id (tunnel_at (fst (handle_inbound_text X stale refresh now i t rs)) i) = tn_node_id (tunnel_at rs i)"
  by (cases "i < length (rs_store rs)")
    (auto simp: handle_inbound_text_def handle_pong_def Let_def update_tunnel_def emit_status_def tunnel_at_def
      not_less list_update_beyond split: sum.split node_frame.split)

lemma lifecycle_loop_run:
  assumes "i < length (rs_store rs)"
  shows "run_steps (router_step X cfg) rs (frame_events i inps) = Some (fst (lifecycle_loop X cfg i inps rs)) \<and>
    snd (lifecycle_loop X cfg i inps rs) = (ping_payloads inps, list_ex ends_connection inps) \<and>
    length (rs_store (fst (lifecycle_loop X cfg i inps rs))) = length (rs_store rs) \<and>
    tn_node_id (tunnel_at (fst (lifecycle_loop X cfg i inps rs)) i) = tn_node_id (tunnel_at rs i)"
  using assms
proof (induction inps arbitrary: rs)
  case (Cons inp inps)
  show ?case
  proof (cases inp)
    case (WsInput m now)
    then show ?thesis
      using Cons.IH [OF Cons.prems] Cons.prems Cons.IH
      by (cases m; cases "lifecycle_loop X cfg i inps rs") auto
  qed (use Cons.prems in simp_all)
qed simp

lemma run_steps_snoc: "run_steps step s es = Some t \<Longrightarrow> run_steps step s (es @ [e]) = step t e"
  by (simp add: run_steps_append split: option.split)

text \<open>C14: The whole life of a connection is a run of the router's system on its own tunnel: one frame
  event for each text message up to the first thing that ends it, be it the shutdown signal, a close
  message, a failure or the end of the socket, and then exactly one clean-up; every ping up to then
  is answered with its own payload, in order; nothing after the end has any effect.\<close>

theorem connection_is_router_run:
  assumes "i < length (rs_store rs)"
  shows "run_steps (router_step X cfg) rs
      (frame_events i inps @ (if list_ex ends_connection inps then [CloseTunnel i now] else [])) =
        Some (fst (run_tunnel_lifecycle X cfg i inps now rs)) \<and>
    snd (run_tunnel_lifecycle X cfg i inps now rs) = ping_payloads inps"
proof -
  obtain rs' where loop: "lifecycle_loop X cfg i inps rs = (rs', ping_payloads inps, list_ex ends_connection inps)"
    and run: "run_steps (router_step X cfg) rs (frame_events i inps) = Some rs'"
    and len: "length (rs_store rs') = length (rs_store rs)"
    using lifecycle_loop_run [OF assms, of X cfg inps] by (metis prod.collapse)
  then show ?thesis
    using assms run_steps_snoc [OF run] by (simp add: run_tunnel_lifecycle_def)
qed

theorem connection_is_router_run_witness:
  "snd (run_tunnel_lifecycle sample_externals
      \<lparr>rc_chain_enabled = True, rc_stale = 40, rc_refresh = 60, rc_ping = 30, rc_pong = 10\<rparr> 0
      [WsInput (WsPing [1, 2]) 5, WsInput WsOther 6, WsInput WsClose 7, WsInput (WsPing [3]) 8] 9
      (snd (handle_node_connect sample_externals True (sample_env (replicate 32 5)) new_router_state))) = [[1, 2]]"
proof -
  have "0 < length (rs_store (snd (handle_node_connect sample_externals True (sample_env (replicate 32 5)) new_router_state)))"
    by (auto simp: handle_node_connect_def sample_handshake Let_def open_tunnel_def registry_insert_def
        registry_remove_def emit_status_def)
  from connection_is_router_run [THEN conjunct2, OF this, of sample_externals
      "\<lparr>rc_chain_enabled = True, rc_stale = 40, rc_refresh = 60, rc_ping = 30, rc_pong = 10\<rparr>"
      "[WsInput (WsPing [1, 2]) 5, WsInput WsOther 6, WsInput WsClose 7, WsInput (WsPing [3]) 8]" 9]
  show ?thesis by (simp only: ping_payloads.simps) simp
qed



end
