(* ===== verification/Connect_Phases.thy ===== *)
theory Connect_Phases
  imports Tunnel_Lifecycle
begin

text \<open>
  Connections of nodes at the grain of their shared accesses (\<open>src/tunnel/connect.rs\<close>). Between a
  handshake that passed and the lifecycle of the tunnel, a connection removes the node's old tunnel,
  inserts its own and sends the ready frame: three accesses, between which anything else may happen,
  another connection of the same node included. \<open>handle_node_connect\<close> is the run in which nothing
  does.
\<close>

section \<open>The phases\<close>

datatype joining =
    Verified connect_env node_id "string option"
  | Cleared connect_env node_id "string option"
  | Inserted node_id nat
  | Joined nat
  | Dismissed

datatype phase_event =
    Arrive connect_env
  | ClearOld nat
  | InsertNew nat
  | SendReady nat bool
  | Elsewhere router_event

definition send_ready :: "(bytes \<Rightarrow> string) \<Rightarrow> node_id \<Rightarrow> nat \<Rightarrow> bool \<Rightarrow> router_state \<Rightarrow> joining \<times> router_state" where
  "send_ready enc n i sent rs =
     (if \<not> sent then (Dismissed, registry_remove n rs)
      else
        (let t = tunnel_at rs i in
         (Joined i, emit_status enc n (tn_moniker t) ''online'' (in_flight_count t) (tn_model_count t)
            (rs\<lparr>rs_connected := rs_connected rs + 1\<rparr>))))"

definition at_joining ::
  "nat \<Rightarrow> (joining \<Rightarrow> router_state \<Rightarrow> (joining \<times> router_state) option) \<Rightarrow>
   router_state \<times> joining list \<Rightarrow> (router_state \<times> joining list) option" where
  "at_joining j f s =
     (if j < length (snd s) then
        (case f (snd s ! j) (fst s) of
           None \<Rightarrow> None
         | Some (ph, rs) \<Rightarrow> Some (rs, (snd s)[j := ph]))
      else None)"

fun clear_old :: "joining \<Rightarrow> router_state \<Rightarrow> (joining \<times> router_state) option" where
  "clear_old (Verified E n m) rs = Some (Cleared E n m, replace_old n rs)"
| "clear_old _ rs = None"

fun insert_new :: "joining \<Rightarrow> router_state \<Rightarrow> (joining \<times> router_state) option" where
  "insert_new (Cleared E n m) rs = Some (Inserted n (length (rs_store rs)), open_tunnel E n m rs)"
| "insert_new _ rs = None"

fun ready_sent :: "(bytes \<Rightarrow> string) \<Rightarrow> bool \<Rightarrow> joining \<Rightarrow> router_state \<Rightarrow> (joining \<times> router_state) option" where
  "ready_sent enc sent (Inserted n i) rs = Some (send_ready enc n i sent rs)"
| "ready_sent enc sent _ rs = None"

fun phase_step ::
  "'vk externals \<Rightarrow> router_config \<Rightarrow> router_state \<times> joining list \<Rightarrow> phase_event \<Rightarrow>
   (router_state \<times> joining list) option" where
  "phase_step X cfg s (Arrive E) =
     (case handshake X (rc_chain_enabled cfg) E of
        Inl e \<Rightarrow> Some s
      | Inr (n, m) \<Rightarrow> Some (fst s, snd s @ [Verified E n m]))"
| "phase_step X cfg s (ClearOld j) = at_joining j clear_old s"
| "phase_step X cfg s (InsertNew j) = at_joining j insert_new s"
| "phase_step X cfg s (SendReady j sent) = at_joining j (ready_sent (x_enc X) sent) s"
| "phase_step X cfg s (Elsewhere e) =
     (case e of
        Connect E \<Rightarrow> None
      | _ \<Rightarrow> map_option (\<lambda>rs. (rs, snd s)) (router_step X cfg (fst s) e))"

section \<open>Undisturbed, the phases are the connection\<close>

definition phases_of :: "nat \<Rightarrow> connect_env \<Rightarrow> phase_event list" where
  "phases_of j E = [Arrive E, ClearOld j, InsertNew j, SendReady j (ce_ready_sent E)]"

lemma store_replace_old [simp]: "length (rs_store (replace_old n rs)) = length (rs_store rs)"
  by (rule rs_store_replace_old)

lemma phases_undisturbed:
  assumes "handshake X (rc_chain_enabled cfg) E = Inr (n, m)"
  shows "map_option fst (run_steps (phase_step X cfg) (rs, js) (phases_of (length js) E)) =
    Some (snd (handle_node_connect X (rc_chain_enabled cfg) E rs))"
  using assms
  by (simp add: phases_of_def at_joining_def handle_node_connect_def send_ready_def Let_def)

section \<open>Consistency in every interleaving\<close>

lemma registry_wf_status [simp]:
  "registry_wf (emit_status enc n m s a b rs) = registry_wf rs"
  "registry_wf (rs\<lparr>rs_connected := c\<rparr>) = registry_wf rs"
  by (simp_all add: emit_status_def registry_wf_def registry_get_def)

lemma phase_step_wf:
  assumes wf: "registry_wf (fst s)" and run: "phase_step X cfg s e = Some t"
  shows "registry_wf (fst t)"
proof (cases e)
  case (Elsewhere r)
  with run obtain rs where "router_step X cfg (fst s) r = Some rs" "t = (rs, snd s)"
    by (cases r) auto
  with router.inv_step [OF wf] show ?thesis by auto
qed (use wf run in \<open>auto simp: at_joining_def send_ready_def Let_def registry_wf_replace_old registry_wf_open_tunnel
    registry_wf_remove elim!: clear_old.elims insert_new.elims ready_sent.elims split: sum.splits if_splits option.splits\<close>)

interpretation phases: invariant_system "(new_router_state, [])" "phase_step X cfg" "\<lambda>s. registry_wf (fst s)" for X cfg
  by unfold_locales (simp_all add: registry_wf_start phase_step_wf)


text \<open>C15: Connecting is more than one step. In every interleaving of the phases of connections with each other
  and with everything else, the registry stays consistent; and a connection whose phases are not disturbed
  leaves the router as \<open>handle_node_connect\<close> does, whatever other connections are on their way.\<close>

theorem connect_phases_consistent:
  assumes "reachable_by (phase_step X cfg) (new_router_state, []) (rs, js)"
  shows "registry_wf rs \<and>
    (\<forall>E n m. handshake X (rc_chain_enabled cfg) E = Inr (n, m) \<longrightarrow>
      map_option fst (run_steps (phase_step X cfg) (rs, js) (phases_of (length js) E)) =
        Some (snd (handle_node_connect X (rc_chain_enabled cfg) E rs)))"
proof (intro conjI allI impI)
  show "registry_wf rs"
    using phases.inv_reachable [OF assms] by simp
qed (rule phases_undisturbed)

definition sample_router_config :: router_config where
  "sample_router_config = \<lparr>rc_chain_enabled = True, rc_stale = 40, rc_refresh = 60, rc_ping = 30, rc_pong = 10\<rparr>"

theorem connect_phases_consistent_witness:
  "map_option fst (run_steps (phase_step sample_externals sample_router_config) (new_router_state, [])
      (phases_of 0 (sample_env (replicate 32 5)))) =
    Some (snd (handle_node_connect sample_externals True (sample_env (replicate 32 5)) new_router_state))"
  using connect_phases_consistent [OF reach_start, of sample_externals sample_router_config]
    sample_handshake [of "replicate 32 5"]
  by (simp add: sample_router_config_def)

section \<open>Two connections of one node\<close>

text \<open>When the node connects twice at once, both connections find no old tunnel, both insert theirs, and
  both go on: the first tunnel is in nobody's registry, nobody tells it to shut down, and when it closes
  at last its clean-up takes the second, healthy tunnel out of the registry.\<close>

definition racing :: "connect_env \<Rightarrow> connect_env \<Rightarrow> phase_event list" where
  "racing E1 E2 =
     [Arrive E1, Arrive E2, ClearOld 0, ClearOld 1, InsertNew 0, InsertNew 1, SendReady 0 True, SendReady 1 True]"

lemma racing_run:
  assumes "handshake X (rc_chain_enabled cfg) E1 = Inr (n, m1)" "handshake X (rc_chain_enabled cfg) E2 = Inr (n, m2)"
    and "k = length (rs_store rs)"
  shows "\<exists>rs'. run_steps (phase_step X cfg) (rs, []) (racing E1 E2) = Some (rs', [Joined k, Joined (k + 1)]) \<and>
    registry_get rs' n = Some (k + 1) \<and> length (rs_store rs') = k + 2 \<and>
    tunnel_at rs' k = new_tunnel (ce_now E1) (ce_instant E1) n m1 \<and>
    tunnel_at rs' (k + 1) = new_tunnel (ce_now E2) (ce_instant E2) n m2"
proof -
  have gone: "registry_get (replace_old n rs) n = None"
    by (simp add: replace_old_def registry.table_laws split: option.split)
  then have again: "replace_old n (replace_old n rs) = replace_old n rs"
    by (simp add: replace_old_def [of n "replace_old n rs"])
  show ?thesis
    using assms gone
    by (simp add: racing_def at_joining_def send_ready_def Let_def again open_tunnel_def registry_insert_def
        registry_get_def tunnel_at_def nth_append emit_status_def update_conv')
qed

theorem concurrent_connects_orphan:
  assumes "handshake X (rc_chain_enabled cfg) E1 = Inr (n, m1)" "handshake X (rc_chain_enabled cfg) E2 = Inr (n, m2)"
    and "k = length (rs_store rs)"
  shows "\<exists>rs1 rs2. run_steps (phase_step X cfg) (rs, []) (racing E1 E2) = Some (rs1, [Joined k, Joined (k + 1)]) \<and>
    registry_get rs1 n = Some (k + 1) \<and> \<not> tn_shutdown (tunnel_at rs1 k) \<and>
    phase_step X cfg (rs1, [Joined k, Joined (k + 1)]) (Elsewhere (CloseTunnel k now)) =
      Some (rs2, [Joined k, Joined (k + 1)]) \<and>
    registry_get rs2 n = None \<and> \<not> tn_shutdown (tunnel_at rs2 (k + 1)) \<and> tn_writer_open (tunnel_at rs2 (k + 1))"
proof -
  obtain rs1 where rs1: "run_steps (phase_step X cfg) (rs, []) (racing E1 E2) = Some (rs1, [Joined k, Joined (k + 1)])"
    "registry_get rs1 n = Some (k + 1)" "length (rs_store rs1) = k + 2"
    "tunnel_at rs1 k = new_tunnel (ce_now E1) (ce_instant E1) n m1"
    "tunnel_at rs1 (k + 1) = new_tunnel (ce_now E2) (ce_instant E2) n m2"
    using racing_run [OF assms] by blast
  let ?rs2 = "close_tunnel (x_enc X) now k rs1"
  have "registry_get ?rs2 n = None" "tunnel_at ?rs2 (k + 1) = tunnel_at rs1 (k + 1)"
    using rs1(3,4)
    by (simp_all add: close_tunnel_def Let_def emit_status_def registry_remove_def registry_get_def tunnel_at_def
        update_tunnel_def new_tunnel_def delete_conv' split: prod.split)
  with rs1 show ?thesis
    by (intro exI [of _ rs1] exI [of _ ?rs2]) (simp add: new_tunnel_def)
qed

theorem concurrent_connects_orphan_witness:
  "\<exists>rs1. run_steps (phase_step sample_externals sample_router_config) (new_router_state, [])
      (racing (sample_env (replicate 32 5)) (sample_env (replicate 32 5))) = Some (rs1, [Joined 0, Joined 1]) \<and>
    registry_get rs1 (replicate 32 5) = Some 1"
  using concurrent_connects_orphan [of sample_externals sample_router_config "sample_env (replicate 32 5)"
      "replicate 32 5" None "sample_env (replicate 32 5)" None 0 new_router_state]
    sample_handshake [of "replicate 32 5"]
  by (auto simp: sample_router_config_def new_router_state_def)

end
