(* ===== verification/Router_Status.thy ===== *)
theory Router_Status
  imports Router_State
begin

text \<open>
  The operator's side: the admin token (\<open>src/admin.rs\<close>), the status of the nodes
  (\<open>src/status/nodes.rs\<close>) and the telemetry subscription (\<open>src/status/subscribe.rs\<close>). HMAC-SHA256
  and the lower-casing of Unicode text are parameters.
\<close>

section \<open>The admin token\<close>

definition bearer_of :: "string \<Rightarrow> string option" where
  "bearer_of h =
     (case strip_prefix ''Bearer '' h of Some t \<Rightarrow> Some t | None \<Rightarrow> strip_prefix ''bearer '' h)"

datatype admin_outcome = NotConfigured | Unauthorized | Admitted

text \<open>\<open>auth\<close> is the authorization header when it is readable text.\<close>

definition require_admin_token :: "string \<Rightarrow> string option \<Rightarrow> admin_outcome" where
  "require_admin_token admin_token auth =
     (let expected = trim admin_token in
      if expected = [] then NotConfigured
      else if (case Option.bind auth bearer_of of Some t \<Rightarrow> trim t = expected | None \<Rightarrow> False)
      then Admitted else Unauthorized)"

text \<open>The admin routes open exactly to a bearer token that equals the configured one up to white
  space; with no token configured they open to nobody.\<close>

theorem admin_needs_token:
  "require_admin_token admin_token auth = Admitted \<longleftrightarrow>
    trim admin_token \<noteq> [] \<and>
    (\<exists>scheme t. scheme \<in> {''Bearer '', ''bearer ''} \<and> auth = Some (scheme @ t) \<and> trim t = trim admin_token)"
proof -
  have bearer: "bearer_of h = Some t \<longleftrightarrow> (\<exists>scheme \<in> {''Bearer '', ''bearer ''}. h = scheme @ t)" for h t
  proof -
    have "strip_prefix ''Bearer '' (''bearer '' @ u) = None" for u
      by (simp add: strip_prefix_def)
    then show ?thesis
      by (cases "strip_prefix ''Bearer '' h")
        (auto simp: bearer_of_def strip_prefix_Some_iff simp del: append_Cons)
  qed
  have schemes: "bearer_of (''Bearer '' @ t) = Some t" "bearer_of (''bearer '' @ t) = Some t" for t
    unfolding bearer by blast+
  show ?thesis
    by (cases auth)
      (auto simp: require_admin_token_def Let_def bearer schemes simp del: append_Cons split: option.split)
qed

section \<open>Subscriptions\<close>

definition verify_subscribe_token ::
  "(bytes \<Rightarrow> bytes \<Rightarrow> bytes) \<Rightarrow> (bytes \<Rightarrow> string) \<Rightarrow> (string \<Rightarrow> string) \<Rightarrow> int \<Rightarrow> string \<Rightarrow> string \<Rightarrow> string \<Rightarrow> bool" where
  "verify_subscribe_token hmac enc lower now admin_token token expiry_text =
     (case parse_i64 expiry_text of
        None \<Rightarrow> False
      | Some expiry \<Rightarrow>
          if expiry < now then False
          else enc (hmac (map of_char admin_token) (map of_char expiry_text)) = lower (trim token))"

definition authorize_subscribe ::
  "(bytes \<Rightarrow> bytes \<Rightarrow> bytes) \<Rightarrow> (bytes \<Rightarrow> string) \<Rightarrow> (string \<Rightarrow> string) \<Rightarrow> int \<Rightarrow> string \<Rightarrow> string option \<Rightarrow>
   (string \<times> string) list \<Rightarrow> bool" where
  "authorize_subscribe hmac enc lower now admin_token auth query =
     (let expected = trim admin_token in
      if expected = [] then False
      else if (case Option.bind auth bearer_of of Some t \<Rightarrow> trim t = expected | None \<Rightarrow> False) then True
      else (case (map_of query ''token'', map_of query ''exp'') of
              (Some token, Some expiry_text) \<Rightarrow> verify_subscribe_token hmac enc lower now expected token expiry_text
            | _ \<Rightarrow> False))"

text \<open>C39: A subscription is granted only to the admin token itself or to a token that is the HMAC of its
  own expiry under the admin token, until that expiry; with no admin token to nobody.\<close>

theorem subscribe_needs_token_or_mac:
  assumes "authorize_subscribe hmac enc lower now admin_token auth query"
  shows "trim admin_token \<noteq> [] \<and>
    (require_admin_token admin_token auth = Admitted \<or>
     (\<exists>token expiry_text t. map_of query ''token'' = Some token \<and> map_of query ''exp'' = Some expiry_text \<and>
       parse_i64 expiry_text = Some t \<and> now \<le> t \<and>
       lower (trim token) = enc (hmac (map of_char (trim admin_token)) (map of_char expiry_text))))"
proof (cases "require_admin_token admin_token auth = Admitted")
  case True
  with assms show ?thesis
    by (auto simp: authorize_subscribe_def Let_def)
next
  case False
  with assms show ?thesis
    by (cases "map_of query ''token''"; cases "map_of query ''exp''";
        cases "parse_i64 (the (map_of query ''exp''))")
      (auto simp: authorize_subscribe_def require_admin_token_def verify_subscribe_token_def Let_def not_less
        split: if_splits)
qed

theorem subscribe_needs_token_or_mac_witness:
  "trim ''secret'' \<noteq> [] \<and> authorize_subscribe (\<lambda>k m. m) (\<lambda>bs. ''mac'') id 5 ''secret'' None
     [(''token'', ''mac''), (''exp'', ''9'')]"
proof -
  have "trim ''secret'' = ''secret''" "trim ''mac'' = ''mac''"
    by (rule trim_graph, simp add: graph_char_def)+
  moreover have "parse_i64 ''9'' = Some 9"
    by (simp add: parse_i64_def parse_uint_def digit_val_def)
  ultimately have ok: "authorize_subscribe (\<lambda>k m. m) (\<lambda>bs. ''mac'') id 5 ''secret'' None
      [(''token'', ''mac''), (''exp'', ''9'')]"
    by (simp add: authorize_subscribe_def verify_subscribe_token_def)
  from subscribe_needs_token_or_mac [OF ok] ok show ?thesis by blast
qed

section \<open>Node status\<close>

definition derive_status :: "int \<Rightarrow> int \<Rightarrow> u64 \<Rightarrow> string" where
  "derive_status now last_pong stale =
     (let age = sat_i64 (now - last_pong) in
      if age \<le> as_i64 stale then ''online''
      else if age \<le> as_i64 (stale * 2) then ''degraded'' else ''offline'')"

record node_status =
  ns_node_id :: string
  ns_moniker :: "string option"
  ns_status :: string
  ns_connected_at :: "int option"
  ns_last_pong_at :: "int option"
  ns_uptime_secs :: "int option"
  ns_in_flight_requests :: nat
  ns_model_count :: int

text \<open>\<open>uptime\<close> is the age of the tunnel in whole seconds.\<close>

definition tunnel_status :: "(bytes \<Rightarrow> string) \<Rightarrow> int \<Rightarrow> int \<Rightarrow> u64 \<Rightarrow> node_tunnel \<Rightarrow> node_status" where
  "tunnel_status enc now instant stale t =
     (let uptime = (instant - tn_connected_at t) div 10 ^ 9 in
      \<lparr>ns_node_id = ''0x'' @ enc (tn_node_id t), ns_moniker = tn_moniker t,
       ns_status = derive_status now (last_pong_timestamp t) stale, ns_connected_at = Some (now - uptime),
       ns_last_pong_at = Some (last_pong_timestamp t), ns_uptime_secs = Some uptime,
       ns_in_flight_requests = in_flight_count t, ns_model_count = tn_model_count t\<rparr>)"

definition list_nodes :: "(bytes \<Rightarrow> string) \<Rightarrow> int \<Rightarrow> int \<Rightarrow> u64 \<Rightarrow> router_state \<Rightarrow> node_status list" where
  "list_nodes enc now instant stale rs =
     map (\<lambda>(n, i). tunnel_status enc now instant stale (tunnel_at rs i)) (registry_iter rs)"

definition get_node ::
  "(bytes \<Rightarrow> string) \<Rightarrow> (string \<Rightarrow> string + bytes) \<Rightarrow> int \<Rightarrow> int \<Rightarrow> u64 \<Rightarrow> string \<Rightarrow> router_state \<Rightarrow>
   nat \<times> string + node_status" where
  "get_node enc dec now instant stale id_text rs =
     (case parse_node_id_hex dec id_text of
        Inl e \<Rightarrow> Inl (400, e)
      | Inr n \<Rightarrow>
          (case tunnel_of rs n of
             Some t \<Rightarrow> Inr (tunnel_status enc now instant stale t)
           | None \<Rightarrow>
               Inr \<lparr>ns_node_id = ''0x'' @ enc n, ns_moniker = None, ns_status = ''offline'',
                    ns_connected_at = None, ns_last_pong_at = None, ns_uptime_secs = None,
                    ns_in_flight_requests = 0, ns_model_count = 0\<rparr>))"

lemma derive_status_same: "derive_status = tunnel_status_for_pong"
  by (simp add: derive_status_def tunnel_status_for_pong_def fun_eq_iff)

text \<open>The two views of a node agree: for a registered node the single view is the entry of the list
  with its id, and a node without a tunnel reads as offline with nothing in flight.\<close>

theorem node_views_agree:
  assumes "registry_wf rs" "parse_node_id_hex dec s = Inr n"
  shows "\<exists>v. get_node enc dec now instant stale s rs = Inr v \<and> ns_node_id v = node_id_hex enc n \<and>
    (if registry_get rs n = None then ns_status v = ''offline'' \<and> ns_in_flight_requests v = 0
     else v \<in> set (list_nodes enc now instant stale rs))"
proof (cases "registry_get rs n")
  case None
  with assms(2) show ?thesis
    by (simp add: get_node_def tunnel_of_def node_id_hex_def)
next
  case (Some i)
  then have "(n, i) \<in> set (rs_tunnels rs)" "tn_node_id (tunnel_at rs i) = n"
    using assms(1) by (auto simp: registry_wf_def registry_get_def tunnel_at_def dest: map_of_SomeD)
  then show ?thesis
    using Some assms(2)
    by (force simp: get_node_def tunnel_of_def list_nodes_def tunnel_status_def Let_def node_id_hex_def)
qed

theorem node_views_agree_witness:
  "\<exists>v. get_node sample_enc sample_dec 0 0 40 (node_id_hex sample_enc (replicate 32 7)) new_router_state = Inr v \<and>
    ns_status v = ''offline''"
proof -
  have "trim (node_id_hex sample_enc (replicate 32 7)) = node_id_hex sample_enc (replicate 32 7)"
    by (rule trim_graph [OF node_id_hex_graph [OF sample_hex_laws]])
  moreover have "strip_prefix ''0x'' (node_id_hex sample_enc (replicate 32 7)) = Some (sample_enc (replicate 32 7))"
    by (simp only: node_id_hex_def strip_prefix_append)
  ultimately have "parse_node_id_hex sample_dec (node_id_hex sample_enc (replicate 32 7)) = Inr (replicate 32 7)"
    by (simp add: parse_node_id_hex_def sample_dec_enc)
  from node_views_agree [OF registry_wf_start this, of sample_enc 0 0 40] show ?thesis
    by (auto simp: registry_get_def new_router_state_def split: if_splits)
qed

section \<open>The telemetry snapshot\<close>

definition node_event :: "(bytes \<Rightarrow> string) \<Rightarrow> int \<Rightarrow> u64 \<Rightarrow> node_tunnel \<Rightarrow> node_status_event" where
  "node_event enc now stale t =
     \<lparr>nse_node_id = node_id_hex enc (tn_node_id t), nse_moniker = tn_moniker t,
      nse_status = tunnel_status_for_pong now (last_pong_timestamp t) stale,
      nse_in_flight_requests = in_flight_count t, nse_model_count = tn_model_count t\<rparr>"

definition send_snapshot ::
  "(bytes \<Rightarrow> string) \<Rightarrow> int \<Rightarrow> u64 \<Rightarrow> router_state \<Rightarrow> telemetry_event \<times> router_state" where
  "send_snapshot enc now stale rs =
     (let nodes = sort_key nse_node_id (map (\<lambda>(n, i). node_event enc now stale (tunnel_at rs i)) (registry_iter rs));
          (models, s) = model_capacity_events enc (all_snapshots (rs_capacity rs)) (rs_models rs) (rs_capacity rs) in
      (build_snapshot nodes models, rs\<lparr>rs_capacity := s\<rparr>))"

text \<open>The loop of a subscriber: what its \<open>select!\<close> yields, one branch at a time. \<open>print\<close> is the
  serialiser of events, \<open>sent\<close> whether the socket takes the text. The result is the texts written;
  the loop ends at a closed bus, a closed or failed socket, and a failed write.\<close>

datatype subscriber_input =
  BusEvent telemetry_event bool
| BusLagged
| BusClosed
| ClientClosed
| ClientFailed
| ClientOther

definition is_snapshot :: "telemetry_event \<Rightarrow> bool" where
  "is_snapshot ev = (case ev of Snapshot _ _ \<Rightarrow> True | _ \<Rightarrow> False)"

fun subscriber_loop :: "(telemetry_event \<Rightarrow> string option) \<Rightarrow> subscriber_input list \<Rightarrow> string list" where
  "subscriber_loop print [] = []"
| "subscriber_loop print (BusEvent ev sent # is) =
     (if is_snapshot ev then subscriber_loop print is
      else (case print ev of
              None \<Rightarrow> subscriber_loop print is
            | Some t \<Rightarrow> if sent then t # subscriber_loop print is else []))"
| "subscriber_loop print (BusLagged # is) = subscriber_loop print is"
| "subscriber_loop print (BusClosed # is) = []"
| "subscriber_loop print (ClientClosed # is) = []"
| "subscriber_loop print (ClientFailed # is) = []"
| "subscriber_loop print (ClientOther # is) = subscriber_loop print is"

end
