(* ===== verification/Subscriptions.thy ===== *)
theory Subscriptions
  imports Router_Status
begin

text \<open>
  Delivery of telemetry (\<open>TelemetryBus\<close> of \<open>src/telemetry/mod.rs\<close>, \<open>status_subscribe\<close> and
  \<open>handle_subscribe\<close> of \<open>src/status/subscribe.rs\<close>). The bus is a broadcast channel of 256 slots: a
  receiver is a position in the sequence of events, starts at its end, and when more than 256
  events are ahead of it is told that it lags and goes on at the oldest one still kept.
\<close>

definition telemetry_channel_capacity :: nat where
  "telemetry_channel_capacity = 256"

definition subscribe :: "telemetry_bus \<Rightarrow> nat" where
  "subscribe bus = length bus"

datatype delivery = Delivered telemetry_event | Lagged nat | NothingNew

definition bus_recv :: "telemetry_bus \<Rightarrow> nat \<Rightarrow> delivery \<times> nat" where
  "bus_recv bus pos =
     (let oldest = length bus - telemetry_channel_capacity in
      if length bus \<le> pos then (NothingNew, pos)
      else if pos < oldest then (Lagged (oldest - pos), oldest)
      else (Delivered (bus ! pos), pos + 1))"

text \<open>What a receiver gets until nothing is new, as inputs of its loop; \<open>sent\<close> says whether the socket
  takes its texts.\<close>

function bus_inputs :: "bool \<Rightarrow> telemetry_bus \<Rightarrow> nat \<Rightarrow> subscriber_input list" where
  "bus_inputs sent bus pos =
     (case bus_recv bus pos of
        (NothingNew, pos') \<Rightarrow> []
      | (Lagged n, pos') \<Rightarrow> BusLagged # bus_inputs sent bus pos'
      | (Delivered ev, pos') \<Rightarrow> BusEvent ev sent # bus_inputs sent bus pos')"
  by pat_completeness auto

termination
  by (relation "measure (\<lambda>(sent, bus, pos). length bus - pos)")
    (auto simp: bus_recv_def telemetry_channel_capacity_def Let_def split: if_splits)

declare bus_inputs.simps [simp del]

text \<open>The socket of a subscriber: the snapshot first, then the loop.\<close>

definition handle_subscribe ::
  "(bytes \<Rightarrow> string) \<Rightarrow> int \<Rightarrow> u64 \<Rightarrow> (telemetry_event \<Rightarrow> string option) \<Rightarrow> bool \<Rightarrow> subscriber_input list \<Rightarrow>
   router_state \<Rightarrow> string list \<times> router_state" where
  "handle_subscribe enc now stale print first_sent inputs rs =
     (let (snap, rs') = send_snapshot enc now stale rs in
      case print snap of
        None \<Rightarrow> ([], rs')
      | Some t \<Rightarrow> if first_sent then (t # subscriber_loop print inputs, rs') else ([], rs'))"

text \<open>The whole request: refused with 401, or upgraded and served.\<close>

definition status_subscribe ::
  "(bytes \<Rightarrow> bytes \<Rightarrow> bytes) \<Rightarrow> (bytes \<Rightarrow> string) \<Rightarrow> (string \<Rightarrow> string) \<Rightarrow> int \<Rightarrow> u64 \<Rightarrow> string \<Rightarrow> string option \<Rightarrow>
   (string \<times> string) list \<Rightarrow> (telemetry_event \<Rightarrow> string option) \<Rightarrow> bool \<Rightarrow> subscriber_input list \<Rightarrow>
   router_state \<Rightarrow> (nat \<times> string + string list) \<times> router_state" where
  "status_subscribe hmac enc lower now stale admin_token auth query print first_sent inputs rs =
     (if authorize_subscribe hmac enc lower now admin_token auth query
      then (let (texts, rs') = handle_subscribe enc now stale print first_sent inputs rs in (Inr texts, rs'))
      else (Inl (401, ''invalid subscribe credentials''), rs))"

section \<open>What reaches a subscriber\<close>

text \<open>The texts of the events themselves: other snapshots and what cannot be printed are left out.\<close>

definition event_texts :: "(telemetry_event \<Rightarrow> string option) \<Rightarrow> telemetry_event list \<Rightarrow> string list" where
  "event_texts print evs = List.map_filter print (filter (\<lambda>ev. \<not> is_snapshot ev) evs)"

lemma event_texts_simps [simp]:
  "event_texts print [] = []"
  "event_texts print (ev # evs) =
     (if is_snapshot ev then event_texts print evs
      else (case print ev of None \<Rightarrow> event_texts print evs | Some t \<Rightarrow> t # event_texts print evs))"
  by (auto simp: event_texts_def map_filter_simps split: option.split)

lemma subscriber_loop_bus:
  "subscriber_loop print (bus_inputs True bus pos) =
    event_texts print (drop (max pos (length bus - telemetry_channel_capacity)) bus)"
proof (induction True bus pos rule: bus_inputs.induct)
  case (1 bus pos)
  let ?oldest = "length bus - telemetry_channel_capacity"
  consider "length bus \<le> pos" | "pos < length bus" "pos < ?oldest" | "pos < length bus" "?oldest \<le> pos"
    by linarith
  then show ?case
  proof cases
    case 1
    then show ?thesis
      by (subst bus_inputs.simps) (simp add: bus_recv_def)
  next
    case 2
    then have r: "bus_recv bus pos = (Lagged (?oldest - pos), ?oldest)"
      by (simp add: bus_recv_def)
    show ?thesis
      using "1.hyps"(2) [OF r [symmetric] refl] 2 by (subst bus_inputs.simps) (simp add: r max_def)
  next
    case 3
    then have r: "bus_recv bus pos = (Delivered (bus ! pos), pos + 1)"
      by (simp add: bus_recv_def)
    have "drop pos bus = bus ! pos # drop (pos + 1) bus"
      using 3(1) Cons_nth_drop_Suc [of pos bus] by simp
    then show ?thesis
      using "1.hyps"(1) [OF r [symmetric] refl] 3
      by (subst bus_inputs.simps) (simp add: r max_def split: option.split)
  qed
qed

text \<open>C35: A subscriber gets the snapshot and then, in the order in which they were sent, the events sent
  after it subscribed: all of them if at most 256 are waiting when it reads, and otherwise the last
  256. What the router was when the snapshot was taken does not matter: an event sent between the
  subscription and the snapshot is delivered after the snapshot.\<close>

theorem subscriber_sees_events_in_order:
  assumes "print (fst (send_snapshot enc now stale rs)) = Some t"
  shows "fst (handle_subscribe enc now stale print True (bus_inputs True (bus @ evs) (subscribe bus)) rs) =
    t # event_texts print (drop (length evs - telemetry_channel_capacity) evs)"
proof -
  have "drop (max (length bus) (length (bus @ evs) - telemetry_channel_capacity)) (bus @ evs) =
      drop (length evs - telemetry_channel_capacity) evs"
    by (simp add: max_def)
  then have "subscriber_loop print (bus_inputs True (bus @ evs) (subscribe bus)) =
      event_texts print (drop (length evs - telemetry_channel_capacity) evs)"
    by (simp only: subscribe_def subscriber_loop_bus)
  moreover obtain snap rs' where "send_snapshot enc now stale rs = (snap, rs')"
    by fastforce
  ultimately show ?thesis
    using assms by (simp add: handle_subscribe_def)
qed

theorem subscriber_sees_events_in_order_witness:
  "fst (handle_subscribe sample_enc 0 40 (\<lambda>ev. Some (case ev of NodeStatus s \<Rightarrow> nse_status s | _ \<Rightarrow> ''snap'')) True
      (bus_inputs True ([] @ emit_node_status sample_enc [1] None ''offline'' 0 0
         (emit_node_status sample_enc [1] None ''online'' 0 0 [])) (subscribe [])) new_router_state) =
    [''snap'', ''online'', ''offline'']"
proof -
  define print where "print = (\<lambda>ev. Some (case ev of NodeStatus s \<Rightarrow> nse_status s | _ \<Rightarrow> ''snap''))"
  have "print (fst (send_snapshot sample_enc 0 40 new_router_state)) = Some ''snap''"
    by (simp add: print_def send_snapshot_def build_snapshot_def split: prod.split)
  note subscriber_sees_events_in_order [where print = print, OF this, of "[]" "emit_node_status sample_enc [1] None ''offline'' 0 0
        (emit_node_status sample_enc [1] None ''online'' 0 0 [])"]
  also have "event_texts print (drop (length (emit_node_status sample_enc [1] None ''offline'' 0 0
        (emit_node_status sample_enc [1] None ''online'' 0 0 [])) - telemetry_channel_capacity)
      (emit_node_status sample_enc [1] None ''offline'' 0 0 (emit_node_status sample_enc [1] None ''online'' 0 0 []))) =
      [''online'', ''offline'']"
    by (simp add: print_def emit_node_status_def emit_def telemetry_channel_capacity_def is_snapshot_def)
  finally show ?thesis
    by (simp only: print_def)
qed

end
