(* ===== verification/Activate.thy ===== *)
theory Activate
  imports Consumer_Auth Tunnel_Dispatch Node_Auth
begin

text \<open>
  Session activation (\<open>src/consumer/activate.rs\<close>). The hex codec, Keccak-256 and secp256k1 recovery
  are parameters; \<open>recover\<close> gives the 65-byte uncompressed public key. A panic of the request
  handler is \<open>None\<close>. Text is UTF-8, one character of the model per byte.
\<close>

section \<open>Session ids in the path\<close>

definition continuation_byte :: "char \<Rightarrow> bool" where
  "continuation_byte c \<longleftrightarrow> 128 \<le> (of_char c :: nat) \<and> (of_char c :: nat) < 192"

definition char_count :: "string \<Rightarrow> nat" where
  "char_count s = length (filter (\<lambda>c. \<not> continuation_byte c) s)"

text \<open>\<open>format!("{:0>64}", s)\<close> pads to 64 characters; \<open>&s[..n]\<close> panics inside a character.\<close>

definition pad_left_64 :: "string \<Rightarrow> string" where
  "pad_left_64 s = replicate (64 - char_count s) (CHR ''0'') @ s"

definition slice_to :: "nat \<Rightarrow> string \<Rightarrow> string option" where
  "slice_to n s =
     (if n < length s \<and> continuation_byte (s ! n) then None else Some (take n s))"

definition parse_session_id :: "(string \<Rightarrow> string + bytes) \<Rightarrow> string \<Rightarrow> (string + u64) option" where
  "parse_session_id hex_dec s =
     (let t = trim s in
      case strip_prefix ''0x'' t of
        Some h \<Rightarrow>
          (let hex = trim_start_matches ''0'' h in
           if hex = [] then Some (Inr 0)
           else if length hex \<le> 16 then
             Some (case parse_uint 16 (2 ^ 64 - 1) hex of
                     None \<Rightarrow> Inl ''invalid session id hex''
                   | Some n \<Rightarrow> Inr (word_of_nat n))
           else
             (let padded = pad_left_64 hex in
              case slice_to (min 64 (length padded)) padded of
                None \<Rightarrow> None
              | Some head \<Rightarrow>
                  Some (case hex_dec head of
                          Inl e \<Rightarrow> Inl ''invalid session id hex''
                        | Inr bs \<Rightarrow>
                            if length bs \<noteq> 32 then Inl ''session id must be 32 bytes''
                            else if take 24 bs \<noteq> replicate 24 0 then Inl ''session id exceeds u64 range''
                            else Inr (u64_from_be (take 8 (drop 24 bs))))))
      | None \<Rightarrow>
          Some (case parse_u64 t of None \<Rightarrow> Inl ''invalid session id'' | Some n \<Rightarrow> Inr n))"

text \<open>\<open>format!("0x{:064x}", id)\<close>, the form the router hands on and returns.\<close>

definition session_id_hex :: "u64 \<Rightarrow> string" where
  "session_id_hex sid = ''0x'' @ hex_fixed 64 (unat sid)"

lemma trim_zeros: "trim_start_matches ''0'' s = dropWhile (\<lambda>c. c = CHR ''0'') s"
proof (induction s)
  case (Cons c s)
  have "trim_with [''0''] (c # s) = (if c = CHR ''0'' then trim_with [''0''] s else c # s)"
    by (subst trim_with.simps) simp
  with Cons show ?case by (simp add: trim_start_matches_def)
qed (simp add: trim_start_matches_def trim_with_id)

lemma parse_drop_zeros: "parse_digits 16 m 0 (dropWhile (\<lambda>c. c = CHR ''0'') s) = parse_digits 16 m 0 s"
  by (induction s) (simp_all add: digit_val_def)

lemma parse_hex_fixed:
  "acc * 16 ^ k + n mod 16 ^ k \<le> m \<Longrightarrow>
    parse_digits 16 m acc (hex_fixed k n) = Some (acc * 16 ^ k + n mod 16 ^ k)"
proof (induction k arbitrary: acc)
  case (Suc k)
  define d where "d = n div 16 ^ k mod 16"
  have split: "n mod 16 ^ Suc k = d * 16 ^ k + n mod 16 ^ k"
    using mod_mult2_eq [of n "16 ^ k" 16] by (simp add: d_def mult.commute)
  then have "(acc * 16 + d) * 16 ^ k + n mod 16 ^ k \<le> m"
    using Suc.prems by (simp add: algebra_simps)
  moreover from this have "acc * 16 + d \<le> m"
    by (rule order_trans [rotated]) (simp add: trans_le_add1)
  moreover have "hex_fixed (Suc k) n = digit_char d # hex_fixed k n" "digit_val 16 (digit_char d) = Some d"
    by (simp_all add: d_def digit_val_digit_char)
  ultimately have "parse_digits 16 m acc (hex_fixed (Suc k) n) =
      Some ((acc * 16 + d) * 16 ^ k + n mod 16 ^ k)"
    using Suc.IH [of "acc * 16 + d"] by simp
  also have "(acc * 16 + d) * 16 ^ k + n mod 16 ^ k = acc * 16 ^ Suc k + n mod 16 ^ Suc k"
    by (simp add: split algebra_simps del: power_Suc) simp
  finally show ?case .
qed simp

lemma hex_fixed_leading: "n < 16 ^ k \<Longrightarrow> hex_fixed (j + k) n = replicate j (CHR ''0'') @ hex_fixed k n"
proof (induction j)
  case (Suc j)
  have "n < 16 ^ (j + k)"
    using Suc.prems by (rule less_le_trans) simp
  with Suc show ?case by (simp add: digit_char_def)
qed simp

lemma hex_fixed_digits: "list_all hex_digit_char (hex_fixed k n)"
  by (induction k) (simp_all add: hex_digit_digit_char)

lemma session_id_reads_back:
  "parse_session_id hex_dec (session_id_hex sid) = Some (Inr sid)"
proof -
  let ?z = "dropWhile (\<lambda>c. c = CHR ''0'')"
  have small: "unat sid < 16 ^ 16"
    using unat_below [of sid] by simp
  have h64: "hex_fixed 64 (unat sid) = replicate 48 (CHR ''0'') @ hex_fixed 16 (unat sid)"
    using hex_fixed_leading [OF small, of 48] by simp
  have drop: "?z (hex_fixed 64 (unat sid)) = ?z (hex_fixed 16 (unat sid))"
    by (simp only: h64) (simp add: dropWhile_append)
  have len: "length (?z (hex_fixed 16 (unat sid))) \<le> 16"
    using length_dropWhile_le [of _ "hex_fixed 16 (unat sid)"] by simp
  have parsed: "parse_digits 16 (2 ^ 64 - 1) 0 (?z (hex_fixed 16 (unat sid))) = Some (unat sid)"
    using parse_hex_fixed [of 0 16 "unat sid" "2 ^ 64 - 1"] small parse_drop_zeros
    by (simp del: hex_fixed.simps)
  have graph: "\<forall>c \<in> set (session_id_hex sid). graph_char c"
    using hex_fixed_digits [of 64 "unat sid"] hex_digit_graph
    by (auto simp: session_id_hex_def list_all_iff graph_char_def simp del: hex_fixed.simps)
  have strip: "strip_prefix ''0x'' (trim (session_id_hex sid)) = Some (hex_fixed 64 (unat sid))"
    by (simp only: trim_graph [OF graph]) (simp only: session_id_hex_def strip_prefix_append)
  have uint: "parse_uint 16 (2 ^ 64 - 1) (?z (hex_fixed 16 (unat sid))) = Some (unat sid)"
    if ne: "?z (hex_fixed 16 (unat sid)) \<noteq> []"
  proof -
    obtain c cs where c: "?z (hex_fixed 16 (unat sid)) = c # cs"
      using ne by (cases "?z (hex_fixed 16 (unat sid))") auto
    then have "c \<in> set (hex_fixed 16 (unat sid))"
      by (metis list.set_intros(1) set_dropWhileD)
    then have "hex_digit_char c"
      using hex_fixed_digits [of 16 "unat sid"] by (simp only: list_all_iff)
    then have "c \<noteq> CHR ''+''"
      by (auto simp: hex_digit_char_def)
    with c parsed show ?thesis by (simp add: parse_uint_def del: parse_digits.simps)
  qed
  have zero: "sid = 0" if "?z (hex_fixed 16 (unat sid)) = []"
    using parsed that by (simp add: unat_eq_zero)
  show ?thesis
    using len uint zero
    by (auto simp: parse_session_id_def Let_def strip trim_zeros drop simp del: hex_fixed.simps)
qed

text \<open>The form in which the router writes a session id is read back as that id.\<close>

theorem session_id_roundtrip: "parse_session_id hex_dec (session_id_hex sid) = Some (Inr sid)"
  by (rule session_id_reads_back)

text \<open>A path with 63 hexadecimal digits and a two-byte character makes the handler panic: the
  text is padded by characters but cut at byte 64, in the middle of that character.\<close>

theorem session_id_panics:
  "parse_session_id hex_dec (''0x'' @ replicate 63 (CHR ''a'') @ [CHR 0xC3, CHR 0xBC]) = None"
proof -
  let ?h = "replicate 63 (CHR ''a'') @ [CHR 0xC3, CHR 0xBC]"
  have start: "trim_start (''0x'' @ ?h) = ''0x'' @ ?h"
    unfolding trim_start_def by (rule trim_with_id) (simp add: ws_tokens_def)
  have "first_strip (map rev ws_tokens) (CHR 0xBC # CHR 0xC3 # u) = None" for u
    by (simp add: ws_tokens_def)
  then have "trim_end (''0x'' @ ?h) = ''0x'' @ ?h"
    unfolding trim_end_def by (subst trim_with_id) simp_all
  then have trim: "trim (''0x'' @ ?h) = ''0x'' @ ?h"
    by (simp only: trim_def start)
  have zeros: "trim_start_matches ''0'' ?h = ?h"
    by (simp add: trim_zeros numeral_eq_Suc)
  have count: "char_count ?h = 64"
    by (simp add: char_count_def continuation_byte_def)
  have "slice_to 64 ?h = None"
    by (simp add: slice_to_def nth_append continuation_byte_def)
  then show ?thesis
    by (simp only: parse_session_id_def trim strip_prefix_append Let_def option.case zeros)
      (simp add: pad_left_64_def count min_def)
qed

section \<open>The signer of a message\<close>

definition eip191_input :: "string \<Rightarrow> bytes" where
  "eip191_input message =
     map of_char ((CHR 0x19 # ''Ethereum Signed Message:'') @ [CHR 0x0A] @ show_nat (length message) @ message)"

definition eip191_hash :: "(bytes \<Rightarrow> bytes) \<Rightarrow> string \<Rightarrow> bytes" where
  "eip191_hash keccak message = keccak (eip191_input message)"

definition recover_eip191_signer ::
  "(string \<Rightarrow> string + bytes) \<Rightarrow> (bytes \<Rightarrow> bytes) \<Rightarrow> (bytes \<Rightarrow> u8 \<Rightarrow> bytes \<Rightarrow> bytes option) \<Rightarrow>
   string \<Rightarrow> string \<Rightarrow> bytes option" where
  "recover_eip191_signer hex_dec keccak recover message sig_hex =
     (case hex_dec (case strip_prefix ''0x'' sig_hex of Some r \<Rightarrow> r | None \<Rightarrow> sig_hex) of
        Inl e \<Rightarrow> None
      | Inr sig \<Rightarrow>
          if length sig \<noteq> 65 then None
          else
            (let v = sig ! 64;
                 rec_byte = (if 27 \<le> v then v - 27 else v);
                 recid = take_bit 2 rec_byte in
             case recover (take 64 sig) recid (eip191_hash keccak message) of
               None \<Rightarrow> None
             | Some pubkey \<Rightarrow> Some (drop 12 (keccak (drop 1 pubkey)))))"

section \<open>The request\<close>

record activate_body =
  ab_signature :: string
  ab_block_number :: u64
  ab_message :: "string option"

definition activation_message :: "u64 \<Rightarrow> activate_body \<Rightarrow> string" where
  "activation_message sid body =
     (case ab_message body of
        Some m \<Rightarrow> m
      | None \<Rightarrow> ''sparkl-activate:'' @ show_nat (unat sid) @ '':'' @ show_nat (unat (ab_block_number body)))"

text \<open>The frames of the node's answer, and whether the timeout ends them.\<close>

fun collect_activation :: "inbound_frame list \<Rightarrow> bool \<Rightarrow> nat \<times> string + string" where
  "collect_activation [] timed_out =
     (if timed_out then Inl (504, ''activate timeout'') else Inl (502, ''activate closed without response''))"
| "collect_activation (ActivateResponse api_key # fs) timed_out = Inr api_key"
| "collect_activation (Error code message # fs) timed_out = Inl (502, ''activate error: '' @ message)"
| "collect_activation (_ # fs) timed_out = collect_activation fs timed_out"

text \<open>What is decided before anything is sent: the session, its node and the message.\<close>

definition check_activation ::
  "(string \<Rightarrow> string + bytes) \<Rightarrow> (string \<Rightarrow> string \<Rightarrow> bytes option) \<Rightarrow> session_fetch \<Rightarrow> int \<Rightarrow>
   (node_id \<Rightarrow> bool) \<Rightarrow> string \<Rightarrow> activate_body \<Rightarrow> verifier \<Rightarrow>
   ((nat \<times> string + u64 \<times> node_id \<times> string) \<times> verifier) option" where
  "check_activation hex_dec signer fetch now has_tunnel id_str body v =
     (case parse_session_id hex_dec id_str of
        None \<Rightarrow> None
      | Some (Inl e) \<Rightarrow> Some (Inl (400, e), v)
      | Some (Inr sid) \<Rightarrow>
          (let (r, v') = get_session fetch now sid v in
           Some
            (case r of
               Inl e \<Rightarrow> Inl (401, e)
             | Inr s \<Rightarrow>
                 if \<not> session_is_open s then Inl (401, ''session not open'')
                 else
                   (let message = activation_message sid body in
                    case signer message (ab_signature body) of
                      None \<Rightarrow> Inl (401, ''invalid signature'')
                    | Some recovered \<Rightarrow>
                        if recovered \<noteq> cs_user s then Inl (401, ''signature must recover to session user'')
                        else if \<not> has_tunnel (cs_node_id s) then Inl (503, ''provider offline'')
                        else Inr (sid, cs_node_id s, message)), v')))"

text \<open>The request on the node's tunnel and the answer to the caller.\<close>

definition activate_session ::
  "uuid \<Rightarrow> activate_body \<Rightarrow> u64 \<Rightarrow> string \<Rightarrow> inbound_frame list \<Rightarrow> bool \<Rightarrow> node_tunnel \<Rightarrow>
   (nat \<times> string + string \<times> string) \<times> node_tunnel" where
  "activate_session rid body sid message frames timed_out t =
     (case forward_activate rid (session_id_hex sid) (ab_signature body) (ab_block_number body) (Some message) t of
        (Inl e, t') \<Rightarrow> (Inl (502, e), t')
      | (Inr c, t') \<Rightarrow>
          (case collect_activation frames timed_out of
             Inl err \<Rightarrow> (Inl err, drop_pending rid c t')
           | Inr api_key \<Rightarrow> (Inr (api_key, session_id_hex sid), drop_pending rid c t')))"

text \<open>The answers as the caller gets them.\<close>

definition activate_error :: "nat \<Rightarrow> string \<Rightarrow> nat \<times> json" where
  "activate_error status msg =
     (status, JObj [(''error'', JObj [(''message'', JStr msg), (''type'', JStr ''activate_error'')])])"

definition activate_answer :: "nat \<times> string + string \<times> string \<Rightarrow> nat \<times> json" where
  "activate_answer r =
     (case r of
        Inl (status, msg) \<Rightarrow> activate_error status msg
      | Inr (api_key, sid) \<Rightarrow> (200, JObj [(''apiKey'', JStr api_key), (''sessionId'', JStr sid)]))"


text \<open>The message that is verified is the caller's, when the body carries one: it need not name the
  session, the block or the router. A signature of the user over any text whatever activates each
  of the user's open sessions.\<close>

theorem activation_message_not_bound:
  assumes "parse_session_id hex_dec id_str = Some (Inr sid)" "fst (get_session fetch now sid v) = Inr s"
    and "is_open s" "has_tunnel (cs_node_id s)"
    and "signer any_text sig = Some (cs_user s)"
  shows "\<exists>v'. check_activation hex_dec signer fetch now has_tunnel id_str
      \<lparr>ab_signature = sig, ab_block_number = block, ab_message = Some any_text\<rparr> v =
    Some (Inr (sid, cs_node_id s, any_text), v')"
  using assms by (cases "get_session fetch now sid v")
    (simp add: check_activation_def activation_message_def)

theorem activation_message_not_bound_witness:
  "\<exists>v'. check_activation (\<lambda>s. Inl s) (\<lambda>m sig. Some (replicate 20 9)) (\<lambda>_. Inr sample_session) 0 (\<lambda>_. True)
      (session_id_hex 7) \<lparr>ab_signature = ''sig'', ab_block_number = 3, ab_message = Some ''hello''\<rparr> (new_verifier 12) =
    Some (Inr (7, replicate 32 5, ''hello''), v')"
proof -
  have "fst (get_session (\<lambda>_. Inr sample_session) 0 7 (new_verifier 12)) = Inr sample_session"
    by (simp add: get_session_def cache_get_def cached_entry_def new_verifier_def)
  moreover have "is_open sample_session"
    by (simp add: is_open_def sample_session_def zero_address_def)
  moreover have "cs_node_id sample_session = replicate 32 5" "cs_user sample_session = replicate 20 9"
    by (simp_all add: sample_session_def)
  ultimately show ?thesis
    using activation_message_not_bound [OF session_id_reads_back, of "\<lambda>_. Inr sample_session" 0 7
        "new_verifier 12" sample_session "\<lambda>_. True" "\<lambda>m sig. Some (replicate 20 9)" "''hello''" "''sig''" "\<lambda>s. Inl s" 3]
    by simp
qed

end
