(* ===== verification/Http_Api.thy ===== *)
theory Http_Api
  imports Subscriptions Chat_Service Activate
begin

text \<open>
  The HTTP surface (\<open>src/routes.rs\<close>): which path and method reach which handler behind which guard,
  and the answers of the handlers that only read (\<open>src/consumer/catalog.rs\<close>,
  \<open>src/status/nodes.rs\<close>, \<open>health\<close>), with the error bodies of the chat handler. A path is its list of
  segments, split and decoded by the HTTP package.
\<close>

section \<open>Routes\<close>

datatype http_method = GET | HEAD | POST | OtherMethod

datatype endpoint =
    ListModels
  | ListProviders
  | ListFeatureCatalog
  | ChatCompletions
  | ActivateSession string
  | ListNodes
  | GetNode string
  | Health
  | NodeConnect
  | StatusSubscribe

datatype guard = OpenRoute | SessionRoute | AdminRoute

text \<open>A handler with the method it is registered for.\<close>

definition v1_public :: "string list \<Rightarrow> (endpoint \<times> http_method) option" where
  "v1_public segs =
     (if segs = [''models''] then Some (ListModels, GET)
      else if segs = [''catalog'', ''providers''] then Some (ListProviders, GET)
      else if segs = [''catalog'', ''features''] then Some (ListFeatureCatalog, GET)
      else None)"

definition v1_protected_routes :: "string list \<Rightarrow> (endpoint \<times> http_method) option" where
  "v1_protected_routes segs = (if segs = [''chat'', ''completions''] then Some (ChatCompletions, POST) else None)"

definition consumer_routes :: "string list \<Rightarrow> (guard \<times> endpoint \<times> http_method) option" where
  "consumer_routes segs =
     (case segs of
        s # rest \<Rightarrow>
          if s = ''v1'' then
            (case v1_public rest of
               Some r \<Rightarrow> Some (OpenRoute, r)
             | None \<Rightarrow> map_option (Pair SessionRoute) (v1_protected_routes rest))
          else if s = ''sessions'' then
            (case rest of
               [sid, a] \<Rightarrow> if a = ''activate'' \<and> sid \<noteq> [] then Some (OpenRoute, ActivateSession sid, POST) else None
             | _ \<Rightarrow> None)
          else None
      | [] \<Rightarrow> None)"

definition admin_routes :: "string list \<Rightarrow> (endpoint \<times> http_method) option" where
  "admin_routes segs =
     (case segs of
        [s, n] \<Rightarrow> if s = ''status'' \<and> n = ''nodes'' then Some (ListNodes, GET) else None
      | [s, n, nid] \<Rightarrow> if s = ''status'' \<and> n = ''nodes'' \<and> nid \<noteq> [] then Some (GetNode nid, GET) else None
      | _ \<Rightarrow> None)"

definition build_router :: "string list \<Rightarrow> (guard \<times> endpoint \<times> http_method) option" where
  "build_router segs =
     (if segs = [''health''] then Some (OpenRoute, Health, GET)
      else if segs = [''node'', ''connect''] then Some (OpenRoute, NodeConnect, GET)
      else if segs = [''status'', ''subscribe''] then Some (OpenRoute, StatusSubscribe, GET)
      else
        (case consumer_routes segs of
           Some r \<Rightarrow> Some r
         | None \<Rightarrow> map_option (Pair AdminRoute) (admin_routes segs)))"

definition method_allowed :: "http_method \<Rightarrow> http_method \<Rightarrow> bool" where
  "method_allowed registered used \<longleftrightarrow> used = registered \<or> registered = GET \<and> used = HEAD"

text \<open>A request on its way to a handler. The layers of a route run before its method is looked at.
  \<open>session\<close> is what the session middleware makes of the request.\<close>

definition dispatch_request ::
  "string \<Rightarrow> string option \<Rightarrow> nat \<times> string + authenticated_session \<Rightarrow> http_method \<Rightarrow> string list \<Rightarrow>
   nat \<times> string + endpoint \<times> authenticated_session option" where
  "dispatch_request admin_token auth session meth segs =
     (case build_router segs of
        None \<Rightarrow> Inl (404, [])
      | Some (g, ep, registered) \<Rightarrow>
          (let run = (\<lambda>s. if method_allowed registered meth then Inr (ep, s) else Inl (405, [])) in
           case g of
             OpenRoute \<Rightarrow> run None
           | SessionRoute \<Rightarrow> (case session of Inl e \<Rightarrow> Inl e | Inr s \<Rightarrow> run (Some s))
           | AdminRoute \<Rightarrow>
               (case require_admin_token admin_token auth of
                  NotConfigured \<Rightarrow> Inl (500, ''admin token not configured'')
                | Unauthorized \<Rightarrow> Inl (401, ''invalid admin token'')
                | Admitted \<Rightarrow> run None)))"

text \<open>The second listener has one route, for the metrics text.\<close>

definition metrics_app ::
  "string \<Rightarrow> string option \<Rightarrow> http_method \<Rightarrow> string list \<Rightarrow> string \<Rightarrow> nat \<times> string + string" where
  "metrics_app admin_token auth meth segs rendered =
     (if segs \<noteq> [''metrics''] then Inl (404, [])
      else
        (case require_admin_token admin_token auth of
           NotConfigured \<Rightarrow> Inl (500, ''admin token not configured'')
         | Unauthorized \<Rightarrow> Inl (401, ''invalid admin token'')
         | Admitted \<Rightarrow> if method_allowed GET meth then Inr rendered else Inl (405, [])))"

section \<open>Handlers that read\<close>

definition feature_key_docs :: "(string \<times> string) list" where
  "feature_key_docs =
     [(''mtp'', ''MTP / multi-token prediction setup (e.g. draft depth, backend note)''),
      (''speculative'', ''Speculative decoding path (e.g. dflash, eagle, draft model name)''),
      (''multimodal'', ''Vision / image input support (e.g. resolution limit, template)''),
      (''long_context'', ''Long-context claim (e.g. effective window, yarn note)'')]"

definition list_feature_catalog :: json where
  "list_feature_catalog =
     JObj [(''object'', JStr ''feature_catalog''),
       (''data'', JArr (map (\<lambda>(key, description).
          JObj [(''key'', JStr key), (''description'', JStr description)]) feature_key_docs))]"

definition json_u32 :: "u32 \<Rightarrow> json" where
  "json_u32 n = JNum (PosInt (ucast n))"

definition offering_json :: "provider_offering \<Rightarrow> json" where
  "offering_json b =
     JObj [(''node_id'', JStr (po_node_id b)), (''model_id'', JStr (po_model_id b)),
       (''tunnel_status'', JStr (po_tunnel_status b)), (''context_length'', json_u32 (po_context_length b)),
       (''quantization'', JStr (po_quantization b)), (''parameter_count'', JStr (po_parameter_count b)),
       (''source_url'', JStr (po_source_url b)),
       (''features'', JObj (map (\<lambda>(k, v). (k, JStr v)) (po_features b))),
       (''concurrency'', json_u32 (po_concurrency b)), (''active_requests'', json_u32 (po_active_requests b)),
       (''queued_requests'', json_u32 (po_queued_requests b)),
       (''active_sessions'', json_u32 (po_active_sessions b)),
       (''available_slots'', json_u32 (po_available_slots b))]"

definition list_providers ::
  "(bytes \<Rightarrow> string) \<Rightarrow> (string \<Rightarrow> string + bytes) \<Rightarrow> int \<Rightarrow> u64 \<Rightarrow> (string \<times> string) list \<Rightarrow> router_state \<Rightarrow>
   json \<times> router_state" where
  "list_providers enc dec now stale query rs =
     (let (providers, s) = query_providers enc dec now (from_query_map query) stale (tunnel_of rs)
            (rs_models rs) (rs_capacity rs) in
      (JObj [(''object'', JStr ''provider_list''), (''data'', JArr (map offering_json providers))],
       rs\<lparr>rs_capacity := s\<rparr>))"

definition list_models_handler :: "router_state \<Rightarrow> json" where
  "list_models_handler rs = list_cached_json (rs_models rs)"

definition list_models :: "router_state \<Rightarrow> json" where
  "list_models rs = list_models_handler rs"

text \<open>The age of the router in whole seconds; both clocks are in nanoseconds.\<close>

definition uptime_secs :: "int \<Rightarrow> int \<Rightarrow> u64" where
  "uptime_secs started_at instant = word_of_int ((instant - started_at) div 10 ^ 9)"

text \<open>\<open>uptime\<close> is what \<open>uptime_secs\<close> gives when the request comes.\<close>

definition health :: "u64 \<Rightarrow> router_state \<Rightarrow> json" where
  "health uptime rs =
     JObj [(''status'', JStr ''ok''), (''tunnels'', JNum (PosInt (word_of_nat (tunnel_count rs)))),
       (''uptime_secs'', JNum (PosInt uptime))]"

record nodes_list_response =
  nl_router_uptime_secs :: u64
  nl_tunnel_count :: nat
  nl_nodes :: "node_status list"

definition list_nodes_handler :: "(bytes \<Rightarrow> string) \<Rightarrow> int \<Rightarrow> int \<Rightarrow> u64 \<Rightarrow> u64 \<Rightarrow> router_state \<Rightarrow> nodes_list_response" where
  "list_nodes_handler enc now instant stale uptime rs =
     (let nodes = list_nodes enc now instant stale rs in
      \<lparr>nl_router_uptime_secs = uptime, nl_tunnel_count = length nodes, nl_nodes = nodes\<rparr>)"

section \<open>Error answers of the chat handler\<close>

text \<open>Status, body and extra headers.\<close>

fun chat_error_answer :: "chat_error \<Rightarrow> nat \<times> json \<times> (string \<times> string) list" where
  "chat_error_answer (ErrorResponse st ty msg) =
     (st, JObj [(''error'', JStr msg), (''type'', JStr ty)], [])"
| "chat_error_answer (CapacityExhausted active concurrency queued retry_after) =
     (429,
      JObj [(''error'', JStr ''model at capacity''), (''type'', JStr ''capacity_exhausted''),
        (''retry_after'', JNum (PosInt (word_of_nat retry_after))), (''active_requests'', json_u32 active),
        (''concurrency'', json_u32 concurrency), (''queued_requests'', json_u32 queued)],
      [(''retry-after'', show_nat retry_after)])"

section \<open>Properties\<close>

lemma build_router_guard:
  "build_router segs = Some (g, ep, reg) \<Longrightarrow>
    (ep = ChatCompletions \<longrightarrow> g = SessionRoute \<and> reg = POST \<and> segs = [''v1'', ''chat'', ''completions'']) \<and>
    (ep = ListNodes \<longrightarrow> g = AdminRoute \<and> segs = [''status'', ''nodes'']) \<and>
    (\<forall>nid. ep = GetNode nid \<longrightarrow> g = AdminRoute \<and> segs = [''status'', ''nodes'', nid] \<and> nid \<noteq> [])"
  by (auto simp: build_router_def consumer_routes_def admin_routes_def v1_public_def v1_protected_routes_def
      split: if_splits list.splits option.splits)

lemma require_admin_ok:
  "require_admin_token admin_token auth = Admitted \<longleftrightarrow>
    trim admin_token \<noteq> [] \<and> (\<exists>h t. auth = Some h \<and> bearer_of h = Some t \<and> trim t = trim admin_token)"
  by (cases auth) (auto simp: require_admin_token_def Let_def split: option.splits)

text \<open>C20: No path leads around a guard: the chat handler runs only for a POST on its one path with a bearer
  token of a session that the verifier answers as open, with budget left under enforcement and a
  node with a tunnel, and it runs for that session; the operator's node views run only with the
  configured admin token as bearer, and never when none is configured.\<close>

theorem no_route_around_guards:
  assumes "dispatch_request admin_token auth
      (fst (require_v1_session dec enforce fetch now has_tunnel auth v)) meth segs = Inr (ep, s)"
  shows "(ep = ChatCompletions \<longrightarrow> meth = POST \<and> segs = [''v1'', ''chat'', ''completions''] \<and>
      (\<exists>authz sid cs a. auth = Some authz \<and> parse_authorization_header dec authz = Inr sid \<and>
        fst (get_session fetch now sid v) = Inr cs \<and> is_open cs \<and> \<not> (enforce \<and> budget_exhausted cs) \<and>
        has_tunnel (cs_node_id cs) \<and> s = Some a \<and> as_session_id a = sid \<and> as_node_id a = cs_node_id cs)) \<and>
    (ep = ListNodes \<or> (\<exists>nid. ep = GetNode nid) \<longrightarrow> trim admin_token \<noteq> [] \<and>
      (\<exists>h t. auth = Some h \<and> bearer_of h = Some t \<and> trim t = trim admin_token))"
proof -
  obtain g reg where route: "build_router segs = Some (g, ep, reg)" and allowed: "method_allowed reg meth"
    using assms by (auto simp: dispatch_request_def Let_def split: option.splits guard.splits sum.splits
        admin_outcome.splits if_splits)
  note guarded = build_router_guard [OF route]
  have "meth = POST \<and> segs = [''v1'', ''chat'', ''completions''] \<and>
      (\<exists>authz sid cs a. auth = Some authz \<and> parse_authorization_header dec authz = Inr sid \<and>
        fst (get_session fetch now sid v) = Inr cs \<and> is_open cs \<and> \<not> (enforce \<and> budget_exhausted cs) \<and>
        has_tunnel (cs_node_id cs) \<and> s = Some a \<and> as_session_id a = sid \<and> as_node_id a = cs_node_id cs)"
    if "ep = ChatCompletions"
  proof -
    from that guarded have g: "g = SessionRoute" "reg = POST" "segs = [''v1'', ''chat'', ''completions'']" by auto
    with assms route obtain a where a: "fst (require_v1_session dec enforce fetch now has_tunnel auth v) = Inr a"
      "s = Some a"
      by (auto simp: dispatch_request_def Let_def split: sum.splits if_splits)
    then show ?thesis
      using g allowed by (auto simp: require_v1_session_ok method_allowed_def)
  qed
  moreover have "require_admin_token admin_token auth = Admitted" if "ep = ListNodes \<or> (\<exists>nid. ep = GetNode nid)"
  proof -
    from that guarded have "g = AdminRoute" by auto
    with assms route show ?thesis
      by (auto simp: dispatch_request_def Let_def split: admin_outcome.splits)
  qed
  ultimately show ?thesis
    by (simp add: require_admin_ok)
qed

theorem no_route_around_guards_witness:
  "dispatch_request ''secret'' (Some ''Bearer secret'')
      (fst (require_v1_session (\<lambda>_. Inl []) True (\<lambda>_. Inl []) 0 (\<lambda>_. True) (Some ''Bearer secret'') (new_verifier 12)))
      GET [''status'', ''nodes''] = Inr (ListNodes, None) \<and> trim ''secret'' \<noteq> []"
proof -
  have "trim ''secret'' = ''secret''"
    by (rule trim_graph) (simp add: graph_char_def)
  then have "dispatch_request ''secret'' (Some ''Bearer secret'') r GET [''status'', ''nodes''] = Inr (ListNodes, None)" for r
    by (simp add: dispatch_request_def build_router_def consumer_routes_def admin_routes_def require_admin_token_def
        bearer_of_def strip_prefix_def method_allowed_def)
  from no_route_around_guards [OF this] this show ?thesis by blast
qed

text \<open>The two counts an operator sees agree: the number of tunnels that the health answer reports is
  the number of nodes in the list.\<close>

lemma health_counts_listed_nodes:
  "json_get ''tunnels'' (health uptime rs) =
    Some (JNum (PosInt (word_of_nat (nl_tunnel_count (list_nodes_handler enc now instant stale uptime rs)))))"
  by (simp add: health_def list_nodes_handler_def list_nodes_def tunnel_count_def Let_def)

end
