(* ===== verification/Settlement_Key.thy ===== *)
theory Settlement_Key
  imports Chain_Session
begin

text \<open>
  The key that signs recorded usage (\<open>src/chain/record_usage_key.rs\<close>) and the switch of settlement
  (\<open>SettlementConfig::is_active\<close> of \<open>src/config.rs\<close>). The key package is a parameter: \<open>parse\<close> reads the
  text of a key, \<open>to_bytes\<close> and \<open>address_of\<close> describe one, \<open>enc\<close> is \<open>hex::encode\<close>. The key file is
  absent, one text of a key with an address, or text that does not parse; what the file system
  answers is an input (\<open>file_io\<close>). The permission bits of the file are left out.
\<close>

definition key_filename :: string where
  "key_filename = ''record-usage-key.json''"

datatype key_file = NoFile | Unreadable | StoredKey (sk_private: string) (sk_address: bytes)

record key_material =
  km_private_key_hex :: string
  km_address :: bytes
  km_generated :: bool

text \<open>\<open>Path::join\<close> with a relative second part.\<close>

definition path_join :: "string \<Rightarrow> string \<Rightarrow> string" where
  "path_join base part =
     (if base = [] then part else if List.last base = CHR ''/'' then base @ part else base @ ''/'' @ part)"

definition resolve_data_dir :: "string option \<Rightarrow> string \<Rightarrow> string" where
  "resolve_data_dir parent configured =
     (if trim configured \<noteq> [] then trim configured
      else path_join (case parent of None \<Rightarrow> ''.'' | Some p \<Rightarrow> p) ''data'')"

definition key_path :: "string \<Rightarrow> string" where
  "key_path data_dir = path_join data_dir key_filename"

definition parse_signer :: "(string \<Rightarrow> string + 'k) \<Rightarrow> string \<Rightarrow> string + 'k" where
  "parse_signer parse hex_key = with_context ''invalid secp256k1 private key hex'' (parse (trim hex_key))"

definition signer_to_hex :: "(bytes \<Rightarrow> string) \<Rightarrow> ('k \<Rightarrow> bytes) \<Rightarrow> 'k \<Rightarrow> string" where
  "signer_to_hex enc to_bytes k = ''0x'' @ enc (to_bytes k)"

definition material_of :: "('k \<Rightarrow> string) \<Rightarrow> ('k \<Rightarrow> bytes) \<Rightarrow> bool \<Rightarrow> 'k \<Rightarrow> key_material" where
  "material_of to_hex address_of generated k =
     \<lparr>km_private_key_hex = to_hex k, km_address = address_of k, km_generated = generated\<rparr>"

text \<open>A write that fails leaves the file in some state: what was there, nothing, or a part of the new
  text.\<close>

datatype write_result = Written | WriteFailed string key_file

record file_io =
  io_create_dir :: "string + unit"
  io_read :: "string + unit"
  io_write :: write_result

definition persist_key_file :: "file_io \<Rightarrow> key_material \<Rightarrow> (string + unit) \<times> key_file" where
  "persist_key_file io m =
     (case io_write io of
        Written \<Rightarrow> (Inr (), StoredKey (km_private_key_hex m) (km_address m))
      | WriteFailed e left \<Rightarrow> (Inl ''failed to write record-usage-key.json'', left))"

text \<open>\<open>fresh\<close> is the key that the generator would draw.\<close>

definition load_or_generate ::
  "(string \<Rightarrow> string + 'k) \<Rightarrow> (bytes \<Rightarrow> string) \<Rightarrow> ('k \<Rightarrow> bytes) \<Rightarrow> ('k \<Rightarrow> bytes) \<Rightarrow> 'k \<Rightarrow> file_io \<Rightarrow> string \<Rightarrow>
   key_file \<Rightarrow> (string + key_material) \<times> key_file" where
  "load_or_generate parse enc to_bytes address_of fresh io config_inline_key file =
     (let to_hex = signer_to_hex enc to_bytes;
          persist = (\<lambda>m. case persist_key_file io m of (r, file') \<Rightarrow> (map_sum id (\<lambda>_. m) r, file')) in
      case io_create_dir io of
        Inl e \<Rightarrow> (Inl ''failed to create router data dir'', file)
      | Inr _ \<Rightarrow>
          if trim config_inline_key \<noteq> [] then
            (case parse_signer parse (trim config_inline_key) of
               Inl e \<Rightarrow> (Inl e, file)
             | Inr k \<Rightarrow> persist (material_of to_hex address_of False k))
          else if file \<noteq> NoFile then
            (case io_read io of
               Inl e \<Rightarrow> (Inl ''failed to read record-usage-key.json'', file)
             | Inr _ \<Rightarrow>
                 (case file of
                    StoredKey private_key address \<Rightarrow>
                      (map_sum id (material_of to_hex address_of False) (parse_signer parse private_key), file)
                  | _ \<Rightarrow> (Inl ''invalid record-usage-key.json'', file)))
          else persist (material_of to_hex address_of True fresh))"

lemma load_or_generate_ok:
  assumes "load_or_generate parse enc to_bytes address_of fresh io key file = (Inr m, file')"
  obtains (stored) pk a k where "file' = StoredKey pk a" "file = StoredKey pk a" "parse (trim pk) = Inr k"
      "m = material_of (signer_to_hex enc to_bytes) address_of False k"
    | (persisted) g k where "m = material_of (signer_to_hex enc to_bytes) address_of g k"
      "file' = StoredKey (signer_to_hex enc to_bytes k) (address_of k)"
  using assms
  by (auto simp: load_or_generate_def parse_signer_def persist_key_file_def with_context_def Let_def map_sum_def
      material_of_def split: if_splits sum.splits key_file.splits prod.splits write_result.splits)

lemma working_directory:
  assumes "io_create_dir io = Inr ()" "io_read io = Inr ()" "trim key = []"
  shows "load_or_generate parse enc to_bytes address_of fresh io key (StoredKey pk a) =
      (map_sum id (material_of (signer_to_hex enc to_bytes) address_of False) (parse_signer parse pk), StoredKey pk a)"
    "load_or_generate parse enc to_bytes address_of fresh io key Unreadable =
      (Inl ''invalid record-usage-key.json'', Unreadable)"
  using assms by (simp_all add: load_or_generate_def Let_def)

text \<open>A restart keeps the key: once a key was loaded or generated, the next start on a working file system
  and without a configured key gets the same key and address from the file, and does not generate another.\<close>

theorem key_survives_restart:
  assumes "\<And>k. parse (trim (signer_to_hex enc to_bytes k)) = Inr k"
    and "load_or_generate parse enc to_bytes address_of fresh io key file = (Inr m, file')"
    and "io_create_dir io2 = Inr ()" "io_read io2 = Inr ()" "trim key2 = []"
  shows "\<exists>m'. load_or_generate parse enc to_bytes address_of fresh2 io2 key2 file' = (Inr m', file') \<and>
    km_private_key_hex m' = km_private_key_hex m \<and> km_address m' = km_address m \<and> \<not> km_generated m'"
  using assms(2)
proof (cases rule: load_or_generate_ok)
  case (stored pk a k)
  then show ?thesis
    by (simp add: working_directory(1) [OF assms(3-5)] parse_signer_def with_context_def material_of_def)
next
  case (persisted g k)
  then show ?thesis
    by (simp add: working_directory(1) [OF assms(3-5)] assms(1) parse_signer_def with_context_def material_of_def)
qed

definition working_io :: file_io where
  "working_io = \<lparr>io_create_dir = Inr (), io_read = Inr (), io_write = Written\<rparr>"

lemma trim_Nil [simp]: "trim [] = []"
  by (simp add: trim_def trim_start_def trim_end_def trim_with_id ws_tokens_def)

theorem key_survives_restart_witness:
  "\<exists>m'. load_or_generate (\<lambda>s. Inr ()) (\<lambda>_. ''k'') (\<lambda>_. []) (\<lambda>_. [1]) () working_io [] (StoredKey ''0xk'' [1]) =
      (Inr m', StoredKey ''0xk'' [1]) \<and> \<not> km_generated m'"
  using key_survives_restart [of "\<lambda>s. Inr ()" "\<lambda>_. ''k''" "\<lambda>_. []" "\<lambda>_. [1]" "()" working_io "[]" NoFile
      "material_of (signer_to_hex (\<lambda>_. ''k'') (\<lambda>_. [])) (\<lambda>_. [1]) True ()" "StoredKey ''0xk'' [1]" working_io "[]" "()"]
  by (auto simp: load_or_generate_def material_of_def persist_key_file_def signer_to_hex_def working_io_def)

text \<open>The file is written in place: when the write breaks off, the start fails, and so does every later
  start without a configured key, although no key was ever in use.\<close>

lemma interrupted_write_blocks_start:
  assumes "io_create_dir io = Inr ()" "io_write io = WriteFailed e Unreadable" "trim key = []"
  shows "load_or_generate parse enc to_bytes address_of fresh io key NoFile =
      (Inl ''failed to write record-usage-key.json'', Unreadable)"
    "\<exists>e2. load_or_generate parse enc to_bytes address_of fresh2 io2 key Unreadable = (Inl e2, Unreadable)"
  using assms by (auto simp: load_or_generate_def persist_key_file_def Let_def split: sum.splits)

section \<open>The role on the chain\<close>

datatype role_action = RoleOk | RoleUnknown | RoleMismatch | RoleSubmitted | RoleError string

text \<open>A transaction is sent and then watched until it is confirmed; both may fail.\<close>

definition submit :: "string \<Rightarrow> string \<Rightarrow> string + (string + unit) \<Rightarrow> string + unit" where
  "submit send_failed confirmation_failed sent =
     bind_sum (with_context send_failed sent) (with_context confirmation_failed)"

text \<open>The configured texts are read as an address, an endpoint and the owner's key. \<open>role_of\<close> is the
  role that the contract reports, \<open>set_role\<close> what sending the change and then watching it give.\<close>

definition ensure_record_usage_role ::
  "(string \<Rightarrow> string + bytes) \<Rightarrow> (string \<Rightarrow> string + 'url) \<Rightarrow> (string \<Rightarrow> string + 'k) \<Rightarrow> string \<Rightarrow> string \<Rightarrow>
   bytes \<Rightarrow> string \<Rightarrow> ('url \<Rightarrow> bytes \<Rightarrow> string + bytes) \<Rightarrow>
   ('url \<Rightarrow> bytes \<Rightarrow> 'k \<Rightarrow> bytes \<Rightarrow> string + (string + unit)) \<Rightarrow> role_action" where
  "ensure_record_usage_role parse_address parse_url parse escrow_contract rpc_url role owner_key
     role_of set_role =
     (case with_context ''invalid escrow_contract'' (parse_address (trim escrow_contract)) of
        Inl e \<Rightarrow> RoleError e
      | Inr escrow \<Rightarrow>
          if escrow = zero_address then RoleOk
          else
            (case with_context ''invalid rpc_url'' (parse_url (trim rpc_url)) of
               Inl e \<Rightarrow> RoleError e
             | Inr url \<Rightarrow>
                 (case role_of url escrow of
                    Inl e \<Rightarrow> RoleUnknown
                  | Inr current \<Rightarrow>
                      if current = role then RoleOk
                      else if trim owner_key = [] then RoleMismatch
                      else
                        (case parse_signer parse (trim owner_key) of
                           Inl e \<Rightarrow> RoleError e
                         | Inr owner \<Rightarrow>
                             (case submit ''setRecordUsage send failed'' ''setRecordUsage confirmation failed''
                                     (set_role url escrow owner role) of
                                Inl e \<Rightarrow> RoleError e
                              | Inr u \<Rightarrow> RoleSubmitted)))))"

definition min_balance_wei :: nat where
  "min_balance_wei = 10 ^ 16"

definition top_up_wei :: nat where
  "top_up_wei = 10 ^ 17"

text \<open>\<open>balance\<close> is the balance of the signing address, \<open>send\<close> what a transfer signed by the owner and
  its confirmation give.\<close>

definition ensure_gas_funded ::
  "(string \<Rightarrow> string + 'url) \<Rightarrow> (string \<Rightarrow> string + 'k) \<Rightarrow> string \<Rightarrow> bytes \<Rightarrow> string \<Rightarrow>
   ('url \<Rightarrow> bytes \<Rightarrow> string + nat) \<Rightarrow> ('url \<Rightarrow> 'k \<Rightarrow> bytes \<Rightarrow> nat \<Rightarrow> string + (string + unit)) \<Rightarrow>
   string + nat option" where
  "ensure_gas_funded parse_url parse rpc_url role owner_key balance send =
     bind_sum (with_context ''invalid rpc_url'' (parse_url (trim rpc_url))) (\<lambda>url.
     bind_sum (with_context ''recordUsageRole balance eth_call failed'' (balance url role)) (\<lambda>held.
       if min_balance_wei \<le> held then Inr None
       else if trim owner_key = [] then Inr None
       else
         bind_sum (parse_signer parse (trim owner_key)) (\<lambda>owner.
           map_sum id (\<lambda>_. Some top_up_wei)
             (submit ''recordUsageRole gas top-up send failed'' ''recordUsageRole gas top-up confirmation failed''
                (send url owner role top_up_wei)))))"

text \<open>The whole start. \<open>load\<close> is \<open>load_or_generate\<close> on the key file, \<open>role\<close> and \<open>gas\<close> are the two steps
  on the chain as functions of the address of the key; the second runs only when the first does not
  fail.\<close>

definition bootstrap ::
  "(key_file \<Rightarrow> (string + key_material) \<times> key_file) \<Rightarrow> (bytes \<Rightarrow> role_action) \<Rightarrow>
   (bytes \<Rightarrow> string + nat option) \<Rightarrow> bool \<Rightarrow> bool \<Rightarrow> key_file \<Rightarrow> (string + key_material) \<times> key_file" where
  "bootstrap load role gas chain_enabled register_on_chain file =
     (if \<not> chain_enabled then (Inl ''chain bootstrap requires chain.enabled = true'', file)
      else (case load file of
        (Inl e, file') \<Rightarrow> (Inl e, file')
      | (Inr m, file') \<Rightarrow>
          if \<not> register_on_chain then (Inr m, file')
          else
            (case role (km_address m) of
               RoleError e \<Rightarrow> (Inl e, file')
             | _ \<Rightarrow> (case gas (km_address m) of Inl e \<Rightarrow> (Inl e, file') | Inr sent \<Rightarrow> (Inr m, file')))))"

definition is_active :: "bool \<Rightarrow> bool \<Rightarrow> string \<Rightarrow> bool \<Rightarrow> bool" where
  "is_active enabled record_usage_enabled private_key chain_enabled \<longleftrightarrow>
     chain_enabled \<and> enabled \<and> record_usage_enabled \<and> trim private_key \<noteq> []"

end
