(* ===== verification/Chain_Watcher.thy ===== *)
theory Chain_Watcher
  imports Usage_Batch
begin

text \<open>
  The poll of escrow events (\<open>src/chain/watcher.rs\<close>). The verifier is shared with the usage batcher,
  so it is the \<open>bt_chain\<close> of the state; \<open>has_batcher\<close> says whether settlement is active. What one
  poll sees of the chain is a record; a session id of an event is any 256-bit number, and turning
  it into \<open>u64\<close> panics above that range, which ends the watcher task.
\<close>

record poll_env =
  pe_head :: "string + u64"
  pe_escrow :: "string + bytes"
  pe_opened :: "string + nat list"
  pe_released :: "string + nat list"
  pe_fetch :: session_fetch
  pe_now :: int

datatype poll_result = PollOk | PollErr string | PollPanic

definition to_u64 :: "nat \<Rightarrow> u64 option" where
  "to_u64 n = (if n < 2 ^ 64 then Some (word_of_nat n) else None)"

text \<open>Whether the watcher is started at all: \<open>escrow\<close> is the configured contract, read as an address.\<close>

definition watcher_starts :: "(string \<Rightarrow> string + bytes) \<Rightarrow> bool \<Rightarrow> string \<Rightarrow> bool" where
  "watcher_starts parse_address chain_enabled escrow \<longleftrightarrow>
     chain_enabled \<and> parse_address (trim escrow) \<noteq> Inr zero_address"

fun warm_opened :: "poll_env \<Rightarrow> nat list \<Rightarrow> usage_batcher \<Rightarrow> usage_batcher \<times> bool" where
  "warm_opened E [] b = (b, True)"
| "warm_opened E (n # ns) b =
     (case to_u64 n of
        None \<Rightarrow> (b, False)
      | Some sid \<Rightarrow>
          warm_opened E ns (b\<lparr>bt_chain := warm_session (pe_fetch E) (pe_now E) sid (bt_chain b)\<rparr>))"

definition release_session ::
  "usage_config \<Rightarrow> bool \<Rightarrow> poll_env \<Rightarrow> u64 \<Rightarrow> usage_batcher \<Rightarrow> usage_batcher" where
  "release_session cfg has_batcher E sid b =
     (let b1 = (if has_batcher
                then remove_session cfg (pe_fetch E) (pe_now E) sid (force_flush cfg (pe_fetch E) (pe_now E) sid b)
                else b) in
      b1\<lparr>bt_chain := evict_session sid (bt_chain b1)\<rparr>)"

fun release_all :: "usage_config \<Rightarrow> bool \<Rightarrow> poll_env \<Rightarrow> nat list \<Rightarrow> usage_batcher \<Rightarrow> usage_batcher \<times> bool" where
  "release_all cfg has_batcher E [] b = (b, True)"
| "release_all cfg has_batcher E (n # ns) b =
     (case to_u64 n of
        None \<Rightarrow> (b, False)
      | Some sid \<Rightarrow> release_all cfg has_batcher E ns (release_session cfg has_batcher E sid b))"

definition first_block :: "u64 \<Rightarrow> u64 \<Rightarrow> u64" where
  "first_block last_block head = (if last_block = 0 then sat_sub head 1 else last_block)"

text \<open>The new last block, the state, and the result; events are those of blocks \<open>first_block + 1\<close> to
  \<open>head\<close>.\<close>

definition poll_once ::
  "usage_config \<Rightarrow> bool \<Rightarrow> poll_env \<Rightarrow> u64 \<Rightarrow> usage_batcher \<Rightarrow> (u64 \<times> usage_batcher) \<times> poll_result" where
  "poll_once cfg has_batcher E last_block b =
     (case pe_head E of
        Inl e \<Rightarrow> ((last_block, b), PollErr e)
      | Inr head \<Rightarrow>
          (let last = first_block last_block head; from_block = last + 1 in
           if head < from_block then ((last, b), PollOk)
           else
             (case bind_sum (pe_escrow E) (\<lambda>_. pe_opened E) of
                Inl e \<Rightarrow> ((last, b), PollErr e)
              | Inr opened \<Rightarrow>
                  (let (b1, ok1) = warm_opened E opened b in
                   if \<not> ok1 then ((last, b1), PollPanic)
                   else
                     (case pe_released E of
                        Inl e \<Rightarrow> ((last, b1), PollErr e)
                      | Inr released \<Rightarrow>
                          (let (b2, ok2) = release_all cfg has_batcher E released b1 in
                           if \<not> ok2 then ((last, b2), PollPanic)
                           else ((head, b2), PollOk)))))))"

text \<open>The task: poll after poll, each six seconds after the one before, from block 0 on. Errors are
  logged and the next poll goes on; a panic ends the task.\<close>

fun watch_loop ::
  "usage_config \<Rightarrow> bool \<Rightarrow> poll_env list \<Rightarrow> u64 \<Rightarrow> usage_batcher \<Rightarrow> (u64 \<times> usage_batcher) \<times> bool" where
  "watch_loop cfg has_batcher [] last_block b = ((last_block, b), True)"
| "watch_loop cfg has_batcher (E # Es) last_block b =
     (let ((l, b'), r) = poll_once cfg has_batcher E last_block b in
      if r = PollPanic then ((l, b'), False) else watch_loop cfg has_batcher Es l b')"

definition spawn_chain_watcher ::
  "(string \<Rightarrow> string + bytes) \<Rightarrow> bool \<Rightarrow> string \<Rightarrow> usage_config \<Rightarrow> bool \<Rightarrow> poll_env list \<Rightarrow> usage_batcher \<Rightarrow>
   usage_batcher" where
  "spawn_chain_watcher parse_address chain_enabled escrow cfg has_batcher Es b =
     (if watcher_starts parse_address chain_enabled escrow then snd (fst (watch_loop cfg has_batcher Es 0 b)) else b)"

section \<open>Which blocks are scanned\<close>

text \<open>The range of blocks that a poll completes, if it completes one.\<close>

definition scanned :: "u64 \<Rightarrow> poll_env \<Rightarrow> poll_result \<Rightarrow> (nat \<times> nat) list" where
  "scanned last_block E r =
     (case pe_head E of
        Inr head \<Rightarrow>
          if r = PollOk \<and> \<not> head < first_block last_block head + 1
          then [(unat (first_block last_block head) + 1, unat head)] else []
      | Inl e \<Rightarrow> [])"

fun scan_ranges ::
  "usage_config \<Rightarrow> bool \<Rightarrow> poll_env list \<Rightarrow> u64 \<Rightarrow> usage_batcher \<Rightarrow> (nat \<times> nat) list" where
  "scan_ranges cfg hb [] last_block b = []"
| "scan_ranges cfg hb (E # Es) last_block b =
     (let ((l, b'), r) = poll_once cfg hb E last_block b in
      scanned last_block E r @ (if r = PollPanic then [] else scan_ranges cfg hb Es l b'))"

fun contiguous :: "nat \<Rightarrow> (nat \<times> nat) list \<Rightarrow> bool" where
  "contiguous n [] = True"
| "contiguous n ((a, b) # rs) = (a = n \<and> a \<le> b \<and> contiguous (b + 1) rs)"

lemma poll_once_last:
  assumes "poll_once cfg hb E last_block b = ((l, b'), r)" "pe_head E = Inr head"
  shows "l = (if scanned last_block E r \<noteq> [] then head else first_block last_block head)"
  using assms
  by (auto simp: poll_once_def scanned_def bind_sum_def Let_def split: sum.splits prod.splits if_splits)

lemma poll_once_no_head:
  "pe_head E = Inl e \<Longrightarrow> poll_once cfg hb E last_block b = ((last_block, b), PollErr e)"
  by (simp add: poll_once_def)

lemma scan_from:
  assumes "last_block \<noteq> 0" "\<forall>E \<in> set Es. \<forall>h. pe_head E = Inr h \<longrightarrow> unat h < 2 ^ 64 - 1"
    "unat last_block < 2 ^ 64 - 1"
  shows "contiguous (unat last_block + 1) (scan_ranges cfg hb Es last_block b)"
  using assms
proof (induction Es arbitrary: last_block b)
  case (Cons E Es)
  obtain l b' r where p: "poll_once cfg hb E last_block b = ((l, b'), r)"
    by (metis prod.exhaust)
  show ?case
  proof (cases "pe_head E")
    case (Inl e)
    then show ?thesis
      using Cons p by (simp add: poll_once_no_head scanned_def)
  next
    case (Inr head)
    have fb: "first_block last_block head = last_block"
      using Cons.prems(1) by (simp add: first_block_def)
    have plus: "unat (last_block + 1) = unat last_block + 1"
      using Cons.prems(3) by (subst unat_add_lem [THEN iffD1]) simp_all
    show ?thesis
    proof (cases "scanned last_block E r = []")
      case True
      then have "l = last_block"
        using poll_once_last [OF p Inr] fb by simp
      then show ?thesis
        using True p Cons.IH [of last_block b'] Cons.prems by simp
    next
      case False
      then have sc: "scanned last_block E r = [(unat last_block + 1, unat head)]" "r = PollOk"
        "unat last_block + 1 \<le> unat head"
        using Inr fb plus by (auto simp: scanned_def word_less_nat_alt split: if_splits)
      have l: "l = head"
        using poll_once_last [OF p Inr] False by simp
      have "head \<noteq> 0" using sc(3) by auto
      then show ?thesis
        using sc l p Cons.IH [of head b'] Cons.prems(2) Inr by simp
    qed
  qed
qed simp



section \<open>Released sessions\<close>

lemma batch_tokens_None [simp]: "batch_tokens None = 0"
  by (simp add: batch_tokens_def)

text \<open>C37: When the escrow of a session is released, everything its batch held has been handed to
  submission, the batch is gone and the session is no longer answered from the cache.\<close>

theorem released_session_settled:
  assumes "b' = release_session cfg True E sid b"
  shows "batch_of b' sid = None \<and> cached_entry (bt_chain b') sid = None \<and>
    submitted sid b' = batch_tokens (batch_of b sid) + submitted sid b"
proof -
  let ?b = "force_flush cfg (pe_fetch E) (pe_now E) sid b"
  have "batch_tokens (batch_of ?b sid) + submitted sid ?b = batch_tokens (batch_of b sid) + submitted sid b"
    unfolding force_flush_def by (rule flush_ledger)
  then show ?thesis
    using assms remove_session_accounts [of cfg "pe_fetch E" "pe_now E" sid ?b]
    by (simp add: release_session_def Let_def cache.table_laws)
qed

theorem released_session_settled_witness:
  "batch_of (release_session sample_cfg True
     \<lparr>pe_head = Inr 50, pe_escrow = Inr [5], pe_opened = Inr [], pe_released = Inr [7], pe_fetch = \<lambda>_. Inl ''down'', pe_now = 0\<rparr> 7
     (put_batch 7 (new_batch 0 0 0) (new_batcher (new_verifier 12)))) 7 = None"
  using released_session_settled [OF refl] by blast

end
