(* ===== verification/Router_Config.thy ===== *)
theory Router_Config
  imports Chat_Service Settlement_Key Chain_Watcher "HOL-Library.Monad_Syntax"
begin

text \<open>
  The configuration (\<open>src/config.rs\<close>): its sections with the defaults of the fields that may be
  left out, reading it, and how the configured values become the arguments of the components. What
  the configuration package builds from the file and the environment is a tree of an abstract type
  \<open>'v\<close>; how that package reads a node as a table, text, number or switch is the record \<open>'v readers\<close>.
\<close>

section \<open>Sections\<close>

record server_config =
  sc_bind :: string
  sc_router_url :: string
  sc_upstream_timeout_secs :: u64

record chain_config =
  cc_rpc_url :: string
  cc_registry_contract :: string
  cc_escrow_contract :: string
  cc_session_cache_ttl_secs :: u64
  cc_enabled :: bool

record node_auth_config =
  na_ping_interval_secs :: u64
  na_pong_timeout_secs :: u64

record portal_config =
  pc_admin_token :: string
  pc_stale_threshold_secs :: u64
  pc_models_refresh_on_pong_secs :: u64

record capacity_config =
  qc_queue_depth_ratio :: f64
  qc_queue_wait_timeout_secs :: u64

record settlement_config =
  se_data_dir :: string
  se_enabled :: bool
  se_record_usage_private_key :: string
  se_registry_owner_private_key :: string
  se_record_usage_enabled :: bool
  se_record_usage_token_chunk :: u64
  se_record_usage_flush_interval_secs :: u64
  se_enforce_session_budget :: bool

record config =
  cf_server :: server_config
  cf_chain :: chain_config
  cf_node_auth :: node_auth_config
  cf_metrics_bind :: string
  cf_portal :: portal_config
  cf_capacity :: capacity_config
  cf_settlement :: settlement_config

section \<open>Defaults\<close>

definition default_router_url :: string where
  "default_router_url = ''http://127.0.0.1:3001''"

definition default_upstream_timeout_secs :: u64 where
  "default_upstream_timeout_secs = 120"

definition default_session_cache_ttl :: u64 where
  "default_session_cache_ttl = 12"

definition default_ping_interval :: u64 where
  "default_ping_interval = 30"

definition default_pong_timeout :: u64 where
  "default_pong_timeout = 10"

definition default_stale_threshold :: u64 where
  "default_stale_threshold = 40"

definition default_models_refresh_on_pong :: u64 where
  "default_models_refresh_on_pong = 60"

definition default_queue_depth_ratio :: f64 where
  "default_queue_depth_ratio = Finite 1"

definition default_queue_wait_timeout_secs :: u64 where
  "default_queue_wait_timeout_secs = 60"

definition default_capacity_config :: capacity_config where
  "default_capacity_config =
     \<lparr>qc_queue_depth_ratio = default_queue_depth_ratio,
      qc_queue_wait_timeout_secs = default_queue_wait_timeout_secs\<rparr>"

definition default_record_usage_token_chunk :: u64 where
  "default_record_usage_token_chunk = 10000"

definition default_record_usage_flush_interval_secs :: u64 where
  "default_record_usage_flush_interval_secs = 60"

definition default_settlement_config :: settlement_config where
  "default_settlement_config =
     \<lparr>se_data_dir = [], se_enabled = False, se_record_usage_private_key = [],
      se_registry_owner_private_key = [], se_record_usage_enabled = True,
      se_record_usage_token_chunk = default_record_usage_token_chunk,
      se_record_usage_flush_interval_secs = default_record_usage_flush_interval_secs,
      se_enforce_session_budget = True\<rparr>"

section \<open>Reading\<close>

record 'v readers =
  rd_table :: "'v \<Rightarrow> (string \<Rightarrow> 'v option) option"
  rd_string :: "'v \<Rightarrow> string option"
  rd_u64 :: "'v \<Rightarrow> u64 option"
  rd_bool :: "'v \<Rightarrow> bool option"
  rd_f64 :: "'v \<Rightarrow> f64 option"

text \<open>A field that has to be there, and one with a default. A field that is there but cannot be read
  is an error either way.\<close>

definition required :: "('v \<Rightarrow> 'a option) \<Rightarrow> string \<Rightarrow> (string \<Rightarrow> 'v option) \<Rightarrow> 'a option" where
  "required read k tbl = Option.bind (tbl k) read"

definition defaulted :: "'a \<Rightarrow> ('v \<Rightarrow> 'a option) \<Rightarrow> string \<Rightarrow> (string \<Rightarrow> 'v option) \<Rightarrow> 'a option" where
  "defaulted d read k tbl = (case tbl k of None \<Rightarrow> Some d | Some v \<Rightarrow> read v)"

definition read_server :: "'v readers \<Rightarrow> 'v \<Rightarrow> server_config option" where
  "read_server R v = do {
     t \<leftarrow> rd_table R v;
     bind \<leftarrow> required (rd_string R) ''bind'' t;
     url \<leftarrow> defaulted default_router_url (rd_string R) ''router_url'' t;
     upstream \<leftarrow> defaulted default_upstream_timeout_secs (rd_u64 R) ''upstream_timeout_secs'' t;
     Some \<lparr>sc_bind = bind, sc_router_url = url, sc_upstream_timeout_secs = upstream\<rparr>}"

definition read_chain :: "'v readers \<Rightarrow> 'v \<Rightarrow> chain_config option" where
  "read_chain R v = do {
     t \<leftarrow> rd_table R v;
     rpc \<leftarrow> required (rd_string R) ''rpc_url'' t;
     reg \<leftarrow> required (rd_string R) ''registry_contract'' t;
     escrow \<leftarrow> required (rd_string R) ''escrow_contract'' t;
     ttl \<leftarrow> defaulted default_session_cache_ttl (rd_u64 R) ''session_cache_ttl_secs'' t;
     enabled \<leftarrow> defaulted True (rd_bool R) ''enabled'' t;
     Some \<lparr>cc_rpc_url = rpc, cc_registry_contract = reg, cc_escrow_contract = escrow,
           cc_session_cache_ttl_secs = ttl, cc_enabled = enabled\<rparr>}"

definition read_node_auth :: "'v readers \<Rightarrow> 'v \<Rightarrow> node_auth_config option" where
  "read_node_auth R v = do {
     t \<leftarrow> rd_table R v;
     ping \<leftarrow> defaulted default_ping_interval (rd_u64 R) ''ping_interval_secs'' t;
     pong \<leftarrow> defaulted default_pong_timeout (rd_u64 R) ''pong_timeout_secs'' t;
     Some \<lparr>na_ping_interval_secs = ping, na_pong_timeout_secs = pong\<rparr>}"

definition read_metrics :: "'v readers \<Rightarrow> 'v \<Rightarrow> string option" where
  "read_metrics R v = do { t \<leftarrow> rd_table R v; required (rd_string R) ''bind'' t }"

definition read_portal :: "'v readers \<Rightarrow> 'v \<Rightarrow> portal_config option" where
  "read_portal R v = do {
     t \<leftarrow> rd_table R v;
     token \<leftarrow> required (rd_string R) ''admin_token'' t;
     stale \<leftarrow> defaulted default_stale_threshold (rd_u64 R) ''stale_threshold_secs'' t;
     refresh \<leftarrow> defaulted default_models_refresh_on_pong (rd_u64 R) ''models_refresh_on_pong_secs'' t;
     Some \<lparr>pc_admin_token = token, pc_stale_threshold_secs = stale, pc_models_refresh_on_pong_secs = refresh\<rparr>}"

definition read_capacity :: "'v readers \<Rightarrow> 'v \<Rightarrow> capacity_config option" where
  "read_capacity R v = do {
     t \<leftarrow> rd_table R v;
     ratio \<leftarrow> defaulted default_queue_depth_ratio (rd_f64 R) ''queue_depth_ratio'' t;
     wait \<leftarrow> defaulted default_queue_wait_timeout_secs (rd_u64 R) ''queue_wait_timeout_secs'' t;
     Some \<lparr>qc_queue_depth_ratio = ratio, qc_queue_wait_timeout_secs = wait\<rparr>}"

definition read_settlement :: "'v readers \<Rightarrow> 'v \<Rightarrow> settlement_config option" where
  "read_settlement R v = do {
     t \<leftarrow> rd_table R v;
     dir \<leftarrow> defaulted [] (rd_string R) ''data_dir'' t;
     enabled \<leftarrow> defaulted False (rd_bool R) ''enabled'' t;
     key \<leftarrow> defaulted [] (rd_string R) ''record_usage_private_key'' t;
     owner \<leftarrow> defaulted [] (rd_string R) ''registry_owner_private_key'' t;
     usage \<leftarrow> defaulted True (rd_bool R) ''record_usage_enabled'' t;
     chunk \<leftarrow> defaulted default_record_usage_token_chunk (rd_u64 R) ''record_usage_token_chunk'' t;
     flush \<leftarrow> defaulted default_record_usage_flush_interval_secs (rd_u64 R) ''record_usage_flush_interval_secs'' t;
     budget \<leftarrow> defaulted True (rd_bool R) ''enforce_session_budget'' t;
     Some \<lparr>se_data_dir = dir, se_enabled = enabled, se_record_usage_private_key = key,
           se_registry_owner_private_key = owner, se_record_usage_enabled = usage,
           se_record_usage_token_chunk = chunk, se_record_usage_flush_interval_secs = flush,
           se_enforce_session_budget = budget\<rparr>}"

definition read_config :: "'v readers \<Rightarrow> 'v \<Rightarrow> config option" where
  "read_config R v = do {
     t \<leftarrow> rd_table R v;
     server \<leftarrow> required (read_server R) ''server'' t;
     chain \<leftarrow> required (read_chain R) ''chain'' t;
     auth \<leftarrow> required (read_node_auth R) ''node_auth'' t;
     metrics \<leftarrow> required (read_metrics R) ''metrics'' t;
     portal \<leftarrow> required (read_portal R) ''portal'' t;
     cap \<leftarrow> defaulted default_capacity_config (read_capacity R) ''capacity'' t;
     settle \<leftarrow> defaulted default_settlement_config (read_settlement R) ''settlement'' t;
     Some \<lparr>cf_server = server, cf_chain = chain, cf_node_auth = auth, cf_metrics_bind = metrics,
           cf_portal = portal, cf_capacity = cap, cf_settlement = settle\<rparr>}"

text \<open>\<open>build\<close> is what the package makes of the file at a path and the environment.\<close>

definition load_config :: "'v readers \<Rightarrow> (string \<Rightarrow> string + 'v) \<Rightarrow> string \<Rightarrow> string + config" where
  "load_config R build path =
     bind_sum (with_context ''failed to load config'' (build path)) (\<lambda>v.
       case read_config R v of None \<Rightarrow> Inl ''failed to deserialize config'' | Some c \<Rightarrow> Inr c)"

section \<open>Configured values as the components take them\<close>

definition upstream_timeout :: "config \<Rightarrow> int" where
  "upstream_timeout c = secs (max (sc_upstream_timeout_secs (cf_server c)) 1)"

definition queue_wait_timeout :: "config \<Rightarrow> int" where
  "queue_wait_timeout c = secs (max (qc_queue_wait_timeout_secs (cf_capacity c)) 1)"

text \<open>How often the batches are swept: the flush interval, but between five and ten seconds.\<close>

definition sweep_period :: "u64 \<Rightarrow> int" where
  "sweep_period flush_interval_secs = secs (max (min (max flush_interval_secs 1) 10) 5)"

definition router_config_of :: "config \<Rightarrow> router_config" where
  "router_config_of c =
     \<lparr>rc_chain_enabled = cc_enabled (cf_chain c), rc_stale = pc_stale_threshold_secs (cf_portal c),
      rc_refresh = pc_models_refresh_on_pong_secs (cf_portal c),
      rc_ping = na_ping_interval_secs (cf_node_auth c), rc_pong = na_pong_timeout_secs (cf_node_auth c)\<rparr>"

definition usage_config_of :: "config \<Rightarrow> usage_config" where
  "usage_config_of c =
     \<lparr>uc_token_chunk = se_record_usage_token_chunk (cf_settlement c),
      uc_flush_interval_secs = se_record_usage_flush_interval_secs (cf_settlement c)\<rparr>"

text \<open>\<open>K\<close> brings the packages; what is configured replaces its other fields.\<close>

definition chat_config_of :: "config \<Rightarrow> bool \<Rightarrow> chat_config \<Rightarrow> chat_config" where
  "chat_config_of c has_batcher K =
     K\<lparr>kc_router := router_config_of c, kc_usage := usage_config_of c,
       kc_ratio := qc_queue_depth_ratio (cf_capacity c),
       kc_enforce_budget := se_enforce_session_budget (cf_settlement c), kc_has_batcher := has_batcher\<rparr>"

section \<open>Properties\<close>

text \<open>The two ways of leaving a section out agree: a configuration without the capacity or settlement
  section reads as one whose section is there and empty, although the first takes the hand-written
  \<open>Default\<close> instances and the second the defaults of the fields.\<close>

theorem absent_section_reads_as_empty:
  assumes "rd_table R v = Some t" "rd_table R w = Some (t(''capacity'' \<mapsto> e, ''settlement'' \<mapsto> e))"
    and "rd_table R e = Some (\<lambda>_. None)" "t ''capacity'' = None" "t ''settlement'' = None"
  shows "read_config R v = read_config R w"
proof -
  have "read_capacity R e = Some default_capacity_config" "read_settlement R e = Some default_settlement_config"
    by (simp_all add: read_capacity_def read_settlement_def defaulted_def assms(3) default_capacity_config_def
        default_settlement_config_def)
  then show ?thesis
    by (simp add: read_config_def assms required_def defaulted_def)
qed

text \<open>A configuration with nothing but the required fields, read from JSON.\<close>

definition json_readers :: "json readers" where
  "json_readers =
     \<lparr>rd_table = (\<lambda>v. map_option map_of (as_object v)), rd_string = as_str, rd_u64 = as_u64,
      rd_bool = as_bool, rd_f64 = (\<lambda>_. None)\<rparr>"

definition sample_members :: "(string \<times> json) list" where
  "sample_members =
     [(''server'', JObj [(''bind'', JStr ''127.0.0.1:3001'')]),
      (''chain'', JObj [(''rpc_url'', JStr ''http://rpc''), (''registry_contract'', JStr ''0x1''),
        (''escrow_contract'', JStr ''0x2'')]),
      (''node_auth'', JObj []), (''metrics'', JObj [(''bind'', JStr ''127.0.0.1:9091'')]),
      (''portal'', JObj [(''admin_token'', JStr ''secret'')])]"

definition sample_loaded :: config where
  "sample_loaded =
     \<lparr>cf_server = \<lparr>sc_bind = ''127.0.0.1:3001'', sc_router_url = default_router_url,
        sc_upstream_timeout_secs = default_upstream_timeout_secs\<rparr>,
      cf_chain = \<lparr>cc_rpc_url = ''http://rpc'', cc_registry_contract = ''0x1'', cc_escrow_contract = ''0x2'',
        cc_session_cache_ttl_secs = default_session_cache_ttl, cc_enabled = True\<rparr>,
      cf_node_auth = \<lparr>na_ping_interval_secs = default_ping_interval,
        na_pong_timeout_secs = default_pong_timeout\<rparr>,
      cf_metrics_bind = ''127.0.0.1:9091'',
      cf_portal = \<lparr>pc_admin_token = ''secret'', pc_stale_threshold_secs = default_stale_threshold,
        pc_models_refresh_on_pong_secs = default_models_refresh_on_pong\<rparr>,
      cf_capacity = default_capacity_config, cf_settlement = default_settlement_config\<rparr>"

lemma sample_config_loads: "read_config json_readers (JObj sample_members) = Some sample_loaded"
  by (simp add: read_config_def required_def defaulted_def read_server_def read_chain_def read_node_auth_def
      read_metrics_def read_portal_def json_readers_def sample_members_def sample_loaded_def)

theorem absent_section_reads_as_empty_witness:
  "read_config json_readers (JObj ((''settlement'', JObj []) # (''capacity'', JObj []) # sample_members)) =
    Some sample_loaded"
  using absent_section_reads_as_empty [of json_readers "JObj sample_members" "map_of sample_members"
      "JObj ((''settlement'', JObj []) # (''capacity'', JObj []) # sample_members)" "JObj []"]
  by (simp add: sample_config_loads) (simp add: json_readers_def sample_members_def fun_eq_iff)

text \<open>A tunnel that the pinger keeps reads as online: with a staleness threshold that covers ping
  interval and pong timeout, as the defaults do, no tick of the pinger leaves a tunnel open whose
  status is degraded or offline.\<close>

theorem kept_tunnels_read_online:
  assumes "fst (ping_tick (rc_ping cfg) (rc_pong cfg) now t) = PingSent"
    and "unat (max (rc_ping cfg) 1) + unat (max (rc_pong cfg) 1) \<le> unat (rc_stale cfg)"
    and "unat (rc_stale cfg) < 2 ^ 63" "i64_range (now - tn_last_pong_at t)"
  shows "tunnel_status_for_pong now (tn_last_pong_at t) (rc_stale cfg) = ''online''"
proof -
  let ?p = "max (rc_ping cfg) 1" and ?q = "max (rc_pong cfg) 1"
  have sum: "unat (?p + ?q) = unat ?p + unat ?q"
    using assms(2,3) by (subst unat_add_lem [THEN iffD1]) simp_all
  then have "as_i64 (?p + ?q) = int (unat ?p) + int (unat ?q)"
    using assms(2,3) by (subst as_i64_small) (simp_all only: sum of_nat_add)
  then have "now - tn_last_pong_at t \<le> int (unat ?p) + int (unat ?q)"
    using assms(1,4) by (auto simp: ping_tick_def Let_def split: if_splits)
  moreover have "as_i64 (rc_stale cfg) = int (unat (rc_stale cfg))"
    using assms(3) by (rule as_i64_small)
  moreover have "int (unat ?p) + int (unat ?q) \<le> int (unat (rc_stale cfg))"
    using assms(2) by linarith
  ultimately show ?thesis
    using assms(4) by (simp add: tunnel_status_for_pong_def Let_def)
qed

theorem kept_tunnels_read_online_witness:
  "tunnel_status_for_pong 1040 1000 default_stale_threshold = ''online''"
proof -
  let ?cfg = "\<lparr>rc_chain_enabled = True, rc_stale = default_stale_threshold,
      rc_refresh = default_models_refresh_on_pong, rc_ping = default_ping_interval,
      rc_pong = default_pong_timeout\<rparr>"
  have m: "max 30 1 = (30 :: u64)" "max 10 1 = (10 :: u64)"
    by (simp_all add: max_def word_le_nat_alt)
  have "fst (ping_tick (rc_ping ?cfg) (rc_pong ?cfg) 1040 (new_tunnel 1000 0 [] None)) = PingSent"
    by (simp add: ping_tick_def m new_tunnel_def send_frame_def as_i64_def default_ping_interval_def
        default_pong_timeout_def i64_range_def)
  from kept_tunnels_read_online [OF this] show ?thesis
    by (simp add: m new_tunnel_def default_stale_threshold_def default_ping_interval_def
        default_pong_timeout_def i64_range_def)
qed

end
