(* ===== verification/Process_Start.thy ===== *)
theory Process_Start
  imports Router_Config Usage_Submit
begin

text \<open>
  The process around the router (\<open>src/main.rs\<close>): the client that submits usage
  (\<open>RecordUsageClient::new\<close> of \<open>src/chain/usage.rs\<close>), what a start makes of configuration, key file
  and chain, and the drain at shutdown. Parameters: the texts of addresses, endpoints and keys
  (\<open>packages\<close>), and what file system, sockets and chain answer during the start (\<open>start_env\<close>).
\<close>

record ('url, 'k) packages =
  pk_parse_address :: "string \<Rightarrow> string + bytes"
  pk_show_address :: "bytes \<Rightarrow> string"
  pk_parse_url :: "string \<Rightarrow> string + 'url"
  pk_parse_signer :: "string \<Rightarrow> string + 'k"
  pk_enc :: "bytes \<Rightarrow> string"
  pk_key_bytes :: "'k \<Rightarrow> bytes"
  pk_address_of :: "'k \<Rightarrow> bytes"

section \<open>The client that submits usage\<close>

record ('url, 'k) usage_client =
  ul_escrow :: bytes
  ul_rpc_url :: 'url
  ul_wallet :: 'k
  ul_signer_address :: bytes

definition new_usage_client ::
  "('url, 'k) packages \<Rightarrow> ('url \<Rightarrow> bytes \<Rightarrow> string + bytes) \<Rightarrow> chain_config \<Rightarrow> settlement_config \<Rightarrow>
   string + ('url, 'k) usage_client" where
  "new_usage_client P role_of chain settlement =
     bind_sum (with_context ''invalid escrow_contract'' (pk_parse_address P (trim (cc_escrow_contract chain)))) (\<lambda>escrow.
       if escrow = zero_address then Inl ''escrow_contract is zero address''
       else
         bind_sum (with_context ''invalid rpc_url'' (pk_parse_url P (trim (cc_rpc_url chain)))) (\<lambda>url.
         bind_sum (with_context ''invalid record_usage_private_key''
           (pk_parse_signer P (trim (se_record_usage_private_key settlement)))) (\<lambda>signer.
         bind_sum (with_context ''recordUsageRole eth_call failed'' (role_of url escrow)) (\<lambda>on_chain.
           if on_chain \<noteq> pk_address_of P signer then
             Inl (''record_usage signer '' @ pk_show_address P (pk_address_of P signer) @
               '' does not match on-chain recordUsageRole '' @ pk_show_address P on_chain)
           else Inr \<lparr>ul_escrow = escrow, ul_rpc_url = url, ul_wallet = signer,
                     ul_signer_address = pk_address_of P signer\<rparr>))))"

lemma new_usage_client_ok:
  "new_usage_client P role_of chain settlement = Inr c \<longleftrightarrow>
    (\<exists>escrow url signer.
      pk_parse_address P (trim (cc_escrow_contract chain)) = Inr escrow \<and> escrow \<noteq> zero_address \<and>
      pk_parse_url P (trim (cc_rpc_url chain)) = Inr url \<and>
      pk_parse_signer P (trim (se_record_usage_private_key settlement)) = Inr signer \<and>
      role_of url escrow = Inr (pk_address_of P signer) \<and>
      c = \<lparr>ul_escrow = escrow, ul_rpc_url = url, ul_wallet = signer,
           ul_signer_address = pk_address_of P signer\<rparr>)"
  by (auto simp: new_usage_client_def bind_sum_def with_context_def map_sum_def split: sum.splits)

section \<open>Starting\<close>

text \<open>What a start meets. The role is read twice, by the key bootstrap and by the client; what the
  contract reports then may have changed in between.\<close>

record ('url, 'k) start_env =
  en_config_parent :: "string option"
  en_files :: file_io
  en_fresh_key :: 'k
  en_role_first :: "'url \<Rightarrow> bytes \<Rightarrow> string + bytes"
  en_set_role :: "'url \<Rightarrow> bytes \<Rightarrow> 'k \<Rightarrow> bytes \<Rightarrow> string + (string + unit)"
  en_balance :: "'url \<Rightarrow> bytes \<Rightarrow> string + nat"
  en_send :: "'url \<Rightarrow> 'k \<Rightarrow> bytes \<Rightarrow> nat \<Rightarrow> string + (string + unit)"
  en_role_then :: "'url \<Rightarrow> bytes \<Rightarrow> string + bytes"
  en_recorder :: "string + unit"
  en_bind_main :: "string \<Rightarrow> string + unit"
  en_bind_metrics :: "string \<Rightarrow> string + unit"

record ('url, 'k) process =
  pr_config :: config
  pr_client :: "('url, 'k) usage_client option"
  pr_watching :: bool
  pr_service :: chat_service

text \<open>With the chain enabled the signing key comes from the bootstrap, whatever was configured. The key
  files are a map from their paths.\<close>

definition bootstrap_key ::
  "('url, 'k) packages \<Rightarrow> ('url, 'k) start_env \<Rightarrow> config \<Rightarrow> (string \<Rightarrow> key_file) \<Rightarrow>
   (string + config) \<times> (string \<Rightarrow> key_file)" where
  "bootstrap_key P E c files =
     (if \<not> cc_enabled (cf_chain c) then (Inr c, files)
      else
        (let chain = cf_chain c; settlement = cf_settlement c;
             owner = se_registry_owner_private_key settlement;
             path = key_path (resolve_data_dir (en_config_parent E) (se_data_dir settlement));
             (r, file) = bootstrap
               (load_or_generate (pk_parse_signer P) (pk_enc P) (pk_key_bytes P) (pk_address_of P) (en_fresh_key E)
                  (en_files E) (se_record_usage_private_key settlement))
               (\<lambda>role. ensure_record_usage_role (pk_parse_address P) (pk_parse_url P) (pk_parse_signer P)
                  (cc_escrow_contract chain) (cc_rpc_url chain) role owner (en_role_first E) (en_set_role E))
               (\<lambda>role. ensure_gas_funded (pk_parse_url P) (pk_parse_signer P) (cc_rpc_url chain) role owner
                  (en_balance E) (en_send E))
               (cc_enabled chain) True (files path) in
         (map_sum id (\<lambda>m. c\<lparr>cf_settlement := settlement\<lparr>se_record_usage_private_key := km_private_key_hex m\<rparr>\<rparr>) r,
          files(path := file))))"

definition start_client ::
  "('url, 'k) packages \<Rightarrow> ('url, 'k) start_env \<Rightarrow> config \<Rightarrow> ('url, 'k) usage_client option" where
  "start_client P E c =
     (let chain = cf_chain c; settlement = cf_settlement c in
      if is_active (se_enabled settlement) (se_record_usage_enabled settlement)
           (se_record_usage_private_key settlement) (cc_enabled chain)
      then (case new_usage_client P (en_role_then E) chain settlement of Inl e \<Rightarrow> None | Inr u \<Rightarrow> Some u)
      else None)"

text \<open>\<open>sockets\<close> tells the texts that are socket addresses.\<close>

definition start_router ::
  "('url, 'k) packages \<Rightarrow> (string \<Rightarrow> string + unit) \<Rightarrow> ('url, 'k) start_env \<Rightarrow> string + config \<Rightarrow>
   (string \<Rightarrow> key_file) \<Rightarrow> (string + ('url, 'k) process) \<times> (string \<Rightarrow> key_file)" where
  "start_router P sockets E loaded files =
     (case with_context ''load config'' loaded of
        Inl e \<Rightarrow> (Inl e, files)
      | Inr c0 \<Rightarrow>
          (case bootstrap_key P E c0 files of
             (Inl e, files') \<Rightarrow> (Inl ''recordUsage key bootstrap'', files')
           | (Inr c, files') \<Rightarrow>
               (bind_sum (with_context ''install prometheus recorder'' (en_recorder E)) (\<lambda>_.
                  let client = start_client P E c;
                      watching = watcher_starts (pk_parse_address P) (cc_enabled (cf_chain c))
                        (cc_escrow_contract (cf_chain c)) in
                  bind_sum (with_context ''invalid server.bind'' (sockets (sc_bind (cf_server c)))) (\<lambda>_.
                  bind_sum (with_context ''invalid metrics.bind'' (sockets (cf_metrics_bind c))) (\<lambda>_.
                  bind_sum (with_context ''bind main server'' (en_bind_main E (sc_bind (cf_server c)))) (\<lambda>_.
                  bind_sum (with_context ''bind metrics server'' (en_bind_metrics E (cf_metrics_bind c))) (\<lambda>_.
                    Inr \<lparr>pr_config = c, pr_client = client, pr_watching = watching,
                         pr_service = new_service (cc_session_cache_ttl_secs (cf_chain c))\<rparr>))))),
                files')))"

section \<open>Stopping\<close>

text \<open>After both servers have stopped, the pending usage is handed over, if there is a batcher.\<close>

definition drain_at_shutdown ::
  "('url, 'k) process \<Rightarrow> session_fetch \<Rightarrow> int \<Rightarrow> chat_service \<Rightarrow> chat_service" where
  "drain_at_shutdown pr fetch now S =
     (case pr_client pr of
        None \<Rightarrow> S
      | Some u \<Rightarrow>
          S\<lparr>sv_usage := flush_all_on_shutdown (usage_config_of (pr_config pr)) fetch now (sv_usage S)\<rparr>)"

section \<open>Properties\<close>

lemma load_or_generate_stores:
  assumes "load_or_generate parse enc to_bytes address_of fresh io key file = (Inr m, file')"
    and "\<And>k. parse (trim (signer_to_hex enc to_bytes k)) = Inr k"
  obtains pk a k where "file' = StoredKey pk a" "parse (trim pk) = Inr k"
    "km_private_key_hex m = signer_to_hex enc to_bytes k"
  using assms by (auto simp: material_of_def elim!: load_or_generate_ok)

lemma bootstrap_loaded:
  "bootstrap load role gas enabled register file = (Inr m, file') \<Longrightarrow> load file = (Inr m, file')"
  by (auto simp: bootstrap_def split: if_splits sum.splits prod.splits role_action.splits)

lemma bootstrap_key_chain:
  assumes "bootstrap_key P E c0 files = (Inr c, files')"
  shows "cf_chain c = cf_chain c0" "cf_server c = cf_server c0"
    "se_data_dir (cf_settlement c) = se_data_dir (cf_settlement c0)"
  using assms by (auto simp: bootstrap_key_def Let_def map_sum_def split: if_splits prod.splits sum.splits)

lemma bootstrap_key_stored:
  assumes "bootstrap_key P E c0 files = (Inr c, files')" "cc_enabled (cf_chain c0)"
    and "\<And>k. pk_parse_signer P (trim (signer_to_hex (pk_enc P) (pk_key_bytes P) k)) = Inr k"
  obtains pk a k where
    "files' (key_path (resolve_data_dir (en_config_parent E) (se_data_dir (cf_settlement c)))) = StoredKey pk a"
    "pk_parse_signer P (trim pk) = Inr k" "se_record_usage_private_key (cf_settlement c) = signer_to_hex (pk_enc P) (pk_key_bytes P) k"
  using assms
  by (auto simp: bootstrap_key_def Let_def map_sum_def split: prod.splits sum.splits
      dest!: bootstrap_loaded elim!: load_or_generate_stores [where parse = "pk_parse_signer P"])

lemma start_client_ok:
  assumes "start_client P E c = Some u"
  shows "cc_enabled (cf_chain c)" "se_enabled (cf_settlement c)" "se_record_usage_enabled (cf_settlement c)"
    "new_usage_client P (en_role_then E) (cf_chain c) (cf_settlement c) = Inr u"
  using assms by (auto simp: start_client_def is_active_def Let_def split: if_splits sum.splits)

lemma start_router_ok:
  assumes "start_router P sockets E loaded files = (Inr pr, files')"
  obtains c0 where "loaded = Inr c0" "bootstrap_key P E c0 files = (Inr (pr_config pr), files')"
    "pr_client pr = start_client P E (pr_config pr)"
    "pr_watching pr = watcher_starts (pk_parse_address P) (cc_enabled (cf_chain (pr_config pr)))
       (cc_escrow_contract (cf_chain (pr_config pr)))"
    "pr_service pr = new_service (cc_session_cache_ttl_secs (cf_chain (pr_config pr)))"
  using assms
  by (auto simp: start_router_def bind_sum_def with_context_def map_sum_def Let_def
      split: sum.splits prod.splits)

text \<open>C21: A router that records usage signs with the key it keeps: after a start that enabled the usage
  batcher, settlement and the chain are switched on, the key file of the data directory holds the
  key of the client's wallet, the escrow contract is not the zero address and reported that key's
  address as the recording role, and the watcher that settles released sessions runs.\<close>

theorem metering_signs_with_stored_key:
  assumes "\<And>k. pk_parse_signer P (trim (signer_to_hex (pk_enc P) (pk_key_bytes P) k)) = Inr k"
    and "start_router P sockets E loaded files = (Inr pr, files')" "pr_client pr = Some u"
  shows "(\<exists>pk a. files' (key_path (resolve_data_dir (en_config_parent E) (se_data_dir (cf_settlement (pr_config pr))))) =
        StoredKey pk a \<and> pk_parse_signer P (trim pk) = Inr (ul_wallet u)) \<and>
    ul_escrow u \<noteq> zero_address \<and>
    en_role_then E (ul_rpc_url u) (ul_escrow u) = Inr (pk_address_of P (ul_wallet u)) \<and>
    cc_enabled (cf_chain (pr_config pr)) \<and> se_enabled (cf_settlement (pr_config pr)) \<and>
    se_record_usage_enabled (cf_settlement (pr_config pr)) \<and> pr_watching pr"
proof -
  let ?c = "pr_config pr"
  from assms(2) obtain c0 where c0: "bootstrap_key P E c0 files = (Inr ?c, files')"
    and client: "start_client P E ?c = Some u"
    and watching: "pr_watching pr = watcher_starts (pk_parse_address P) (cc_enabled (cf_chain ?c))
       (cc_escrow_contract (cf_chain ?c))"
    using assms(3) by (auto elim: start_router_ok)
  note on = start_client_ok [OF client]
  from on(4) obtain escrow url signer where u: "pk_parse_address P (trim (cc_escrow_contract (cf_chain ?c))) = Inr escrow"
    "escrow \<noteq> zero_address" "pk_parse_signer P (trim (se_record_usage_private_key (cf_settlement ?c))) = Inr signer"
    "en_role_then E url escrow = Inr (pk_address_of P signer)"
    "u = \<lparr>ul_escrow = escrow, ul_rpc_url = url, ul_wallet = signer, ul_signer_address = pk_address_of P signer\<rparr>"
    by (auto simp: new_usage_client_ok)
  have "cc_enabled (cf_chain c0)"
    using on(1) bootstrap_key_chain(1) [OF c0] by simp
  then obtain pk a k where
    "files' (key_path (resolve_data_dir (en_config_parent E) (se_data_dir (cf_settlement ?c)))) = StoredKey pk a"
    "pk_parse_signer P (trim pk) = Inr k" "se_record_usage_private_key (cf_settlement ?c) = signer_to_hex (pk_enc P) (pk_key_bytes P) k"
    using assms(1) by (rule bootstrap_key_stored [OF c0])
  then show ?thesis
    using u on assms(1) by (simp add: watching watcher_starts_def)
qed

text \<open>A first start, without a key file, with settlement switched on.\<close>

definition sample_packages :: "(unit, unit) packages" where
  "sample_packages =
     \<lparr>pk_parse_address = (\<lambda>_. Inr (replicate 20 1)), pk_show_address = (\<lambda>_. []), pk_parse_url = Inr \<circ> (\<lambda>_. ()),
      pk_parse_signer = Inr \<circ> (\<lambda>_. ()), pk_enc = (\<lambda>_. ''key''), pk_key_bytes = (\<lambda>_. []), pk_address_of = (\<lambda>_. replicate 20 2)\<rparr>"

definition sample_start :: "(unit, unit) start_env" where
  "sample_start =
     \<lparr>en_config_parent = Some ''etc'', en_files = working_io, en_fresh_key = (), en_role_first = (\<lambda>_ _. Inr (replicate 20 2)),
      en_set_role = (\<lambda>_ _ _ _. Inr (Inr ())), en_balance = (\<lambda>_ _. Inr (10 ^ 18)), en_send = (\<lambda>_ _ _ _. Inr (Inr ())),
      en_role_then = (\<lambda>_ _. Inr (replicate 20 2)), en_recorder = Inr (), en_bind_main = (\<lambda>_. Inr ()),
      en_bind_metrics = (\<lambda>_. Inr ())\<rparr>"

definition sample_settling :: config where
  "sample_settling = sample_loaded\<lparr>cf_settlement := default_settlement_config\<lparr>se_enabled := True\<rparr>\<rparr>"

lemma trim_sample_key: "trim ''0xkey'' = ''0xkey''"
  by (rule trim_graph) (simp add: graph_char_def)

lemma sample_bootstrap:
  "bootstrap_key sample_packages sample_start sample_settling (\<lambda>_. NoFile) =
    (Inr (sample_settling\<lparr>cf_settlement := default_settlement_config\<lparr>se_enabled := True,
        se_record_usage_private_key := ''0xkey''\<rparr>\<rparr>),
     (\<lambda>_. NoFile)(''etc/data/record-usage-key.json'' := StoredKey ''0xkey'' (replicate 20 2)))"
  by (simp add: bootstrap_key_def bootstrap_def load_or_generate_def ensure_record_usage_role_def
      ensure_gas_funded_def resolve_data_dir_def path_join_def key_path_def key_filename_def signer_to_hex_def working_io_def sample_packages_def sample_start_def sample_settling_def
      sample_loaded_def default_settlement_config_def material_of_def persist_key_file_def
      with_context_def bind_sum_def zero_address_def min_balance_wei_def)

theorem metering_signs_with_stored_key_witness:
  "\<exists>pr files' u. start_router sample_packages (\<lambda>_. Inr ()) sample_start (Inr sample_settling) (\<lambda>_. NoFile) =
      (Inr pr, files') \<and> pr_client pr = Some u \<and> ul_escrow u \<noteq> zero_address \<and> pr_watching pr"
proof -
  obtain pr files' where start: "start_router sample_packages (\<lambda>_. Inr ()) sample_start (Inr sample_settling)
      (\<lambda>_. NoFile) = (Inr pr, files')"
    by (simp add: start_router_def sample_bootstrap with_context_def bind_sum_def Let_def)
      (simp add: sample_start_def)
  moreover have "new_usage_client sample_packages (en_role_then sample_start) chain settlement =
      Inr \<lparr>ul_escrow = replicate 20 1, ul_rpc_url = (), ul_wallet = (), ul_signer_address = replicate 20 2\<rparr>"
    for chain settlement
    by (simp add: new_usage_client_def sample_packages_def sample_start_def with_context_def bind_sum_def
        zero_address_def)
  then obtain u where u: "start_client sample_packages sample_start (sample_settling\<lparr>cf_settlement :=
      default_settlement_config\<lparr>se_enabled := True, se_record_usage_private_key := ''0xkey''\<rparr>\<rparr>) = Some u"
    by (simp add: start_client_def is_active_def trim_sample_key sample_settling_def sample_loaded_def
        default_settlement_config_def)
  then have client: "pr_client pr = Some u"
    using start by (auto simp: start_router_def sample_bootstrap with_context_def bind_sum_def Let_def map_sum_def
        split: sum.splits)
  have "\<And>k. pk_parse_signer sample_packages (trim (signer_to_hex (pk_enc sample_packages) (pk_key_bytes sample_packages) k)) = Inr k"
    by (simp add: sample_packages_def)
  from metering_signs_with_stored_key [OF this start client] start client show ?thesis by blast
qed

text \<open>The drain at shutdown hands over all the usage that is pending when the servers have stopped, for
  every session and whether or not the chain can be read; without a batcher it does nothing. Usage
  that was queued by a request and not yet added to its batch is not part of it.\<close>

theorem drain_hands_over_pending:
  "batch_tokens (batch_of (sv_usage (drain_at_shutdown pr fetch now S)) sid) =
      (if pr_client pr = None then batch_tokens (batch_of (sv_usage S) sid) else 0) \<and>
    submitted sid (sv_usage (drain_at_shutdown pr fetch now S)) = submitted sid (sv_usage S) +
      (if pr_client pr = None then 0 else batch_tokens (batch_of (sv_usage S) sid)) \<and>
    sv_records (drain_at_shutdown pr fetch now S) = sv_records S"
  by (simp add: drain_at_shutdown_def flush_all_accounts split: option.split)

end
