(* ===== verification/Process_Run.thy ===== *)
theory Process_Run
  imports Process_Start
begin

text \<open>
  The life of the process after its start (\<open>src/main.rs\<close>): two servers, the task that waits for Ctrl-C,
  and what happens at the end. What the servers do between is theory \<open>Chat_Service\<close>; here they wait for
  the shutdown notification and end with or without an error, which are events of the environment.
\<close>

section \<open>Serving\<close>

datatype server = MainServer | MetricsServer

text \<open>\<open>Waits\<close>: the server's shutdown future starts to wait for the notification. \<open>CtrlC\<close>: the wait for the
  signal ends, well or with an error. \<open>ServerDone\<close>: the server returns.\<close>

datatype serve_event =
    Waits server
  | CtrlC bool
  | ServerDone server "string + unit"

record serving =
  sg_waits :: "server \<Rightarrow> bool"
  sg_told :: "server \<Rightarrow> bool"
  sg_listening :: bool
  sg_done :: "server \<Rightarrow> bool"

definition serving_start :: serving where
  "serving_start = \<lparr>sg_waits = (\<lambda>_. False), sg_told = (\<lambda>_. False), sg_listening = True, sg_done = (\<lambda>_. False)\<rparr>"

text \<open>The task ends with the first signal. Its notification reaches those who wait then.\<close>

fun serve_step :: "serving \<Rightarrow> serve_event \<Rightarrow> serving" where
  "serve_step s (Waits w) = s\<lparr>sg_waits := (sg_waits s)(w := True)\<rparr>"
| "serve_step s (CtrlC ok) =
     (if \<not> sg_listening s then s
      else s\<lparr>sg_listening := False,
             sg_told := (\<lambda>w. sg_told s w \<or> ok \<and> sg_waits s w)\<rparr>)"
| "serve_step s (ServerDone w r) = s\<lparr>sg_done := (sg_done s)(w := True)\<rparr>"

text \<open>Both servers, until both are done or one fails; \<open>None\<close> while they serve.\<close>

fun serve_both :: "serving \<Rightarrow> serve_event list \<Rightarrow> (string + unit) option" where
  "serve_both s [] = None"
| "serve_both s (ev # evs) =
     (let s' = serve_step s ev in
      case ev of
        ServerDone w (Inl e) \<Rightarrow> Some (Inl e)
      | _ \<Rightarrow> if sg_done s' MainServer \<and> sg_done s' MetricsServer then Some (Inr ()) else serve_both s' evs)"

text \<open>What is left of the process when it ends: its result and the service.\<close>

definition serve_and_drain ::
  "('url, 'k) process \<Rightarrow> serve_event list \<Rightarrow> session_fetch \<Rightarrow> int \<Rightarrow> chat_service \<Rightarrow>
   ((string + unit) \<times> chat_service) option" where
  "serve_and_drain pr evs fetch now S =
     (case serve_both serving_start evs of
        None \<Rightarrow> None
      | Some (Inl e) \<Rightarrow> Some (Inl e, S)
      | Some (Inr u) \<Rightarrow> Some (Inr (), drain_at_shutdown pr fetch now S))"

section \<open>How the process ends\<close>

fun fails :: "serve_event \<Rightarrow> bool" where
  "fails (ServerDone w (Inl e)) = True"
| "fails _ = False"

fun ends :: "server \<Rightarrow> serve_event \<Rightarrow> bool" where
  "ends w (ServerDone w' r) = (w' = w)"
| "ends w _ = False"

lemma serve_both_go:
  "\<not> fails ev \<Longrightarrow> serve_both s (ev # evs) =
    (if sg_done (serve_step s ev) MainServer \<and> sg_done (serve_step s ev) MetricsServer then Some (Inr ())
     else serve_both (serve_step s ev) evs)"
  by (cases ev rule: fails.cases) (auto simp: Let_def)

lemma serve_both_ok:
  "\<not> (sg_done s MainServer \<and> sg_done s MetricsServer) \<Longrightarrow> list_all (\<lambda>ev. \<not> fails ev) evs \<Longrightarrow>
    serve_both s evs = (if \<forall>w. sg_done s w \<or> list_ex (ends w) evs then Some (Inr ()) else None)"
proof (induction evs arbitrary: s)
  case Nil
  then show ?case by (simp, metis)
next
  case (Cons ev evs)
  let ?s = "serve_step s ev"
  have over: "sg_done ?s w \<longleftrightarrow> sg_done s w \<or> ends w ev" for w
    by (cases ev) auto
  have "serve_both s (ev # evs) =
      (if sg_done ?s MainServer \<and> sg_done ?s MetricsServer then Some (Inr ()) else serve_both ?s evs)"
    using Cons.prems(2) serve_both_go by simp
  also have "\<dots> = (if \<forall>w. sg_done ?s w \<or> list_ex (ends w) evs then Some (Inr ()) else None)"
  proof (cases "sg_done ?s MainServer \<and> sg_done ?s MetricsServer")
    case True
    then have "\<forall>w. sg_done ?s w" by (metis server.exhaust)
    then show ?thesis using True by simp
  next
    case False
    have "list_all (\<lambda>ev. \<not> fails ev) evs" using Cons.prems(2) by simp
    from Cons.IH [OF False this] show ?thesis
      by (simp only: if_not_P [OF False])
  qed
  finally show ?case
    by (simp add: over disj_assoc)
qed


lemma serve_both_cases:
  assumes "serve_both s evs = Some r" "\<not> (sg_done s MainServer \<and> sg_done s MetricsServer)"
  shows "case r of
      Inl e \<Rightarrow> \<exists>w. ServerDone w (Inl e) \<in> set evs
    | Inr u \<Rightarrow> \<forall>w. sg_done s w \<or> list_ex (ends w) evs"
  using assms
proof (induction evs arbitrary: s)
  case (Cons ev evs)
  let ?s = "serve_step s ev"
  have over: "sg_done ?s w \<longleftrightarrow> sg_done s w \<or> ends w ev" for w
    by (cases ev) auto
  show ?case
  proof (cases "fails ev")
    case True
    then obtain w e where "ev = ServerDone w (Inl e)" by (cases ev rule: fails.cases) auto
    then show ?thesis using Cons.prems(1) by auto
  next
    case False
    then have step: "(if sg_done ?s MainServer \<and> sg_done ?s MetricsServer then Some (Inr ()) else serve_both ?s evs) = Some r"
      using Cons.prems(1) serve_both_go by simp
    show ?thesis
    proof (cases "sg_done ?s MainServer \<and> sg_done ?s MetricsServer")
      case True
      then have "sg_done ?s w" for w by (cases w) simp_all
      then have ended: "sg_done s w \<or> list_ex (ends w) (ev # evs)" for w
        using over [of w] by auto
      have "r = Inr ()"
        using step True by simp
      then show ?thesis
        by (simp only: sum.case) (rule allI, rule ended)
    next
      case False
      then have "serve_both ?s evs = Some r"
        using step by (simp only: if_False)
      note later = Cons.IH [OF this False]
      show ?thesis
      proof (cases r)
        case (Inl e)
        with later show ?thesis by auto
      next
        case (Inr u)
        with later have "sg_done ?s w \<or> list_ex (ends w) evs" for w by simp
        then have "sg_done s w \<or> list_ex (ends w) (ev # evs)" for w
          using over [of w] by auto
        with Inr show ?thesis by (simp only: sum.case) blast
      qed
    qed
  qed
qed simp


definition sample_process :: "(unit, unit) process" where
  "sample_process =
     \<lparr>pr_config = sample_settling,
      pr_client = Some \<lparr>ul_escrow = replicate 20 1, ul_rpc_url = (), ul_wallet = (), ul_signer_address = replicate 20 2\<rparr>,
      pr_watching = True, pr_service = new_service 12\<rparr>"

definition sample_pending :: chat_service where
  "sample_pending = (new_service 12)
     \<lparr>sv_usage := put_batch 7 ((new_batch 0 0 0)\<lparr>ub_pending_input := 6\<rparr>) (new_batcher (new_verifier 12))\<rparr>"


text \<open>A server ends without an error only when it has been told to (that is what graceful shutdown means).\<close>

fun graceful :: "serving \<Rightarrow> serve_event list \<Rightarrow> bool" where
  "graceful s [] = True"
| "graceful s (ev # evs) =
     ((case ev of ServerDone w (Inr u) \<Rightarrow> sg_told s w | _ \<Rightarrow> True) \<and> graceful (serve_step s ev) evs)"

text \<open>A signal that comes before a server waits for it is lost: nobody is told any more, and the process
  serves until a server fails.\<close>

lemma untold_serves:
  assumes "\<not> sg_listening s" "\<not> sg_told s w" "graceful s evs" "list_all (\<lambda>ev. \<not> fails ev) evs"
  shows "\<not> list_ex (ends w) evs"
  using assms
proof (induction evs arbitrary: s)
  case (Cons ev evs)
  have "\<not> sg_listening (serve_step s ev)" "\<not> sg_told (serve_step s ev) w"
    using Cons.prems(1,2) by (cases ev; simp)+
  moreover have "\<not> ends w ev"
    using Cons.prems by (cases ev rule: fails.cases) (auto split: sum.splits)
  ultimately show ?case
    using Cons.IH [of "serve_step s ev"] Cons.prems(3,4) by simp
qed simp

theorem early_signal_is_lost:
  assumes "graceful serving_start (CtrlC ok # evs)" "list_all (\<lambda>ev. \<not> fails ev) evs"
  shows "serve_and_drain pr (CtrlC ok # evs) fetch now S = None"
proof -
  let ?s = "serve_step serving_start (CtrlC ok)"
  have "\<not> list_ex (ends MainServer) evs"
    using untold_serves [of ?s MainServer evs] assms by (simp add: serving_start_def)
  then have "serve_both ?s evs = None"
    using serve_both_ok [of ?s evs] assms(2) by (auto simp: serving_start_def)
  then show ?thesis
    by (simp add: serve_and_drain_def) (simp add: serving_start_def)
qed

theorem early_signal_is_lost_witness:
  "serve_and_drain pr [CtrlC True, Waits MainServer, Waits MetricsServer, CtrlC True] fetch now S = None"
  by (rule early_signal_is_lost) (simp_all add: serving_start_def)

end
