(* ===== verification/Wire_Format.thy ===== *)
theory Wire_Format
  imports Protocol Json_Value
begin

text \<open>
  The JSON form of the frames (\<open>src/protocol.rs\<close>), as the derived serialisers of the two enums read
  and write it: an object with the frame's name in \<open>type\<close> and its fields by name. Parameters:
  splitting a text into the members of an object in their order (\<open>members\<close>, repeated members
  included), printing a value, the text form of a UUID, and the reading of texts that are not
  objects (\<open>other\<close>), for which no writer exists.
\<close>

section \<open>Fields\<close>

datatype field = Missing | Present json | Repeated

definition field_of :: "string \<Rightarrow> (string \<times> json) list \<Rightarrow> field" where
  "field_of k kvs =
     (case filter (\<lambda>kv. fst kv = k) kvs of [] \<Rightarrow> Missing | [kv] \<Rightarrow> Present (snd kv) | _ \<Rightarrow> Repeated)"

definition need :: "(json \<Rightarrow> 'a option) \<Rightarrow> string \<Rightarrow> (string \<times> json) list \<Rightarrow> 'a option" where
  "need read k kvs = (case field_of k kvs of Present v \<Rightarrow> read v | _ \<Rightarrow> None)"

text \<open>An optional text may be left out or be null.\<close>

definition optional_text :: "string \<Rightarrow> (string \<times> json) list \<Rightarrow> string option option" where
  "optional_text k kvs =
     (case field_of k kvs of
        Missing \<Rightarrow> Some None
      | Present v \<Rightarrow> if v = JNull then Some None else map_option Some (as_str v)
      | Repeated \<Rightarrow> None)"

definition value_or_null :: "string \<Rightarrow> (string \<times> json) list \<Rightarrow> json option" where
  "value_or_null k kvs =
     (case field_of k kvs of Missing \<Rightarrow> Some JNull | Present v \<Rightarrow> Some v | Repeated \<Rightarrow> None)"

definition as_u16 :: "json \<Rightarrow> u16 option" where
  "as_u16 v = Option.bind (as_u64 v) (\<lambda>n. if unat n < 2 ^ 16 then Some (ucast n) else None)"

definition text_or_null :: "string option \<Rightarrow> json" where
  "text_or_null s = (case s of None \<Rightarrow> JNull | Some s \<Rightarrow> JStr s)"

section \<open>Frames from the node\<close>

text \<open>The texts of a UUID: how it is written, and what is read as one.\<close>

record uuid_text =
  ut_show :: "uuid \<Rightarrow> string"
  ut_parse :: "string \<Rightarrow> uuid option"

definition as_uuid :: "uuid_text \<Rightarrow> json \<Rightarrow> uuid option" where
  "as_uuid U v = Option.bind (as_str v) (ut_parse U)"

definition node_frame_of_members :: "uuid_text \<Rightarrow> (string \<times> json) list \<Rightarrow> node_frame option" where
  "node_frame_of_members U kvs =
     Option.bind (need as_str ''type'' kvs) (\<lambda>tag.
     if tag = ''auth'' then
       Option.bind (need as_str ''node_id'' kvs) (\<lambda>n.
       Option.bind (need as_str ''signature'' kvs) (\<lambda>sig.
       Option.bind (optional_text ''ed25519_pubkey'' kvs) (\<lambda>pk.
       Option.bind (optional_text ''moniker'' kvs) (\<lambda>m. Some (Auth n sig pk m)))))
     else if tag = ''pong'' then Some Pong
     else if tag = ''response'' then
       Option.bind (need (as_uuid U) ''rid'' kvs) (\<lambda>rid.
       Option.bind (need as_u16 ''status'' kvs) (\<lambda>st.
       Option.bind (value_or_null ''headers'' kvs) (\<lambda>h. Some (NodeResponse rid st h))))
     else if tag = ''chunk'' then
       Option.bind (need (as_uuid U) ''rid'' kvs) (\<lambda>rid.
       Option.bind (need as_str ''data'' kvs) (\<lambda>d. Some (NodeChunk rid d)))
     else if tag = ''end'' then
       Option.bind (need (as_uuid U) ''rid'' kvs) (\<lambda>rid.
       Option.bind (need as_u16 ''status'' kvs) (\<lambda>st. Some (NodeEnd rid st)))
     else if tag = ''error'' then
       Option.bind (need (as_uuid U) ''rid'' kvs) (\<lambda>rid.
       Option.bind (need as_u16 ''code'' kvs) (\<lambda>c.
       Option.bind (need as_str ''message'' kvs) (\<lambda>m. Some (NodeError rid c m))))
     else if tag = ''activate_response'' then
       Option.bind (need (as_uuid U) ''rid'' kvs) (\<lambda>rid.
       Option.bind (need as_str ''api_key'' kvs) (\<lambda>k. Some (NodeActivateResponse rid k)))
     else None)"

fun members_of_node_frame :: "uuid_text \<Rightarrow> node_frame \<Rightarrow> (string \<times> json) list" where
  "members_of_node_frame U (Auth n sig pk m) =
     [(''type'', JStr ''auth''), (''node_id'', JStr n), (''signature'', JStr sig),
      (''ed25519_pubkey'', text_or_null pk), (''moniker'', text_or_null m)]"
| "members_of_node_frame U Pong = [(''type'', JStr ''pong'')]"
| "members_of_node_frame U (NodeResponse rid st h) =
     [(''type'', JStr ''response''), (''rid'', JStr (ut_show U rid)), (''status'', JNum (PosInt (ucast st))),
      (''headers'', h)]"
| "members_of_node_frame U (NodeChunk rid d) =
     [(''type'', JStr ''chunk''), (''rid'', JStr (ut_show U rid)), (''data'', JStr d)]"
| "members_of_node_frame U (NodeEnd rid st) =
     [(''type'', JStr ''end''), (''rid'', JStr (ut_show U rid)), (''status'', JNum (PosInt (ucast st)))]"
| "members_of_node_frame U (NodeError rid c m) =
     [(''type'', JStr ''error''), (''rid'', JStr (ut_show U rid)), (''code'', JNum (PosInt (ucast c))),
      (''message'', JStr m)]"
| "members_of_node_frame U (NodeActivateResponse rid k) =
     [(''type'', JStr ''activate_response''), (''rid'', JStr (ut_show U rid)), (''api_key'', JStr k)]"

section \<open>Frames to the node\<close>

fun members_of_router_frame :: "uuid_text \<Rightarrow> router_frame \<Rightarrow> (string \<times> json) list" where
  "members_of_router_frame U (Challenge nonce block) =
     [(''type'', JStr ''challenge''), (''nonce'', JStr nonce), (''block'', JNum (PosInt block))]"
| "members_of_router_frame U (Ready url) = [(''type'', JStr ''ready''), (''router_url'', JStr url)]"
| "members_of_router_frame U (Request rid meth path headers body) =
     [(''type'', JStr ''request''), (''rid'', JStr (ut_show U rid)), (''method'', JStr meth),
      (''path'', JStr path), (''headers'', headers), (''body'', text_or_null body)]"
| "members_of_router_frame U (ActivateRequest rid session sig block message) =
     [(''type'', JStr ''activate_request''), (''rid'', JStr (ut_show U rid)), (''session_id'', JStr session),
      (''signature'', JStr sig), (''block_number'', JNum (PosInt block)), (''message'', text_or_null message)]"
| "members_of_router_frame U Ping = [(''type'', JStr ''ping'')]"

definition router_frame_of_members :: "uuid_text \<Rightarrow> (string \<times> json) list \<Rightarrow> router_frame option" where
  "router_frame_of_members U kvs =
     Option.bind (need as_str ''type'' kvs) (\<lambda>tag.
     if tag = ''challenge'' then
       Option.bind (need as_str ''nonce'' kvs) (\<lambda>n.
       Option.bind (need as_u64 ''block'' kvs) (\<lambda>b. Some (Challenge n b)))
     else if tag = ''ready'' then Option.bind (need as_str ''router_url'' kvs) (\<lambda>u. Some (Ready u))
     else if tag = ''request'' then
       Option.bind (need (as_uuid U) ''rid'' kvs) (\<lambda>rid.
       Option.bind (need as_str ''method'' kvs) (\<lambda>meth.
       Option.bind (need as_str ''path'' kvs) (\<lambda>path.
       Option.bind (value_or_null ''headers'' kvs) (\<lambda>h.
       Option.bind (optional_text ''body'' kvs) (\<lambda>b. Some (Request rid meth path h b))))))
     else if tag = ''activate_request'' then
       Option.bind (need (as_uuid U) ''rid'' kvs) (\<lambda>rid.
       Option.bind (need as_str ''session_id'' kvs) (\<lambda>s.
       Option.bind (need as_str ''signature'' kvs) (\<lambda>sig.
       Option.bind (need as_u64 ''block_number'' kvs) (\<lambda>b.
       Option.bind (optional_text ''message'' kvs) (\<lambda>m. Some (ActivateRequest rid s sig b m))))))
     else if tag = ''ping'' then Some Ping
     else None)"

section \<open>Texts\<close>

definition parse_frame ::
  "uuid_text \<Rightarrow> (string \<Rightarrow> (string \<times> json) list option) \<Rightarrow> (string \<Rightarrow> string + node_frame) \<Rightarrow> string \<Rightarrow>
   string + node_frame" where
  "parse_frame U members other t =
     (case members t of
        None \<Rightarrow> other t
      | Some kvs \<Rightarrow>
          (case node_frame_of_members U kvs of None \<Rightarrow> Inl ''invalid frame'' | Some f \<Rightarrow> Inr f))"

definition frame_to_json :: "uuid_text \<Rightarrow> (json \<Rightarrow> string option) \<Rightarrow> router_frame \<Rightarrow> string option" where
  "frame_to_json U print f = print (JObj (members_of_router_frame U f))"

section \<open>Round trips\<close>

definition uuid_laws :: "uuid_text \<Rightarrow> bool" where
  "uuid_laws U \<longleftrightarrow> (\<forall>rid. ut_parse U (ut_show U rid) = Some rid)"

lemma as_u16_ucast [simp]: "as_u16 (JNum (PosInt (ucast (st :: u16)))) = Some st"
proof -
  have "unat (ucast st :: u64) = unat st"
    by transfer (simp add: take_bit_nat_eq_self_iff)
  moreover have "ucast (ucast st :: u64) = st"
    by transfer simp
  ultimately show ?thesis
    using unsigned_less [of st, where 'a = nat] by (simp add: as_u16_def)
qed

lemma optional_text_or_null [simp]:
  "field_of k kvs = Present (text_or_null s) \<Longrightarrow> optional_text k kvs = Some s"
  by (cases s) (simp_all add: optional_text_def text_or_null_def)

lemma as_uuid_show [simp]: "uuid_laws U \<Longrightarrow> as_uuid U (JStr (ut_show U rid)) = Some rid"
  by (simp add: as_uuid_def uuid_laws_def)

lemma node_frame_roundtrip:
  "uuid_laws U \<Longrightarrow> node_frame_of_members U (members_of_node_frame U f) = Some f"
  by (cases f) (simp_all add: node_frame_of_members_def need_def value_or_null_def field_of_def)

lemma router_frame_roundtrip:
  "uuid_laws U \<Longrightarrow> router_frame_of_members U (members_of_router_frame U f) = Some f"
  by (cases f) (simp_all add: router_frame_of_members_def need_def value_or_null_def field_of_def)

text \<open>C31: The wire format loses nothing: every frame reads back as itself, in both directions, whatever
  optional fields it has; a node's text whose members are those of a frame is read as that frame,
  and different frames to a node have different members.\<close>

theorem wire_roundtrip:
  assumes "uuid_laws U"
  shows "node_frame_of_members U (members_of_node_frame U f) = Some f \<and>
    router_frame_of_members U (members_of_router_frame U g) = Some g \<and>
    (members t = Some (members_of_node_frame U f) \<longrightarrow> parse_frame U members other t = Inr f) \<and>
    (members_of_router_frame U g = members_of_router_frame U h \<longrightarrow> g = h)"
proof -
  have "g = h" if "members_of_router_frame U g = members_of_router_frame U h"
  proof -
    have "Some g = router_frame_of_members U (members_of_router_frame U h)"
      unfolding that [symmetric] by (rule router_frame_roundtrip [OF assms, symmetric])
    then show ?thesis
      unfolding router_frame_roundtrip [OF assms] by (rule option.inject [THEN iffD1])
  qed
  moreover have "parse_frame U members other t = Inr f" if "members t = Some (members_of_node_frame U f)"
    by (simp add: parse_frame_def that node_frame_roundtrip assms)
  ultimately show ?thesis
    using node_frame_roundtrip [OF assms] router_frame_roundtrip [OF assms] by blast
qed

text \<open>A UUID written in unary.\<close>

definition sample_uuid_text :: uuid_text where
  "sample_uuid_text =
     \<lparr>ut_show = (\<lambda>rid. replicate (unat rid) CHR ''x''), ut_parse = (\<lambda>s. Some (word_of_nat (length s)))\<rparr>"

theorem wire_roundtrip_witness:
  "parse_frame sample_uuid_text
     (\<lambda>_. Some [(''type'', JStr ''chunk''), (''rid'', JStr ''xxx''), (''data'', JStr ''hi'')]) (\<lambda>_. Inl []) [] =
   Inr (NodeChunk 3 ''hi'')"
proof -
  have laws: "uuid_laws sample_uuid_text"
    by (simp add: uuid_laws_def sample_uuid_text_def)
  have "members_of_node_frame sample_uuid_text (NodeChunk 3 ''hi'') =
      [(''type'', JStr ''chunk''), (''rid'', JStr ''xxx''), (''data'', JStr ''hi'')]"
    by (simp add: sample_uuid_text_def) (simp add: eval_nat_numeral)
  then show ?thesis
    using wire_roundtrip [OF laws, of "NodeChunk 3 ''hi''" _
        "\<lambda>_. Some [(''type'', JStr ''chunk''), (''rid'', JStr ''xxx''), (''data'', JStr ''hi'')]"] by simp
qed

end
