(* ===== verification/Models_Fetch.thy ===== *)
theory Models_Fetch
  imports Tunnel_Lifecycle Chain_Session "HOL-Library.Sublist"
begin

text \<open>
  Fetching the models of a node over its tunnel (\<open>fetch_models_from_tunnel\<close> and its callers in
  \<open>src/consumer/models.rs\<close>), with one step per await, while other requests use the same tunnel. The
  result is what \<open>refresh_tunnel\<close> takes.
\<close>

section \<open>The fetch\<close>

text \<open>One frame of the loop: it goes on with more of the body, or ends the fetch.\<close>

datatype fetch_loop = Proceed string | Break "string + string"

fun fetch_frame :: "string \<Rightarrow> inbound_frame \<Rightarrow> fetch_loop" where
  "fetch_frame body (Response status h) =
     (if status \<noteq> 200 then Break (Inl (''models returned status '' @ show_nat (unat status))) else Proceed body)"
| "fetch_frame body (Chunk d) = Proceed (body @ d)"
| "fetch_frame body (End status) =
     Break (if status = 200 then Inr body else Inl (''models end status '' @ show_nat (unat status)))"
| "fetch_frame body (Error code msg) = Break (Inl (''models error: '' @ msg))"
| "fetch_frame body (ActivateResponse k) = Proceed body"

text \<open>A fetch waits for frames on its channel, or has a result.\<close>

datatype fetch =
    Fetching uuid nat string
  | Fetched uuid "string + model_map"

definition start_fetch :: "uuid \<Rightarrow> node_tunnel \<Rightarrow> node_tunnel \<times> fetch" where
  "start_fetch rid t =
     (case forward_http_request rid ''GET'' ''/v1/models'' (JObj []) None t of
        (Inl e, t') \<Rightarrow> (t', Fetched rid (Inl e))
      | (Inr c, t') \<Rightarrow> (t', Fetching rid c []))"

definition end_fetch ::
  "(string \<Rightarrow> string + json) \<Rightarrow> uuid \<Rightarrow> nat \<Rightarrow> string + string \<Rightarrow> node_tunnel \<Rightarrow> node_tunnel \<times> fetch" where
  "end_fetch parse rid c r t = (drop_pending rid c t, Fetched rid (bind_sum r (parse_model_entries parse)))"

fun fetch_turn :: "(string \<Rightarrow> string + json) \<Rightarrow> node_tunnel \<times> fetch \<Rightarrow> (node_tunnel \<times> fetch) option" where
  "fetch_turn parse (t, Fetching rid c body) =
     (case recv_frame c t of
        (Got f, t') \<Rightarrow>
          Some (case fetch_frame body f of
                  Proceed body' \<Rightarrow> (t', Fetching rid c body')
                | Break r \<Rightarrow> end_fetch parse rid c r t')
      | (Closed, t') \<Rightarrow> Some (end_fetch parse rid c (Inr body) t')
      | (Blocked, t') \<Rightarrow> None)"
| "fetch_turn parse (t, Fetched rid r) = None"

fun fetch_timeout :: "(string \<Rightarrow> string + json) \<Rightarrow> node_tunnel \<times> fetch \<Rightarrow> (node_tunnel \<times> fetch) option" where
  "fetch_timeout parse (t, Fetching rid c body) =
     Some (end_fetch parse rid c (Inl ''models request timed out'') t)"
| "fetch_timeout parse (t, Fetched rid r) = None"

text \<open>Meanwhile the tunnel serves others: they have other request ids and read other channels.\<close>

datatype fetch_event = Meanwhile tunnel_event | FetchTurn | FetchTimeout

fun keeps_off :: "fetch \<Rightarrow> tunnel_event \<Rightarrow> bool" where
  "keeps_off (Fetching rid c body) (DropRequest rid' c') \<longleftrightarrow> rid' \<noteq> rid \<and> c' \<noteq> c"
| "keeps_off (Fetching rid c body) (Recv c') \<longleftrightarrow> c' \<noteq> c"
| "keeps_off (Fetching rid c body) (Register rid') \<longleftrightarrow> rid' \<noteq> rid"
| "keeps_off (Fetched rid r) (Register rid') \<longleftrightarrow> rid' \<noteq> rid"
| "keeps_off s e \<longleftrightarrow> True"

fun fetch_step ::
  "(string \<Rightarrow> string + json) \<Rightarrow> node_tunnel \<times> fetch \<Rightarrow> fetch_event \<Rightarrow> (node_tunnel \<times> fetch) option" where
  "fetch_step parse s FetchTurn = fetch_turn parse s"
| "fetch_step parse s FetchTimeout = fetch_timeout parse s"
| "fetch_step parse s (Meanwhile e) =
     (if keeps_off (snd s) e then map_option (\<lambda>t. (t, snd s)) (tunnel_step (fst s) e) else None)"

text \<open>On the router: the task that is spawned after the ready frame and by pongs.\<close>

definition spawn_tunnel_models_refresh :: "uuid \<Rightarrow> nat \<Rightarrow> router_state \<Rightarrow> router_state \<times> fetch" where
  "spawn_tunnel_models_refresh rid i rs =
     (case start_fetch rid (tunnel_at rs i) of (t, s) \<Rightarrow> (update_tunnel i (\<lambda>_. t) rs, s))"

section \<open>What reaches the fetch\<close>

text \<open>The frames of request \<open>rid\<close>, from the node or from the end of the tunnel.\<close>

fun sent_by :: "uuid \<Rightarrow> fetch_event \<Rightarrow> inbound_frame list" where
  "sent_by rid (Meanwhile (Inbound rid' f)) = (if rid' = rid then [f] else [])"
| "sent_by rid (Meanwhile FailAll) = [disconnect_error]"
| "sent_by rid _ = []"

definition sent_to :: "uuid \<Rightarrow> fetch_event list \<Rightarrow> inbound_frame list" where
  "sent_to rid es = concat (map (sent_by rid) es)"

lemma sent_to_simps [simp]:
  "sent_to rid [] = []"
  "sent_to rid (es @ [e]) = sent_to rid es @ sent_by rid e"
  by (simp_all add: sent_to_def)

lemma collect_models_frame:
  "collect_models body (f # fs) b =
    (case fetch_frame body f of Proceed body' \<Rightarrow> collect_models body' fs b | Break r \<Rightarrow> r)"
  by (cases f) simp_all

definition before_terminal :: "inbound_frame list \<Rightarrow> nat" where
  "before_terminal fs = length (takeWhile (\<lambda>f. \<not> is_terminal_frame f) fs)"

lemma before_terminal_mono: "before_terminal fs \<le> before_terminal (fs @ gs)"
  by (induction fs) (simp_all add: before_terminal_def)

lemma before_terminal_all:
  "list_all (\<lambda>f. \<not> is_terminal_frame f) fs \<Longrightarrow> length fs \<le> before_terminal (fs @ gs)"
  by (induction fs) (simp_all add: before_terminal_def)

definition only_user :: "uuid \<Rightarrow> nat \<Rightarrow> node_tunnel \<Rightarrow> bool" where
  "only_user rid c t \<longleftrightarrow> (\<forall>r. pending_lookup t r = Some c \<longrightarrow> r = rid)"

lemma only_user_shrinks:
  "only_user rid c t \<Longrightarrow> (\<And>r. pending_lookup u r = Some c \<Longrightarrow> pending_lookup t r = Some c) \<Longrightarrow> only_user rid c u"
  by (simp add: only_user_def)

text \<open>The frames \<open>got\<close> were read, those in the channel come next; while the request is registered nothing
  is missing, and it is unregistered only by a terminal frame or by a full channel.\<close>

definition fetch_link :: "uuid \<Rightarrow> nat \<Rightarrow> inbound_frame list \<Rightarrow> node_tunnel \<Rightarrow> inbound_frame list \<Rightarrow> bool" where
  "fetch_link rid c got t sent \<longleftrightarrow>
     tunnel_wf t \<and> c < length (tn_channels t) \<and> ch_open (tn_channels t ! c) \<and>
     only_user rid c t \<and>
     (case pending_lookup t rid of
        Some c' \<Rightarrow> c' = c \<and> got @ ch_buf (tn_channels t ! c) = sent \<and>
          list_all (\<lambda>f. \<not> is_terminal_frame f) sent
      | None \<Rightarrow> prefix (got @ ch_buf (tn_channels t ! c)) sent \<and>
          ((\<exists>f \<in> set (got @ ch_buf (tn_channels t ! c)). is_terminal_frame f) \<or>
           channel_capacity \<le> before_terminal sent))"

lemma fetch_link_unregistered:
  assumes "fetch_link rid c got t sent" "pending_lookup t rid = None"
    and "tunnel_wf u" "tn_channels u ! c = tn_channels t ! c" "length (tn_channels t) \<le> length (tn_channels u)"
    and "pending_lookup u rid = None" "only_user rid c u"
  shows "fetch_link rid c got u (sent @ fs)"
  using assms before_terminal_mono [of sent fs]
  by (auto simp: fetch_link_def intro: order_trans)

lemma fetch_link_elsewhere:
  assumes link: "fetch_link rid c got t sent" and wf: "tunnel_wf u"
    and same: "tn_channels u ! c = tn_channels t ! c" "length (tn_channels t) \<le> length (tn_channels u)"
      "pending_lookup u rid = pending_lookup t rid"
    and shrinks: "\<And>r. pending_lookup u r = Some c \<Longrightarrow> pending_lookup t r = Some c"
  shows "fetch_link rid c got u sent"
proof -
  have "only_user rid c u"
    using only_user_shrinks [OF _ shrinks] link by (simp add: fetch_link_def)
  then show ?thesis
    using link wf same(2) unfolding fetch_link_def same by auto
qed

lemma fetch_link_frame:
  assumes link: "fetch_link rid c got t sent"
  shows "fetch_link rid c got (route_inbound rid f t) (sent @ [f])"
proof -
  have wf: "tunnel_wf (route_inbound rid f t)"
    using link tunnel_wf_route by (simp add: fetch_link_def)
  show ?thesis
  proof (cases "pending_lookup t rid")
    case None
    then have "route_inbound rid f t = t"
      by (simp add: route_inbound_def)
    with fetch_link_unregistered [OF link None, of t] None link show ?thesis
      by (auto simp: fetch_link_def)
  next
    case (Some c')
    with link have c: "c' = c" "got @ ch_buf (tn_channels t ! c) = sent" "c < length (tn_channels t)"
      "list_all (\<lambda>f. \<not> is_terminal_frame f) sent" "ch_open (tn_channels t ! c)"
      "length (ch_buf (tn_channels t ! c)) \<le> channel_capacity"
      using tunnel_wf_bufD by (auto simp: fetch_link_def)
    let ?ch = "tn_channels t ! c" and ?u = "route_inbound rid f t"
    have only: "only_user rid c t"
      using link by (simp add: fetch_link_def)
    show ?thesis
    proof (cases rule: route_inbound_cases [of t rid f])
      case (sent d)
      then have u: "tn_channels ?u ! c = push f ?ch" "length (tn_channels ?u) = length (tn_channels t)"
        "pending_lookup ?u r = (if is_terminal_frame f \<and> r = rid then None else pending_lookup t r)" for r
        using Some c(1,3) by (simp_all add: pend.table_laws)
      have "got @ ch_buf (push f ?ch) = sent @ [f]"
        using c(2) by (simp add: push_def)
      moreover have "ch_open (push f ?ch)"
        using c(5) by (simp add: push_def)
      moreover have "only_user rid c ?u"
        by (rule only_user_shrinks [OF only]) (simp add: u(3) split: if_splits)
      ultimately show ?thesis
        using wf c(3,4) Some c(1) by (cases "is_terminal_frame f") (simp_all add: fetch_link_def u)
    next
      case (refused d)
      then have full: "length (ch_buf ?ch) = channel_capacity"
        using Some c(1,5,6) by (simp add: can_send_def)
      then have "channel_capacity \<le> length sent"
        using c(2) by auto
      also have "\<dots> \<le> before_terminal (sent @ [f])"
        by (rule before_terminal_all [OF c(4)])
      finally show ?thesis
        using wf only_user_shrinks [OF only, of "pending_remove rid t"] c(2,3,5) refused(3)
        by (fastforce simp: fetch_link_def pend.table_laws split: if_splits)
    qed (use Some in simp)
  qed
qed


lemma fetch_link_other:
  assumes link: "fetch_link rid c got t sent" and r: "rid' \<noteq> rid"
  shows "fetch_link rid c got (route_inbound rid' f t) sent"
proof (rule fetch_link_elsewhere [OF link])
  let ?u = "route_inbound rid' f t"
  have only: "only_user rid c t"
    using link by (simp add: fetch_link_def)
  have other: "pending_lookup t rid' = Some d \<Longrightarrow> d \<noteq> c" for d
    using only r by (auto simp: only_user_def)
  show "tunnel_wf ?u"
    using link tunnel_wf_route by (simp add: fetch_link_def)
  show "tn_channels ?u ! c = tn_channels t ! c" "length (tn_channels t) \<le> length (tn_channels ?u)"
    "pending_lookup ?u rid = pending_lookup t rid"
    using other r by (cases rule: route_inbound_cases [of t rid' f]; simp add: pend.table_laws)+
  show "pending_lookup ?u x = Some c \<Longrightarrow> pending_lookup t x = Some c" for x
    by (cases rule: route_inbound_cases [of t rid' f]) (simp_all add: pend.table_laws split: if_splits)
qed

lemma fetch_link_register:
  assumes link: "fetch_link rid c got t sent" and r: "rid' \<noteq> rid"
  shows "fetch_link rid c got (snd (register_pending rid' t)) sent"
proof (rule fetch_link_elsewhere [OF link])
  let ?u = "snd (register_pending rid' t)"
  have c: "c < length (tn_channels t)"
    using link by (simp add: fetch_link_def)
  have u: "tn_channels ?u = tn_channels t @ [\<lparr>ch_buf = [], ch_open = True\<rparr>]"
    "pending_lookup ?u x = (if x = rid' then Some (length (tn_channels t)) else pending_lookup t x)" for x
    by (simp_all add: register_pending_def Let_def pend.table_laws) (simp add: pending_insert_def)
  show "tunnel_wf ?u"
    using link tunnel_wf_register by (simp add: fetch_link_def)
  show "tn_channels ?u ! c = tn_channels t ! c" "length (tn_channels t) \<le> length (tn_channels ?u)"
    "pending_lookup ?u rid = pending_lookup t rid" "pending_lookup ?u x = Some c \<Longrightarrow> pending_lookup t x = Some c" for x
    using c r by (simp_all add: u nth_append split: if_splits)
qed

lemma length_send_all [simp]: "length (tn_channels (send_all f ps t)) = length (tn_channels t)"
  by (induction ps arbitrary: t) (auto simp: send_all_def try_send_def split: option.split)

lemma fetch_link_fail:
  assumes link: "fetch_link rid c got t sent"
  shows "fetch_link rid c got (fail_all_pending t) (sent @ [disconnect_error])"
proof -
  let ?u = "fail_all_pending t" and ?ch = "tn_channels t ! c"
  have wf: "tunnel_wf t" "tunnel_wf ?u" and c: "c < length (tn_channels t)" "ch_open ?ch"
    using link tunnel_wf_fail by (simp_all add: fetch_link_def)
  have none: "pending_lookup ?u x = None" for x
    by (simp add: fail_all_pending_alt pending_lookup_def)
  then have only: "only_user rid c ?u"
    by (simp add: only_user_def)
  have chans: "tn_channels ?u ! c = (if c \<in> snd ` set (tn_pending t) \<and> can_send ?ch then push disconnect_error ?ch else ?ch)"
    and len: "length (tn_channels ?u) = length (tn_channels t)"
    using send_all_channel [of "tn_pending t" t disconnect_error c] wf(1)
    by (simp_all add: fail_all_pending_alt tunnel_wf_def)
  have terminal: "is_terminal_frame disconnect_error"
    by (simp add: disconnect_error_def)
  show ?thesis
  proof (cases "pending_lookup t rid")
    case None
    then have "c \<notin> snd ` set (tn_pending t)"
      using link wf(1) by (auto simp: fetch_link_def only_user_def pending_lookup_def tunnel_wf_def)
    with fetch_link_unregistered [OF link None wf(2) _ _ none only] chans len show ?thesis by simp
  next
    case (Some d)
    with link have d: "d = c" "got @ ch_buf ?ch = sent" "list_all (\<lambda>f. \<not> is_terminal_frame f) sent"
      by (simp_all add: fetch_link_def)
    from Some d(1) have "c \<in> snd ` set (tn_pending t)"
      by (force simp: pending_lookup_def dest: map_of_SomeD)
    show ?thesis
    proof (cases "can_send ?ch")
      case True
      then have "tn_channels ?u ! c = push disconnect_error ?ch"
        using chans \<open>c \<in> _\<close> by simp
      moreover have "got @ ch_buf (push disconnect_error ?ch) = sent @ [disconnect_error]"
        using d(2) by (simp add: push_def)
      ultimately show ?thesis
        using wf(2) only c len terminal by (simp add: fetch_link_def none) (simp add: push_def)
    next
      case False
      then have "channel_capacity \<le> length sent"
        using c(2) tunnel_wf_bufD [OF wf(1) c(1)] d(2) by (auto simp: can_send_def)
      also have "\<dots> \<le> before_terminal (sent @ [disconnect_error])"
        by (rule before_terminal_all [OF d(3)])
      finally show ?thesis
        using wf(2) only c len chans False d(2) by (simp add: fetch_link_def none prefixI)
    qed
  qed
qed

lemma fetch_link_meanwhile:
  assumes "fetch_link rid c got t sent" "keeps_off (Fetching rid c body) e" "tunnel_step t e = Some u"
  shows "fetch_link rid c got u (sent @ sent_by rid (Meanwhile e))"
proof -
  have wf: "tunnel_wf u"
    using tunnel.inv_step [OF _ assms(3)] assms(1) by (simp add: fetch_link_def)
  show ?thesis
  proof (cases e)
    case (DropRequest rid' c')
    then have "fetch_link rid c got u sent"
      using assms(2,3) by (intro fetch_link_elsewhere [OF assms(1) wf])
        (auto simp: drop_pending_def pend.table_laws split: if_splits)
    then show ?thesis by (simp add: DropRequest)
  next
    case (Recv c')
    then have "fetch_link rid c got u sent"
      using assms(2,3) by (intro fetch_link_elsewhere [OF assms(1) wf])
        (auto simp: recv_frame_def split: list.splits)
    then show ?thesis by (simp add: Recv)
  next
    case (Touch now)
    then have "fetch_link rid c got u sent"
      using assms(3) by (intro fetch_link_elsewhere [OF assms(1) wf]) (auto simp: touch_pong_def pending_lookup_def)
    then show ?thesis by (simp add: Touch)
  qed (use assms in \<open>auto simp: fetch_link_register fetch_link_frame fetch_link_other fetch_link_fail\<close>)
qed


section \<open>What the fetch makes of it\<close>

fun closes :: "inbound_frame \<Rightarrow> bool" where
  "closes (Response status h) \<longleftrightarrow> status \<noteq> 200"
| "closes (Chunk d) \<longleftrightarrow> False"
| "closes f \<longleftrightarrow> True"

lemma closes_alt: "is_terminal_frame f \<Longrightarrow> closes f" "fetch_frame body f = Break r \<Longrightarrow> closes f"
  by (cases f; auto split: if_splits)+

text \<open>\<open>late\<close>: whether the timeout came.\<close>

definition fetch_result ::
  "(string \<Rightarrow> string + json) \<Rightarrow> inbound_frame list \<Rightarrow> bool \<Rightarrow> string + model_map \<Rightarrow> bool" where
  "fetch_result parse sent late r \<longleftrightarrow>
     (\<exists>got b. prefix got sent \<and> r = fetch_models parse got b \<and> (b \<longrightarrow> late) \<and>
       (\<not> b \<longrightarrow> list_ex closes got \<or> channel_capacity \<le> before_terminal sent))"

fun fetch_inv :: "(string \<Rightarrow> string + json) \<Rightarrow> uuid \<Rightarrow> inbound_frame list \<Rightarrow> bool \<Rightarrow> node_tunnel \<times> fetch \<Rightarrow> bool" where
  "fetch_inv parse rid sent late (t, Fetching rid' c body) \<longleftrightarrow>
     rid' = rid \<and> (\<exists>got. fetch_link rid c got t sent \<and>
       (\<forall>fs b. collect_models [] (got @ fs) b = collect_models body fs b))"
| "fetch_inv parse rid sent late (t, Fetched rid' r) \<longleftrightarrow>
     rid' = rid \<and> pending_lookup t rid = None \<and> fetch_result parse sent late r"

lemma fetch_result_mono:
  "fetch_result parse sent late r \<Longrightarrow> fetch_result parse (sent @ fs) (late \<or> l) r"
  unfolding fetch_result_def using before_terminal_mono [of sent fs]
  by (metis order_trans prefix_append)

lemma fetch_link_prefix: "fetch_link rid c got t sent \<Longrightarrow> prefix (got @ ch_buf (tn_channels t ! c)) sent"
  by (auto simp: fetch_link_def split: option.splits)

lemma fetch_models_collected: "fetch_models parse fs b = bind_sum (collect_models [] fs b) (parse_model_entries parse)"
  by (simp add: fetch_models_def bind_sum_def)

lemma drop_pending_gone [simp]: "pending_lookup (drop_pending rid c t) rid = None"
  by (simp add: drop_pending_def pend.table_laws)

lemma fetch_inv_turn:
  assumes inv: "fetch_inv parse rid sent late s" and turn: "fetch_turn parse s = Some s'"
  shows "fetch_inv parse rid sent late s'"
proof (cases "(parse, s)" rule: fetch_turn.cases)
  case (1 p t rid' c body)
  then obtain got where s: "s = (t, Fetching rid c body)" and link: "fetch_link rid c got t sent"
    and body: "\<And>fs b. collect_models [] (got @ fs) b = collect_models body fs b"
    using inv by auto
  let ?ch = "tn_channels t ! c"
  show ?thesis
  proof (cases "ch_buf ?ch")
    case Nil
    then have "s' = end_fetch parse rid c (Inr body) t" "c \<notin> snd ` set (tn_pending t)"
      using turn s by (auto simp: recv_frame_def split: if_splits)
    moreover from this have "pending_lookup t rid \<noteq> Some c"
      by (force simp: pending_lookup_def dest: map_of_SomeD)
    then have "pending_lookup t rid = None"
      using link by (auto simp: fetch_link_def split: option.splits)
    then have "prefix got sent" "list_ex closes got \<or> channel_capacity \<le> before_terminal sent"
      using link Nil closes_alt(1) by (auto simp: fetch_link_def list_ex_iff)
    ultimately show ?thesis
      using body [of "[]" False]
      by (auto simp: end_fetch_def fetch_result_def fetch_models_collected intro!: exI [of _ got] exI [of _ False])
  next
    case (Cons f fs)
    define t' where "t' = t\<lparr>tn_channels := (tn_channels t)[c := ?ch\<lparr>ch_buf := fs\<rparr>]\<rparr>"
    have recv: "recv_frame c t = (Got f, t')"
      using Cons by (simp add: recv_frame_def t'_def)
    have c: "c < length (tn_channels t)" and wf: "tunnel_wf t'"
      using link tunnel_wf_recv [of t c] recv by (simp_all add: fetch_link_def)
    then have ch: "tn_channels t' ! c = ?ch\<lparr>ch_buf := fs\<rparr>" "length (tn_channels t') = length (tn_channels t)"
      "pending_lookup t' = pending_lookup t"
      by (simp_all add: t'_def fun_eq_iff)
    have same: "only_user rid c t' = only_user rid c t"
      by (simp only: only_user_def ch(3))
    have "fetch_link rid c (got @ [f]) t' sent"
      using link wf Cons unfolding fetch_link_def ch by (simp add: same split: option.splits)
    moreover have "prefix (got @ [f]) sent"
      using fetch_link_prefix [OF link] Cons by (metis append_prefixD append_assoc append_Cons append_Nil)
    moreover have coll: "collect_models [] ((got @ [f]) @ gs) b =
        (case fetch_frame body f of Proceed body' \<Rightarrow> collect_models body' gs b | Break r \<Rightarrow> r)" for gs b
      using body [of "f # gs" b] by (simp add: collect_models_frame)
    ultimately show ?thesis
      using turn s recv closes_alt(2) [of body f] coll [of "[]" False, unfolded append_Nil2]
      by (auto simp: end_fetch_def fetch_result_def fetch_models_collected simp del: append_assoc
          intro!: exI [of _ "got @ [f]"] exI [of _ False] split: fetch_loop.splits)
  qed
qed (use turn in simp)

lemma fetch_inv_timeout:
  assumes inv: "fetch_inv parse rid sent late s" and run: "fetch_timeout parse s = Some s'"
  shows "fetch_inv parse rid sent True s'"
proof (cases "(parse, s)" rule: fetch_timeout.cases)
  case (1 p t rid' c body)
  then obtain got where s: "s = (t, Fetching rid c body)" and link: "fetch_link rid c got t sent"
    and body: "\<And>fs b. collect_models [] (got @ fs) b = collect_models body fs b"
    using inv by auto
  have "prefix got sent"
    using fetch_link_prefix [OF link] by (rule append_prefixD)
  then show ?thesis
    using run s body [of "[]" True]
    by (auto simp: end_fetch_def fetch_result_def fetch_models_collected intro!: exI [of _ got] exI [of _ True])
qed (use run in simp)

lemma unregistered_stays:
  assumes "pending_lookup t rid = None" "keeps_off (Fetched rid r) e" "tunnel_step t e = Some u"
  shows "pending_lookup u rid = None"
proof (cases e)
  case (Inbound rid' f)
  with assms show ?thesis
    by (cases rule: route_inbound_cases [of t rid' f]) (auto simp: pend.table_laws)
next
  case (Recv c)
  with assms show ?thesis by (auto simp: recv_frame_def split: list.splits)
qed (use assms in \<open>auto simp: register_pending_def drop_pending_def pend.table_laws touch_pong_def pending_lookup_def
    fail_all_pending_def pending_insert_def pending_remove_def update_conv' delete_conv' Let_def\<close>)

lemma fetch_inv_step:
  assumes inv: "fetch_inv parse rid sent late s" and step: "fetch_step parse s e = Some s'"
  shows "fetch_inv parse rid (sent @ sent_by rid e) (late \<or> e = FetchTimeout) s'"
proof (cases e)
  case FetchTurn
  with assms fetch_inv_turn show ?thesis by simp
next
  case FetchTimeout
  with assms fetch_inv_timeout show ?thesis by simp
next
  case (Meanwhile te)
  with step obtain t u f where s: "s = (t, f)" "s' = (u, f)" "keeps_off f te" "tunnel_step t te = Some u"
    by (cases s) (auto split: if_splits)
  show ?thesis
  proof (cases f)
    case (Fetching rid' c body)
    with inv s(1) obtain got where rid: "rid' = rid" and link: "fetch_link rid c got t sent"
      and body: "\<forall>fs b. collect_models [] (got @ fs) b = collect_models body fs b"
      by auto
    from s(3) have off: "keeps_off (Fetching rid c body) te"
      by (simp add: Fetching rid)
    from fetch_link_meanwhile [OF link off s(4)] body show ?thesis
      by (simp add: s(2) Fetching rid Meanwhile) blast
  next
    case (Fetched rid' r)
    with inv s(1) have "rid' = rid" "pending_lookup t rid = None" "fetch_result parse sent late r"
      by simp_all
    with unregistered_stays [of t rid r te u] fetch_result_mono [of parse sent late r _ False] s(3,4) show ?thesis
      by (simp add: s(2) Fetched Meanwhile)
  qed
qed


lemma fetch_inv_run:
  "fetch_inv parse rid sent late s \<Longrightarrow> run_steps (fetch_step parse) s es = Some s' \<Longrightarrow>
    fetch_inv parse rid (sent @ sent_to rid es) (late \<or> FetchTimeout \<in> set es) s'"
proof (induction es arbitrary: s sent late)
  case (Cons e es)
  then obtain u where u: "fetch_step parse s e = Some u" "run_steps (fetch_step parse) u es = Some s'"
    by (auto split: option.splits)
  from Cons.IH [OF fetch_inv_step [OF Cons.prems(1) u(1)] u(2)] show ?case
    by (simp add: sent_to_def disj_assoc eq_commute)
qed (simp add: sent_to_def)

lemma start_fetch_inv:
  assumes "tunnel_wf t" "tn_writer_open t"
  shows "fetch_inv parse rid [] False (start_fetch rid t)"
proof -
  obtain c u where fw: "forward_http_request rid ''GET'' ''/v1/models'' (JObj []) None t = (Inr c, u)"
    using assms(2) by (simp add: forward_http_request_def send_frame_def register_pending_def pending_insert_def Let_def)
  have wf: "tunnel_wf u"
    using forward_wf(1) [OF assms(1)] fw by (metis snd_conv)
  note reg = forward_registers [OF fw]
  have "only_user rid c u"
    using channel_of_routed [OF wf] reg(1) unfolding only_user_def routed_def by (metis injD)
  then have "fetch_link rid c [] u []"
    using wf reg tunnel_wfD(1) [OF wf reg(1)] by (simp add: fetch_link_def)
  then show ?thesis
    using fw by (auto simp: start_fetch_def intro!: exI [of _ "[]"])
qed

lemma answer_before_terminal:
  "before_terminal (Response 200 h # map Chunk ds @ End e # fs) = Suc (length ds)"
  by (induction ds) (simp_all add: before_terminal_def)

lemma prefix_with_close:
  "prefix got (Response 200 h # map Chunk ds @ End e # fs) \<Longrightarrow> list_ex closes got \<Longrightarrow>
    prefix (Response 200 h # map Chunk ds @ [End e]) got"
proof -
  have "prefix got (map Chunk ds @ End e # fs) \<Longrightarrow> list_ex closes got \<Longrightarrow> prefix (map Chunk ds @ [End e]) got" for got
    by (induction ds arbitrary: got) (auto simp: prefix_Cons)
  then show "prefix got (Response 200 h # map Chunk ds @ End e # fs) \<Longrightarrow> list_ex closes got \<Longrightarrow> ?thesis"
    by (auto simp: prefix_Cons)
qed

text \<open>C16: What a refresh installs is what the node sent for it. Whatever else goes on in the tunnel while the
  models are fetched, the result is read from the first frames that the node, or the end of the tunnel, sent
  for this request, and the request is no longer registered when the result is there; and when the node
  answers in full, no more than fits in the channel, and the timeout does not come, the result is the
  parsed body put together from its chunks.\<close>

theorem refresh_reads_own_frames:
  assumes "tunnel_wf t" "tn_writer_open t"
    and "run_steps (fetch_step parse) (start_fetch rid t) es = Some (t', Fetched rid' r)"
  shows "pending_lookup t' rid = None \<and>
    (\<exists>fs b. prefix fs (sent_to rid es) \<and> r = fetch_models parse fs b \<and> (b \<longrightarrow> FetchTimeout \<in> set es)) \<and>
    (\<forall>h ds late. sent_to rid es = Response 200 h # map Chunk ds @ End 200 # late \<longrightarrow>
      length ds + 2 \<le> channel_capacity \<longrightarrow> FetchTimeout \<notin> set es \<longrightarrow> r = parse_model_entries parse (concat ds))"
proof -
  have inv: "pending_lookup t' rid = None" "fetch_result parse (sent_to rid es) (FetchTimeout \<in> set es) r"
    using fetch_inv_run [OF start_fetch_inv [OF assms(1,2)] assms(3)] by simp_all
  then obtain got b where got: "prefix got (sent_to rid es)" "r = fetch_models parse got b" "b \<longrightarrow> FetchTimeout \<in> set es"
    "\<not> b \<longrightarrow> list_ex closes got \<or> channel_capacity \<le> before_terminal (sent_to rid es)"
    by (auto simp: fetch_result_def)
  have "r = parse_model_entries parse (concat ds)"
    if sent: "sent_to rid es = Response 200 h # map Chunk ds @ End 200 # late"
      and "length ds + 2 \<le> channel_capacity" "FetchTimeout \<notin> set es" for h ds late
  proof -
    have "list_ex closes got" and b: "\<not> b"
      using got(3,4) that by (auto simp: answer_before_terminal)
    with got(1) sent obtain rest where "got = (Response 200 h # map Chunk ds) @ End 200 # rest"
      using prefix_with_close by (fastforce elim: prefixE)
    moreover have "list_all quiet (Response 200 h # map Chunk ds)"
      by (simp add: list_all_iff quiet_def)
    moreover have "body_of (Response 200 h # map Chunk ds) = concat ds"
      by (induction ds) simp_all
    ultimately show ?thesis
      using collect_models_quiet [of "Response 200 h # map Chunk ds" "[]" "End 200 # rest" b]
      by (simp add: got(2) fetch_models_def)
  qed
  with inv(1) got(1-3) show ?thesis by blast
qed


text \<open>A node answers the fetch while it also streams for request 5.\<close>

definition sample_fetch_events :: "fetch_event list" where
  "sample_fetch_events =
     [Meanwhile (Register 5), Meanwhile (Inbound 1 (Response 200 JNull)), FetchTurn, Meanwhile (Inbound 5 (Chunk ''z'')),
      Meanwhile (Inbound 1 (Chunk ''ab'')), Meanwhile (Recv 1), Meanwhile (Inbound 1 (Chunk ''c'')),
      FetchTurn, Meanwhile (Inbound 1 (End 200)), FetchTurn, FetchTurn]"

theorem refresh_reads_own_frames_witness:
  "\<exists>t'. run_steps (fetch_step (\<lambda>s. Inl s)) (start_fetch 1 (new_tunnel 100 0 (replicate 32 7) None)) sample_fetch_events =
    Some (t', Fetched 1 (parse_model_entries (\<lambda>s. Inl s) ''abc''))"
proof -
  let ?t = "new_tunnel 100 0 (replicate 32 7) None" and ?parse = "\<lambda>s. Inl s"
  obtain t' r where run: "run_steps (fetch_step ?parse) (start_fetch 1 ?t) sample_fetch_events = Some (t', Fetched 1 r)"
    by (simp add: sample_fetch_events_def start_fetch_def forward_http_request_def register_pending_def send_frame_def
        new_tunnel_def pending_insert_def route_inbound_def pending_lookup_def pending_remove_def try_send_def
        can_send_def push_def channel_capacity_def recv_frame_def end_fetch_def drop_pending_def Let_def)
  have sent: "sent_to 1 sample_fetch_events = Response 200 JNull # map Chunk [''ab'', ''c''] @ End 200 # []"
    by (simp add: sent_to_def sample_fetch_events_def)
  have "tn_writer_open ?t"
    by (simp add: new_tunnel_def)
  from refresh_reads_own_frames [OF tunnel.inv_start this run, THEN conjunct2, THEN conjunct2, rule_format, OF sent]
  have "r = parse_model_entries ?parse (concat [''ab'', ''c''])"
    by (simp add: channel_capacity_def sample_fetch_events_def)
  with run show ?thesis by auto
qed

section \<open>The fetch on the router\<close>

text \<open>Its steps are events of the router's system, so what holds of that system holds of it.\<close>

lemma update_tunnel_twice [simp]:
  "i < length (rs_store rs) \<Longrightarrow> update_tunnel i f (update_tunnel i g rs) = update_tunnel i (f \<circ> g) rs"
  by (simp add: update_tunnel_def)

lemma start_fetch_run:
  assumes "i < length (rs_store rs)"
  shows "router_step X cfg rs (Forward i rid ''GET'' ''/v1/models'' (JObj []) None) =
    Some (fst (spawn_tunnel_models_refresh rid i rs))"
  using assms
  by (auto simp: spawn_tunnel_models_refresh_def start_fetch_def update_tunnel_def tunnel_at_def split: prod.split sum.split)

lemma fetch_turn_run:
  assumes "i < length (rs_store rs)" "tunnel_at rs i = t" "fetch_turn parse (t, Fetching rid c body) = Some (u, s)"
  shows "run_steps (router_step X cfg) rs
      (case s of Fetching rid' c' body' \<Rightarrow> [Receive i c] | Fetched rid' r \<Rightarrow> [Receive i c, DropPending i rid c]) =
    Some (update_tunnel i (\<lambda>_. u) rs)"
  using assms
  by (auto simp: end_fetch_def update_tunnel_def tunnel_at_def recv_frame_def
      split: recv_result.splits fetch_loop.splits list.splits if_splits)

text \<open>When the fetch has its result, \<open>refresh_tunnel\<close> installs it.\<close>

lemma fetched_installs:
  assumes "fetch_result parse sent late (Inr ms)" "i < length (rs_store rs)"
    and "rebuild_union enc now ((rs_models rs)\<lparr>mc_by_node := AList.update (tn_node_id (tunnel_at rs i)) ms (mc_by_node (rs_models rs))\<rparr>) \<noteq> None"
  shows "map_of (mc_by_node (rs_models (fst (refresh_tunnel enc now i (Inr ms) rs)))) (tn_node_id (tunnel_at rs i)) = Some ms \<and>
    object_entries ms \<and> \<not> snd (refresh_tunnel enc now i (Inr ms) rs)"
proof -
  obtain got b where "Inr ms = fetch_models parse got b"
    using assms(1) by (auto simp: fetch_result_def)
  then obtain body where "parse_model_entries parse body = Inr ms"
    by (auto simp: fetch_models_def split: sum.splits)
  then have "object_entries ms"
    by (rule parse_model_entries_objects)
  with assms(2,3) show ?thesis
    by (auto simp: refresh_tunnel_def upsert_node_def rebuild_union_def update_tunnel_def tunnel_at_def Let_def update_conv'
        split: option.splits)
qed

end
