(* ===== verification/Mock_Node.thy ===== *)
theory Mock_Node
  imports Wire_Format Models_Fetch Http_Api "HOL-Library.Multiset"
begin

text \<open>
  The repository's own client of the wire protocol (\<open>tests/mock_node.rs\<close>) against the router: what
  the mock node makes of the frames the router sends, and the router of the texts the mock node sends. The
  texts go through the JSON package, whose documented behaviour on objects like the frames' is \<open>json_laws\<close>: an
  object reads back with the same members, in some order.
\<close>

section \<open>Texts\<close>

record json_text =
  jt_parse :: "string \<Rightarrow> string + json"
  jt_print :: "json \<Rightarrow> string"
  jt_members :: "string \<Rightarrow> (string \<times> json) list option"
  jt_uuid :: uuid_text
  jt_other_node :: "string \<Rightarrow> string + node_frame"
  jt_other_router :: "json \<Rightarrow> string + router_frame"
  jt_other_text :: "string \<Rightarrow> string + router_frame"

fun scalar :: "json \<Rightarrow> bool" where
  "scalar (JArr vs) = False"
| "scalar (JObj kvs) = False"
| "scalar v = True"

text \<open>The values of the frames' members: texts, numbers and the like, or an object with one of them.\<close>

fun plain :: "json \<Rightarrow> bool" where
  "plain (JArr vs) = (vs = [])"
| "plain (JObj kvs) = (case kvs of [] \<Rightarrow> True | [kv] \<Rightarrow> scalar (snd kv) | _ \<Rightarrow> False)"
| "plain v = True"

definition flat_members :: "(string \<times> json) list \<Rightarrow> bool" where
  "flat_members kvs \<longleftrightarrow> distinct (map fst kvs) \<and> list_all (\<lambda>kv. plain (snd kv)) kvs"

definition json_laws :: "json_text \<Rightarrow> bool" where
  "json_laws J \<longleftrightarrow>
     (\<forall>kvs. flat_members kvs \<longrightarrow>
       (\<exists>kvs'. mset kvs' = mset kvs \<and> jt_parse J (jt_print J (JObj kvs)) = Inr (JObj kvs')) \<and>
       (\<exists>kvs'. mset kvs' = mset kvs \<and> jt_members J (jt_print J (JObj kvs)) = Some kvs'))"

text \<open>The order of the members does not matter to the readers.\<close>

lemma unique_member:
  "distinct (map fst kvs) \<Longrightarrow> length (filter (\<lambda>kv. fst kv = k) kvs) \<le> 1"
  by (induction kvs) (auto simp: filter_empty_conv image_iff)

lemma short_list_reordered:
  assumes "mset xs = mset ys" "length ys \<le> 1"
  shows "xs = ys"
  using assms by (cases ys) auto

lemma field_of_reordered:
  assumes "mset kvs' = mset kvs" "distinct (map fst kvs)"
  shows "field_of k kvs' = field_of k kvs"
proof -
  have "filter (\<lambda>kv. fst kv = k) kvs' = filter (\<lambda>kv. fst kv = k) kvs"
    using assms by (intro short_list_reordered unique_member) simp_all
  then show ?thesis by (simp add: field_of_def)
qed

lemma map_of_reordered:
  assumes "mset kvs' = mset kvs" "distinct (map fst kvs)"
  shows "map_of kvs' = map_of kvs"
  using assms map_of_inject_set [of kvs' kvs] mset_eq_setD [OF assms(1)]
  by (metis mset_eq_imp_distinct_iff mset_map)

lemma need_reordered:
  assumes "mset kvs' = mset kvs" "distinct (map fst kvs)"
  shows "need read k kvs' = need read k kvs" "optional_text k kvs' = optional_text k kvs"
    "value_or_null k kvs' = value_or_null k kvs"
  by (simp_all add: need_def optional_text_def value_or_null_def field_of_reordered [OF assms])

lemma frame_reordered:
  assumes "mset kvs' = mset kvs" "distinct (map fst kvs)"
  shows "node_frame_of_members U kvs' = node_frame_of_members U kvs"
    "router_frame_of_members U kvs' = router_frame_of_members U kvs"
  by (simp_all add: node_frame_of_members_def router_frame_of_members_def need_reordered [OF assms] cong: if_cong)

section \<open>The mock node\<close>

record 'sk signing_package =
  sp_from_secret :: "bytes \<Rightarrow> 'sk"
  sp_public :: "'sk \<Rightarrow> bytes"
  sp_sign :: "'sk \<Rightarrow> bytes \<Rightarrow> bytes"

record 'sk mock_node_keys =
  mk_signing_key :: 'sk
  mk_node_id :: node_id
  mk_pubkey_hex :: string

definition generate_keys :: "'vk externals \<Rightarrow> 'sk signing_package \<Rightarrow> (nat \<Rightarrow> bytes) \<Rightarrow> 'sk mock_node_keys" where
  "generate_keys X P fill_bytes =
     (let signing_key = sp_from_secret P (fill_bytes 32); pubkey = sp_public P signing_key in
      \<lparr>mk_signing_key = signing_key, mk_node_id = node_id_from_ed25519_pubkey (x_keccak X) pubkey,
       mk_pubkey_hex = x_enc X pubkey\<rparr>)"

text \<open>The wait for a text never ends when the stream does.\<close>

fun recv_json :: "json_text \<Rightarrow> ws_message list \<Rightarrow> ((string + json) \<times> ws_message list) option" where
  "recv_json J [] = None"
| "recv_json J (WsText t # ms) = Some (jt_parse J t, ms)"
| "recv_json J (_ # ms) = recv_json J ms"

definition frame_of_value :: "json_text \<Rightarrow> json \<Rightarrow> string + router_frame" where
  "frame_of_value J v =
     (case v of
        JObj kvs \<Rightarrow>
          (case router_frame_of_members (jt_uuid J) kvs of None \<Rightarrow> Inl ''invalid frame'' | Some f \<Rightarrow> Inr f)
      | _ \<Rightarrow> jt_other_router J v)"

definition auth_members ::
  "'vk externals \<Rightarrow> 'sk signing_package \<Rightarrow> 'sk mock_node_keys \<Rightarrow> string option \<Rightarrow> bytes \<Rightarrow> u64 \<Rightarrow> (string \<times> json) list" where
  "auth_members X P keys moniker nonce block =
     (let payload = connect_challenge_payload (x_keccak X) nonce block;
          sig = sp_sign P (mk_signing_key keys) payload in
      [(''type'', JStr ''auth''), (''node_id'', JStr (''0x'' @ x_enc X (mk_node_id keys))),
       (''signature'', JStr (x_enc X sig)), (''ed25519_pubkey'', JStr (mk_pubkey_hex keys))] @
      (case map_option trim moniker of
         None \<Rightarrow> []
       | Some m \<Rightarrow> if m \<noteq> [] then [(''moniker'', JStr m)] else []))"

text \<open>The nonce is copied into 32 bytes; more of them make the slice panic (\<open>None\<close>).\<close>

definition answer_challenge ::
  "'vk externals \<Rightarrow> 'sk signing_package \<Rightarrow> json_text \<Rightarrow> 'sk mock_node_keys \<Rightarrow> string option \<Rightarrow> json \<Rightarrow>
   (string + string) option" where
  "answer_challenge X P J keys moniker v =
     (case frame_of_value J v of
        Inl e \<Rightarrow> Some (Inl e)
      | Inr (Challenge nonce_hex block) \<Rightarrow>
          (case x_dec X nonce_hex of
             Inl e \<Rightarrow> Some (Inl e)
           | Inr decoded \<Rightarrow>
               if 32 < length decoded then None
               else
                 (let nonce = decoded @ replicate (32 - length decoded) 0 in
                  Some (Inr (jt_print J (JObj (auth_members X P keys moniker nonce block))))))
      | Inr _ \<Rightarrow> Some (Inl ''expected challenge''))"

text \<open>The whole connect with the messages that come in and whether the connection opens and the node's own message goes out: the
  outcome and the texts sent.\<close>

datatype mock_outcome = Connected | ConnectFailed string | Panicked | StillWaiting

definition await_ready :: "json_text \<Rightarrow> ws_message list \<Rightarrow> mock_outcome" where
  "await_ready J incoming =
     (case recv_json J incoming of
        None \<Rightarrow> StillWaiting
      | Some (Inl e, ms) \<Rightarrow> ConnectFailed e
      | Some (Inr v, ms) \<Rightarrow>
          (case frame_of_value J v of
             Inl e \<Rightarrow> ConnectFailed e
           | Inr (Ready url) \<Rightarrow> Connected
           | Inr _ \<Rightarrow> ConnectFailed ''expected ready''))"

definition connect_mock_node_with_moniker ::
  "'vk externals \<Rightarrow> 'sk signing_package \<Rightarrow> json_text \<Rightarrow> 'sk mock_node_keys \<Rightarrow> string option \<Rightarrow> bool \<Rightarrow> bool \<Rightarrow>
   ws_message list \<Rightarrow> mock_outcome \<times> string list" where
  "connect_mock_node_with_moniker X P J keys moniker opened sent incoming =
     (if \<not> opened then (ConnectFailed ''connect failed'', []) else
      case recv_json J incoming of
        None \<Rightarrow> (StillWaiting, [])
      | Some (Inl e, ms) \<Rightarrow> (ConnectFailed e, [])
      | Some (Inr v, ms) \<Rightarrow>
          (case answer_challenge X P J keys moniker v of
             None \<Rightarrow> (Panicked, [])
           | Some (Inl e) \<Rightarrow> (ConnectFailed e, [])
           | Some (Inr auth) \<Rightarrow>
               if \<not> sent then (ConnectFailed ''send failed'', []) else (await_ready J ms, [auth])))"

definition connect_mock_node ::
  "'vk externals \<Rightarrow> 'sk signing_package \<Rightarrow> json_text \<Rightarrow> 'sk mock_node_keys \<Rightarrow> bool \<Rightarrow> bool \<Rightarrow> ws_message list \<Rightarrow>
   mock_outcome \<times> string list" where
  "connect_mock_node X P J keys opened sent incoming =
     connect_mock_node_with_moniker X P J keys None opened sent incoming"

text \<open>The first ping is answered; anything that is no text ends the wait with an error.\<close>

fun respond_pong :: "json_text \<Rightarrow> bool \<Rightarrow> ws_message list \<Rightarrow> string + string" where
  "respond_pong J sent (WsText t # ms) =
     (case jt_parse J t of
        Inl e \<Rightarrow> Inl e
      | Inr v \<Rightarrow>
          if Option.bind (json_get ''type'' v) as_str = Some ''ping''
          then if sent then Inr (jt_print J (JObj [(''type'', JStr ''pong'')])) else Inl ''send failed''
          else respond_pong J sent ms)"
| "respond_pong J sent _ = Inl ''no ping received''"

text \<open>A text of the node, as its derived serialiser writes it.\<close>

definition node_text :: "json_text \<Rightarrow> node_frame \<Rightarrow> string" where
  "node_text J f = jt_print J (JObj (members_of_node_frame (jt_uuid J) f))"

definition router_frame_of_text :: "json_text \<Rightarrow> string \<Rightarrow> string + router_frame" where
  "router_frame_of_text J t =
     (case jt_members J t of
        None \<Rightarrow> jt_other_text J t
      | Some kvs \<Rightarrow>
          (case router_frame_of_members (jt_uuid J) kvs of None \<Rightarrow> Inl ''invalid frame'' | Some f \<Rightarrow> Inr f))"

definition mock_models_answer :: "json_text \<Rightarrow> uuid \<Rightarrow> string list" where
  "mock_models_answer J rid =
     [node_text J (NodeResponse rid 200 (JObj [(''content-type'', JStr ''application/json'')])),
      node_text J (NodeChunk rid ''{\"data\":[{\"id\":\"mock-model\"}]}''), node_text J (NodeEnd rid 200)]"

text \<open>The wait for the chat request, with the texts sent meanwhile. No result (\<open>None\<close>) is a panic: the
  stream ends or fails, a text is no frame, or a text does not go out.\<close>

fun wait_for_chat_request :: "json_text \<Rightarrow> bool \<Rightarrow> ws_message list \<Rightarrow> uuid option \<times> string list" where
  "wait_for_chat_request J sent [] = (None, [])"
| "wait_for_chat_request J sent (WsFailure # ms) = (None, [])"
| "wait_for_chat_request J sent (WsText t # ms) =
     (case router_frame_of_text J t of
        Inl e \<Rightarrow> (None, [])
      | Inr Ping \<Rightarrow>
          if \<not> sent then (None, [])
          else map_prod id ((@) [jt_print J (JObj [(''type'', JStr ''pong'')])]) (wait_for_chat_request J sent ms)
      | Inr (Request rid meth path headers body) \<Rightarrow>
          if path = ''/v1/models'' then
            (if \<not> sent then (None, [])
             else map_prod id ((@) (mock_models_answer J rid)) (wait_for_chat_request J sent ms))
          else if path = ''/v1/chat/completions'' then (Some rid, [])
          else wait_for_chat_request J sent ms
      | Inr _ \<Rightarrow> wait_for_chat_request J sent ms)"
| "wait_for_chat_request J sent (_ # ms) = wait_for_chat_request J sent ms"

section \<open>What the router sends and reads\<close>

definition challenge_frame :: "'vk externals \<Rightarrow> connect_env \<Rightarrow> u64 \<Rightarrow> router_frame" where
  "challenge_frame X E block = Challenge (x_enc X (ce_nonce E)) block"

definition send_frame_text :: "json_text \<Rightarrow> router_frame \<Rightarrow> ws_message" where
  "send_frame_text J f = WsText (jt_print J (JObj (members_of_router_frame (jt_uuid J) f)))"

text \<open>The packages of the router are those of the texts.\<close>

definition reads_texts :: "json_text \<Rightarrow> 'vk externals \<Rightarrow> bool" where
  "reads_texts J X \<longleftrightarrow> x_parse_frame X = parse_frame (jt_uuid J) (jt_members J) (jt_other_node J)"

text \<open>A key pair signs what its public key verifies.\<close>

definition signing_laws :: "'vk externals \<Rightarrow> 'sk signing_package \<Rightarrow> bool" where
  "signing_laws X P \<longleftrightarrow>
     (\<forall>k. length (sp_public P k) = 32 \<and> (\<forall>m. length (sp_sign P k m) = 64) \<and>
       (\<exists>vk. x_vk_of X (sp_public P k) = Inr vk \<and> (\<forall>m. x_vk_verify X vk m (sp_sign P k m) = Inr ()))) \<and>
     (\<forall>bs. length (x_keccak X bs) = 32)"

lemma json_lawsE:
  assumes "json_laws J" "flat_members kvs"
  obtains a b where "mset a = mset kvs" "jt_parse J (jt_print J (JObj kvs)) = Inr (JObj a)"
    "mset b = mset kvs" "jt_members J (jt_print J (JObj kvs)) = Some b"
  using assms unfolding json_laws_def by blast

text \<open>A flat frame of the router reads back at the node.\<close>

lemma node_reads_frame:
  assumes "json_laws J" "uuid_laws (jt_uuid J)" "flat_members (members_of_router_frame (jt_uuid J) f)"
  shows "\<exists>v. jt_parse J (jt_print J (JObj (members_of_router_frame (jt_uuid J) f))) = Inr v \<and> frame_of_value J v = Inr f"
proof -
  obtain a where a: "mset a = mset (members_of_router_frame (jt_uuid J) f)"
    "jt_parse J (jt_print J (JObj (members_of_router_frame (jt_uuid J) f))) = Inr (JObj a)"
    using json_lawsE [OF assms(1,3)] by metis
  then have "frame_of_value J (JObj a) = Inr f"
    using frame_reordered(2) [OF a(1)] assms(2,3)
    by (simp add: frame_of_value_def flat_members_def router_frame_roundtrip)
  with a(2) show ?thesis by blast
qed

lemma auth_members_flat: "flat_members (auth_members X P keys moniker nonce block)"
  by (auto simp: flat_members_def auth_members_def Let_def split: option.split)

text \<open>The moniker that the router gets to see.\<close>

definition shown_moniker :: "string option \<Rightarrow> string option" where
  "shown_moniker moniker =
     (case map_option trim moniker of None \<Rightarrow> None | Some m \<Rightarrow> if m \<noteq> [] then Some m else None)"

lemma router_reads_auth:
  assumes "json_laws J" "reads_texts J X"
  shows "x_parse_frame X (jt_print J (JObj (auth_members X P keys moniker nonce block))) =
    Inr (Auth (''0x'' @ x_enc X (mk_node_id keys))
      (x_enc X (sp_sign P (mk_signing_key keys) (connect_challenge_payload (x_keccak X) nonce block)))
      (Some (mk_pubkey_hex keys)) (shown_moniker moniker))"
proof -
  let ?kvs = "auth_members X P keys moniker nonce block"
  obtain b where b: "mset b = mset ?kvs" "jt_members J (jt_print J (JObj ?kvs)) = Some b"
    using json_lawsE [OF assms(1) auth_members_flat] by metis
  have d: "distinct (map fst ?kvs)"
    using auth_members_flat flat_members_def by blast
  note frame_reordered(1) [OF b(1) d]
  then show ?thesis
    using assms(2) b(2)
    by (auto simp: reads_texts_def parse_frame_def auth_members_def node_frame_of_members_def need_def field_of_def
        optional_text_def shown_moniker_def Let_def split: option.split)
qed

section \<open>A connection between the two\<close>

fun quiet :: "ws_message \<Rightarrow> bool" where
  "quiet (WsPing p) = True"
| "quiet WsOther = True"
| "quiet _ = False"

lemma recv_json_quiet: "list_all quiet noise \<Longrightarrow> recv_json J (noise @ ms) = recv_json J ms"
proof (induction noise)
  case (Cons m noise)
  then show ?case by (cases m) simp_all
qed simp

lemma recv_text_quiet: "list_all quiet noise \<Longrightarrow> recv_text (noise @ ms) = recv_text ms"
proof (induction noise)
  case (Cons m noise)
  then show ?case by (cases m) simp_all
qed simp

lemma shown_moniker_accepted:
  assumes "\<And>m. moniker = Some m \<Longrightarrow> length (trim m) \<le> max_moniker_len"
  shows "normalize_tunnel_moniker (shown_moniker moniker) = Inr (shown_moniker moniker)"
  using assms by (auto simp: normalize_tunnel_moniker_def shown_moniker_def split: option.split)

text \<open>The key pair's answer to the challenge authenticates the id that its key hashes to.\<close>

lemma router_accepts_auth:
  assumes "json_laws J" "reads_texts J X" "hex_laws (x_enc X) (x_dec X)" "signing_laws X P"
    and keys: "keys = generate_keys X P rand"
    and mon: "\<And>m. moniker = Some m \<Longrightarrow> length (trim m) \<le> max_moniker_len"
  shows "authenticate X nonce block (jt_print J (JObj (auth_members X P keys moniker nonce block))) =
    Inr (mk_node_id keys, shown_moniker moniker)"
proof -
  note k = generate_keys_def [of X P rand, folded keys, unfolded Let_def]
  have lens: "length (mk_node_id keys) = 32" "length (sp_public P (mk_signing_key keys)) = 32"
    "length (sp_sign P (mk_signing_key keys) m) = 64" for m
    using assms(4) by (simp_all add: k node_id_from_ed25519_pubkey_def signing_laws_def)
  obtain vk where vk: "x_vk_of X (sp_public P (mk_signing_key keys)) = Inr vk"
    "\<And>m. x_vk_verify X vk m (sp_sign P (mk_signing_key keys) m) = Inr ()"
    using assms(4) unfolding signing_laws_def by metis
  note hex = hex_text [OF assms(3)]
  show ?thesis
    unfolding authenticate_ok
    using hex(4) [OF lens(1)] hex(3) [OF lens(2)] vk lens(3) shown_moniker_accepted [of moniker, OF mon]
    by (auto simp: router_reads_auth [OF assms(1,2)] node_id_hex_def verify_connect_signature_ok hex(2)
        hex_lawsD(1) [OF assms(3)] k)
qed

lemma challenge_flat: "flat_members (members_of_router_frame U (Challenge n b))"
  and ready_flat: "flat_members (members_of_router_frame U (Ready url))"
  and ping_flat: "flat_members (members_of_router_frame U Ping)"
  by (simp_all add: flat_members_def)

lemma mock_answers:
  assumes laws: "json_laws J" "uuid_laws (jt_uuid J)" "hex_laws (x_enc X) (x_dec X)"
    and nonce: "length (ce_nonce E) = 32"
    and quiet: "list_all quiet a" "list_all quiet b"
  shows "connect_mock_node_with_moniker X P J keys moniker True True
      (a @ send_frame_text J (challenge_frame X E block) # b @ send_frame_text J (Ready url) # rest) =
    (Connected, [jt_print J (JObj (auth_members X P keys moniker (ce_nonce E) block))])"
proof -
  let ?text = "\<lambda>f. jt_print J (JObj (members_of_router_frame (jt_uuid J) f))"
  obtain v where v: "jt_parse J (?text (challenge_frame X E block)) = Inr v"
    "frame_of_value J v = Inr (challenge_frame X E block)"
    using node_reads_frame [OF laws(1,2) challenge_flat] unfolding challenge_frame_def by blast
  obtain w where w: "jt_parse J (?text (Ready url)) = Inr w" "frame_of_value J w = Inr (Ready url)"
    using node_reads_frame [OF laws(1,2) ready_flat] by blast
  have "answer_challenge X P J keys moniker v =
      Some (Inr (jt_print J (JObj (auth_members X P keys moniker (ce_nonce E) block))))"
    by (simp add: answer_challenge_def v(2) challenge_frame_def hex_lawsD(1) [OF laws(3)] nonce Let_def
        del: members_of_router_frame.simps)
  moreover have "await_ready J (b @ send_frame_text J (Ready url) # rest) = Connected"
    by (simp add: await_ready_def recv_json_quiet quiet send_frame_text_def w del: members_of_router_frame.simps)
  ultimately show ?thesis
    by (simp add: connect_mock_node_with_moniker_def recv_json_quiet quiet send_frame_text_def v(1)
        del: members_of_router_frame.simps)
qed


section \<open>Pings and the models request\<close>

text \<open>Each side reads the other's frames.\<close>

lemma node_text_read:
  assumes "json_laws J" "uuid_laws (jt_uuid J)" "flat_members (members_of_node_frame (jt_uuid J) f)" "reads_texts J X"
  shows "x_parse_frame X (node_text J f) = Inr f"
proof -
  obtain b where b: "mset b = mset (members_of_node_frame (jt_uuid J) f)"
    "jt_members J (node_text J f) = Some b"
    using json_lawsE [OF assms(1,3)] unfolding node_text_def by metis
  then have "node_frame_of_members (jt_uuid J) b = Some f"
    using frame_reordered(1) [OF b(1)] assms(2,3) by (simp add: flat_members_def node_frame_roundtrip)
  then show ?thesis
    using assms(4) b(2) by (simp add: reads_texts_def parse_frame_def)
qed

lemma router_text_read:
  assumes "json_laws J" "uuid_laws (jt_uuid J)" "flat_members (members_of_router_frame (jt_uuid J) f)"
  shows "router_frame_of_text J (jt_print J (JObj (members_of_router_frame (jt_uuid J) f))) = Inr f"
proof -
  obtain b where b: "mset b = mset (members_of_router_frame (jt_uuid J) f)"
    "jt_members J (jt_print J (JObj (members_of_router_frame (jt_uuid J) f))) = Some b"
    using json_lawsE [OF assms(1,3)] by metis
  then have "router_frame_of_members (jt_uuid J) b = Some f"
    using frame_reordered(2) [OF b(1)] assms(2,3) by (simp add: flat_members_def router_frame_roundtrip)
  then show ?thesis
    using b(2) by (simp add: router_frame_of_text_def)
qed

text \<open>The first ping is answered, whatever frames come before it, and the router reads the answer as a pong.\<close>

lemma mock_answers_ping:
  assumes "json_laws J" "uuid_laws (jt_uuid J)" "reads_texts J X"
    and "\<And>f. f \<in> set fs \<Longrightarrow> flat_members (members_of_router_frame (jt_uuid J) f) \<and> f \<noteq> Ping"
  shows "\<exists>t. respond_pong J True (map (send_frame_text J) (fs @ [Ping]) @ ms) = Inr t \<and> x_parse_frame X t = Inr Pong"
proof -
  have read: "\<exists>v. jt_parse J (jt_print J (JObj (members_of_router_frame (jt_uuid J) f))) = Inr v \<and>
      (Option.bind (json_get ''type'' v) as_str = Some ''ping'') = (f = Ping)"
    if flat: "flat_members (members_of_router_frame (jt_uuid J) f)" for f
  proof -
    obtain a where a: "mset a = mset (members_of_router_frame (jt_uuid J) f)"
      "jt_parse J (jt_print J (JObj (members_of_router_frame (jt_uuid J) f))) = Inr (JObj a)"
      using json_lawsE [OF assms(1) flat] by metis
    have "map_of a = map_of (members_of_router_frame (jt_uuid J) f)"
      using map_of_reordered [OF a(1)] flat by (simp add: flat_members_def)
    then have "(Option.bind (json_get ''type'' (JObj a)) as_str = Some ''ping'') = (f = Ping)"
      by (cases f) simp_all
    with a(2) show ?thesis by blast
  qed
  have pong: "x_parse_frame X (jt_print J (JObj [(''type'', JStr ''pong'')])) = Inr Pong"
    using node_text_read [OF assms(1,2) _ assms(3), of Pong] by (simp add: node_text_def flat_members_def)
  have "respond_pong J True (map (send_frame_text J) (fs @ [Ping]) @ ms) =
      Inr (jt_print J (JObj [(''type'', JStr ''pong'')]))"
    using assms(4)
  proof (induction fs)
    case Nil
    then show ?case using read [OF ping_flat] by (auto simp: send_frame_text_def)
  next
    case (Cons f fs)
    then show ?case using read [of f] by (auto simp: send_frame_text_def)
  qed
  with pong show ?thesis by blast
qed

text \<open>What the node answers to the frames before the chat request.\<close>

fun mock_replies :: "router_frame \<Rightarrow> node_frame list" where
  "mock_replies Ping = [Pong]"
| "mock_replies (Request rid meth path headers body) =
     (if path = ''/v1/models'' then
        [NodeResponse rid 200 (JObj [(''content-type'', JStr ''application/json'')]),
         NodeChunk rid ''{\"data\":[{\"id\":\"mock-model\"}]}'', NodeEnd rid 200]
      else [])"
| "mock_replies _ = []"

fun is_chat_request :: "router_frame \<Rightarrow> bool" where
  "is_chat_request (Request rid meth path headers body) = (path = ''/v1/chat/completions'')"
| "is_chat_request _ = False"

lemma mock_replies_flat: "f \<in> set (mock_replies g) \<Longrightarrow> flat_members (members_of_node_frame U f)"
  by (cases g) (auto simp: flat_members_def split: if_splits)

lemma wait_step:
  assumes "json_laws J" "uuid_laws (jt_uuid J)" "flat_members (members_of_router_frame (jt_uuid J) f)"
    and "\<not> is_chat_request f"
  shows "wait_for_chat_request J True (send_frame_text J f # ms) =
    map_prod id ((@) (map (node_text J) (mock_replies f))) (wait_for_chat_request J True ms)"
  using router_text_read [OF assms(1-3)] assms(4)
  by (cases f; cases "wait_for_chat_request J True ms")
    (auto simp: send_frame_text_def mock_models_answer_def node_text_def)

text \<open>Until the chat request the node answers every ping and every models request, in order, each with the
  frames the router expects, and it returns the id of the chat request.\<close>

lemma mock_serves_until_chat:
  assumes "json_laws J" "uuid_laws (jt_uuid J)" "reads_texts J X"
    and "\<And>f. f \<in> set fs \<Longrightarrow> flat_members (members_of_router_frame (jt_uuid J) f) \<and> \<not> is_chat_request f"
    and "flat_members (members_of_router_frame (jt_uuid J) (Request rid meth ''/v1/chat/completions'' h b))"
  shows "\<exists>texts. wait_for_chat_request J True
      (map (send_frame_text J) (fs @ [Request rid meth ''/v1/chat/completions'' h b]) @ ms) = (Some rid, texts) \<and>
    map (x_parse_frame X) texts = map Inr (concat (map mock_replies fs))"
  using assms(4)
proof (induction fs)
  case Nil
  then show ?case
    using router_text_read [OF assms(1,2,5)] by (simp add: send_frame_text_def)
next
  case (Cons f fs)
  then obtain texts where "wait_for_chat_request J True
      (map (send_frame_text J) (fs @ [Request rid meth ''/v1/chat/completions'' h b]) @ ms) = (Some rid, texts)"
    "map (x_parse_frame X) texts = map Inr (concat (map mock_replies fs))"
    by auto
  moreover have "map (x_parse_frame X) (map (node_text J) (mock_replies f)) = map Inr (mock_replies f)"
    using node_text_read [OF assms(1,2) mock_replies_flat assms(3)] by simp
  ultimately show ?case
    using wait_step [OF assms(1,2), of f] Cons.prems by simp
qed

section \<open>An exchange in full\<close>

text \<open>A JSON package for the witnesses: lengths and numbers in unary.\<close>

definition put_count :: "nat \<Rightarrow> string" where
  "put_count n = replicate n CHR ''x'' @ ''.''"

fun get_count :: "string \<Rightarrow> (nat \<times> string) option" where
  "get_count [] = None"
| "get_count (c # s) =
     (if c = CHR ''x'' then map_option (map_prod Suc id) (get_count s) else Some (0, s))"

lemma get_put_count [simp]: "get_count (put_count n @ s) = Some (n, s)"
  by (induction n) (simp_all add: put_count_def)

definition put_text :: "string \<Rightarrow> string" where
  "put_text s = put_count (length s) @ s"

definition get_text :: "string \<Rightarrow> (string \<times> string) option" where
  "get_text s = map_option (\<lambda>(n, r). (take n r, drop n r)) (get_count s)"

lemma get_put_text [simp]: "get_text (put_text t @ s) = Some (t, s)"
  by (simp add: put_text_def get_text_def)

fun put_json :: "json \<Rightarrow> string"
  and put_items :: "json list \<Rightarrow> string"
  and put_members :: "(string \<times> json) list \<Rightarrow> string" where
  "put_json JNull = ''n''"
| "put_json (JBool True) = ''t''"
| "put_json (JBool False) = ''f''"
| "put_json (JNum (PosInt n)) = ''p'' @ put_count (unat n)"
| "put_json (JNum (NegInt n)) = ''m'' @ put_count (unat n)"
| "put_json (JNum (Float n)) = ''d'' @ put_count (unat n)"
| "put_json (JStr s) = ''s'' @ put_text s"
| "put_json (JArr vs) = ''a'' @ put_items vs"
| "put_json (JObj kvs) = ''o'' @ put_members kvs"
| "put_items [] = ''.''"
| "put_items (v # vs) = '','' @ put_json v @ put_items vs"
| "put_members [] = ''.''"
| "put_members ((k, v) # kvs) = '','' @ put_text k @ put_json v @ put_members kvs"

definition get_num :: "(u64 \<Rightarrow> json_num) \<Rightarrow> string \<Rightarrow> (json \<times> string) option" where
  "get_num num s = map_option (\<lambda>(n, r). (JNum (num (word_of_nat n)), r)) (get_count s)"

fun get_json :: "nat \<Rightarrow> string \<Rightarrow> (json \<times> string) option"
  and get_items :: "nat \<Rightarrow> string \<Rightarrow> (json list \<times> string) option"
  and get_members :: "nat \<Rightarrow> string \<Rightarrow> ((string \<times> json) list \<times> string) option" where
  "get_json (Suc n) (c # s) =
     (if c = CHR ''n'' then Some (JNull, s)
      else if c = CHR ''t'' then Some (JBool True, s)
      else if c = CHR ''f'' then Some (JBool False, s)
      else if c = CHR ''p'' then get_num PosInt s
      else if c = CHR ''m'' then get_num NegInt s
      else if c = CHR ''d'' then get_num Float s
      else if c = CHR ''s'' then map_option (map_prod JStr id) (get_text s)
      else if c = CHR ''a'' then map_option (map_prod JArr id) (get_items n s)
      else if c = CHR ''o'' then map_option (map_prod JObj id) (get_members n s)
      else None)"
| "get_json _ _ = None"
| "get_items (Suc n) (c # s) =
     (if c = CHR ''.'' then Some ([], s)
      else Option.bind (get_json n s) (\<lambda>(v, r). map_option (map_prod ((#) v) id) (get_items n r)))"
| "get_items _ _ = None"
| "get_members (Suc n) (c # s) =
     (if c = CHR ''.'' then Some ([], s)
      else Option.bind (get_text s) (\<lambda>(k, r). Option.bind (get_json n r)
        (\<lambda>(v, r). map_option (map_prod ((#) (k, v)) id) (get_members n r))))"
| "get_members _ _ = None"

lemma get_put_num [simp]: "get_num num (put_count (unat n) @ s) = Some (JNum (num n), s)"
  by (simp add: get_num_def)

lemma get_put_json:
  "length (put_json v) \<le> fuel \<Longrightarrow> get_json fuel (put_json v @ s) = Some (v, s)"
  "length (put_items vs) \<le> fuel \<Longrightarrow> get_items fuel (put_items vs @ s) = Some (vs, s)"
  "length (put_members kvs) \<le> fuel \<Longrightarrow> get_members fuel (put_members kvs @ s) = Some (kvs, s)"
proof (induction v and vs and kvs arbitrary: fuel s and fuel s and fuel s
    rule: put_json_put_items_put_members.induct)
qed (case_tac fuel; simp; fail)+

definition sample_json :: json_text where
  "sample_json =
     \<lparr>jt_parse = (\<lambda>t. case get_json (length t) t of None \<Rightarrow> Inl ''no value'' | Some (v, r) \<Rightarrow> Inr v),
      jt_print = put_json,
      jt_members = (\<lambda>t. case get_json (length t) t of Some (JObj kvs, r) \<Rightarrow> Some kvs | _ \<Rightarrow> None),
      jt_uuid = sample_uuid_text, jt_other_node = (\<lambda>_. Inl ''no frame''),
      jt_other_router = (\<lambda>_. Inl ''no frame''), jt_other_text = (\<lambda>_. Inl ''no frame'')\<rparr>"

definition pad :: "nat \<Rightarrow> bytes \<Rightarrow> bytes" where
  "pad n bs = take n (bs @ replicate n 0)"

lemma length_pad [simp]: "length (pad n bs) = n"
  by (simp add: pad_def)

text \<open>A signature is the public key followed by the message, both cut or filled up to 32 bytes.\<close>

definition sample_signing :: "bytes signing_package" where
  "sample_signing = \<lparr>sp_from_secret = id, sp_public = pad 32, sp_sign = (\<lambda>k m. pad 32 k @ pad 32 m)\<rparr>"

definition mock_externals :: "bytes externals" where
  "mock_externals =
     \<lparr>x_enc = sample_enc, x_dec = sample_dec, x_keccak = pad 32, x_vk_of = Inr,
      x_vk_verify = (\<lambda>vk m sig. if sig = vk @ pad 32 m then Inr () else Inl ''bad signature''),
      x_parse_frame = parse_frame (jt_uuid sample_json) (jt_members sample_json) (jt_other_node sample_json)\<rparr>"

lemma sample_laws_hold:
  "json_laws sample_json" "uuid_laws (jt_uuid sample_json)" "reads_texts sample_json mock_externals"
  "hex_laws (x_enc mock_externals) (x_dec mock_externals)" "signing_laws mock_externals sample_signing"
proof -
  have "get_json (length (put_json v)) (put_json v) = Some (v, [])" for v
    using get_put_json(1) [OF order_refl, of v "[]"] by simp
  then show "json_laws sample_json"
    by (auto simp: json_laws_def sample_json_def simp del: put_json.simps)
qed (simp_all add: uuid_laws_def sample_uuid_text_def reads_texts_def mock_externals_def sample_hex_laws
    signing_laws_def sample_signing_def sample_json_def)

definition mock_keys :: "bytes mock_node_keys" where
  "mock_keys = generate_keys mock_externals sample_signing (\<lambda>n. replicate n 7)"

text \<open>The router's side of the connection, with the texts that come in.\<close>

definition mock_env :: "string list \<Rightarrow> connect_env" where
  "mock_env texts = (sample_env [])\<lparr>ce_messages := WsPing [] # map WsText texts\<rparr>"

text \<open>What the node sends to that router.\<close>

definition mock_texts :: "string list" where
  "mock_texts =
     snd (connect_mock_node_with_moniker mock_externals sample_signing sample_json mock_keys (Some ''test-moniker'')
       True True
       [WsOther, send_frame_text sample_json (challenge_frame mock_externals (mock_env []) 9),
        send_frame_text sample_json (Ready ''http://127.0.0.1:3001'')])"


end
