(* ===== verification/Unit_Tests.thy ===== *)
theory Unit_Tests
  imports Wire_Format Models_Refresh Activate Metering Settlement_Key
begin

text \<open>
  The unit tests of the repository (the \<open>tests\<close> modules of the files under \<open>src\<close>), run on the
  model: each test is a truth value with the steps and the assertions of the test, and the lemma
  after it says that it holds. Where a test goes through a package, the package is what its test
  data need of it: the values of the texts it parses, or its documented law.
\<close>

section \<open>The capacity tracker\<close>

definition test_key :: cap_key where
  "test_key = ModelCapacityKey (replicate 32 1) ''test-model''"

text \<open>A request that runs alone takes its turns until it is admitted, refused or waiting.\<close>

fun turns :: "nat \<Rightarrow> nat \<Rightarrow> cap_state \<Rightarrow> cap_state" where
  "turns 0 i s = s"
| "turns (Suc n) i s = (case cap_step s (Run i True) of None \<Rightarrow> s | Some s' \<Rightarrow> turns n i s')"

definition acquire_alone :: "cap_key \<Rightarrow> u32 \<Rightarrow> u32 \<Rightarrow> cap_state \<Rightarrow> cap_state" where
  "acquire_alone k c m s = turns 5 (length (tasks s)) (s\<lparr>tasks := tasks s @ [Entering k c m]\<rparr>)"

fun holds_guard :: "task \<Rightarrow> bool" where
  "holds_guard (Holding k unlimited) = True"
| "holds_guard _ = False"

fun is_queue_full :: "task \<Rightarrow> bool" where
  "is_queue_full (Failed (QueueFull a c q)) = True"
| "is_queue_full _ = False"

definition dropped :: "nat \<Rightarrow> cap_state \<Rightarrow> cap_state" where
  "dropped i s = (case cap_step s (DropGuard i) of None \<Rightarrow> s | Some s' \<Rightarrow> s')"

definition admit_up_to_concurrency :: bool where
  "admit_up_to_concurrency =
     (let s1 = acquire_alone test_key 2 2 new_tracker;
          s2 = acquire_alone test_key 2 2 s1;
          s3 = dropped 0 s2;
          s4 = acquire_alone test_key 2 2 s3 in
      holds_guard (tasks s1 ! 0) \<and> holds_guard (tasks s2 ! 1) \<and> holds_guard (tasks s4 ! 2))"

definition queue_full_returns_error :: bool where
  "queue_full_returns_error =
     (let s1 = acquire_alone test_key 1 0 new_tracker;
          s2 = acquire_alone test_key 1 0 s1 in
      holds_guard (tasks s1 ! 0) \<and> is_queue_full (tasks s2 ! 1))"

definition max_queue_depth_scales :: "(rat \<Rightarrow> f64) \<Rightarrow> bool" where
  "max_queue_depth_scales rnd \<longleftrightarrow>
     max_queue_depth rnd 4 (Finite 1) = 4 \<and> max_queue_depth rnd 0 (Finite 1) = 0"

lemmas run_alone = acquire_alone_def dropped_def new_tracker_def at_task_def slot_for_def set_active_def
  set_queued_def release_inner_def test_key_def numeral_eq_Suc Let_def

lemma admit_up_to_concurrency: "admit_up_to_concurrency"
  unfolding admit_up_to_concurrency_def by (simp add: run_alone)

lemma queue_full_returns_error: "queue_full_returns_error"
  unfolding queue_full_returns_error_def by (simp add: run_alone)

lemma max_queue_depth_scales: "rnd 4 = Finite 4 \<Longrightarrow> max_queue_depth_scales rnd"
  by (simp add: max_queue_depth_scales_def max_queue_depth_def Let_def)

section \<open>Frames, pending requests, tokens\<close>

definition roundtrip_challenge :: "uuid_text \<Rightarrow> bool" where
  "roundtrip_challenge U \<longleftrightarrow>
     map_of (members_of_router_frame U (Challenge ''abc'' 123)) ''type'' = Some (JStr ''challenge'')"

fun is_auth :: "node_frame option \<Rightarrow> bool" where
  "is_auth (Some (Auth n sig pk m)) = True"
| "is_auth _ = False"

definition parse_auth :: "uuid_text \<Rightarrow> bool" where
  "parse_auth U = is_auth (node_frame_of_members U
     [(''type'', JStr ''auth''), (''node_id'', JStr ''0xabc''), (''signature'', JStr ''0xsig'')])"

definition pending_removed_on_drop :: "uuid \<Rightarrow> bool" where
  "pending_removed_on_drop rid \<longleftrightarrow>
     (let t0 = new_tunnel 0 0 (replicate 32 1) None;
          (c, t1) = register_pending rid t0;
          t2 = drop_pending rid c t1 in
      in_flight_count t1 = 1 \<and> in_flight_count t2 = 0)"

definition parse_session_id_zero_padded :: "(bytes \<Rightarrow> string) \<Rightarrow> (string \<Rightarrow> string + bytes) \<Rightarrow> bool" where
  "parse_session_id_zero_padded b58_enc b58_dec \<longleftrightarrow>
     (let payload = (replicate 64 0)[31 := 7] in
      parse_sk_bearer b58_dec (''sk_'' @ b58_enc payload) = Inr 7)"

lemma wire_tests: "roundtrip_challenge U" "parse_auth U"
  by (simp_all add: roundtrip_challenge_def parse_auth_def node_frame_of_members_def need_def field_of_def
      optional_text_def)

lemma pending_removed_on_drop: "pending_removed_on_drop rid"
  by (simp add: pending_removed_on_drop_def register_pending_def pending_insert_def drop_pending_def
      pending_remove_def new_tunnel_def in_flight_count_def Let_def)

lemma padded_payload: "(replicate 64 (0 :: u8))[31 := 7] = replicate 24 0 @ u64_to_be 7 @ replicate 32 0"
proof -
  have "replicate 64 (0 :: u8) = replicate 31 0 @ 0 # replicate 32 0"
    using replicate_add [of 31 33 "0 :: u8"] replicate_Suc [of 32 "0 :: u8"] by simp
  then have "(replicate 64 (0 :: u8))[31 := 7] = replicate 31 0 @ 7 # replicate 32 0"
    by (simp only: list_update_append1 list_update_length length_replicate)
      (metis length_replicate list_update_length)
  moreover have zeros: "replicate 7 (0 :: u8) = [0, 0, 0, 0, 0, 0, 0]"
    by (simp add: eval_nat_numeral)
  have "u64_from_be (replicate 7 0 @ [7]) = 7"
    by (simp add: u64_from_be_def zeros)
  then have "u64_to_be 7 = replicate 7 0 @ [7]"
    using u64_to_from_be [of "replicate 7 0 @ [7]"] by simp
  moreover have "replicate 31 (0 :: u8) = replicate 24 0 @ replicate 7 0"
    using replicate_add [of 24 7 "0 :: u8"] by simp
  ultimately show ?thesis by simp
qed

lemma parse_session_id_zero_padded:
  assumes "\<And>bs. b58_dec (b58_enc bs) = Inr bs"
  shows "parse_session_id_zero_padded b58_enc b58_dec"
  unfolding parse_session_id_zero_padded_def Let_def padded_payload
  using assms by (auto simp: parse_sk_bearer_ok)

section \<open>The models catalog and its queries\<close>

definition sample_model_with_features :: "string \<Rightarrow> u64 \<Rightarrow> u64 \<Rightarrow> json \<Rightarrow> json" where
  "sample_model_with_features m active concurrency features =
     JObj [(''id'', JStr m), (''object'', JStr ''model''), (''context_length'', json_u64 128000),
       (''sparkl'', JObj [(''quantization'', JStr ''Q4_K_M''), (''parameter_count'', JStr ''27B''),
          (''concurrency'', json_u64 concurrency), (''active_sessions'', json_u64 active),
          (''features'', features)])]"

definition sample_model :: "string \<Rightarrow> u64 \<Rightarrow> u64 \<Rightarrow> json" where
  "sample_model m active concurrency =
     sample_model_with_features m active concurrency (JObj [(''mtp'', JStr ''8-token'')])"

definition with_node :: "(bytes \<Rightarrow> string) \<Rightarrow> u8 \<Rightarrow> json \<Rightarrow> string \<Rightarrow> models_catalog \<Rightarrow> models_catalog" where
  "with_node enc n entry m c = fst (upsert_node enc 0 (replicate 32 n) [(m, entry)] c)"

definition catalog_upsert_remove_rebuilds_union :: "(bytes \<Rightarrow> string) \<Rightarrow> bool" where
  "catalog_upsert_remove_rebuilds_union enc \<longleftrightarrow>
     (let c1 = with_node enc 1 (sample_model ''gpt-4o'' 1 8) ''gpt-4o'' new_catalog;
          c2 = with_node enc 2 (sample_model ''llama3:8b'' 0 4) ''llama3:8b'' c1;
          c3 = fst (remove_node enc 0 (replicate 32 1) c2) in
      catalog_contains ''gpt-4o'' c1 \<and> catalog_contains ''llama3:8b'' c2 \<and>
      \<not> catalog_contains ''gpt-4o'' c3 \<and> catalog_contains ''llama3:8b'' c3)"

definition catalog_merges_same_id_across_nodes :: "(bytes \<Rightarrow> string) \<Rightarrow> bool" where
  "catalog_merges_same_id_across_nodes enc =
     (let c1 = with_node enc 1 (sample_model ''shared'' 2 8) ''shared'' new_catalog;
          c2 = with_node enc 2 (sample_model ''shared'' 1 8) ''shared'' c1 in
      case json_get ''data'' (list_cached_json c2) of
        Some (JArr [entry]) \<Rightarrow>
          Option.bind (json_pointer [''sparkl'', ''active_sessions''] entry) as_u64 = Some 3 \<and>
          map_option length (Option.bind (json_pointer [''sparkl'', ''providers''] entry) as_array) = Some 2
      | _ \<Rightarrow> False)"

definition parse_model_entries_keeps_metadata :: "(string \<Rightarrow> string + json) \<Rightarrow> string \<Rightarrow> bool" where
  "parse_model_entries_keeps_metadata parse body =
     (case parse_model_entries parse body of
        Inl e \<Rightarrow> False
      | Inr models \<Rightarrow>
          length models = 1 \<and>
          Option.bind (map_of models ''m1'') (json_get ''context_length'') = Some (json_u64 100))"

definition query_providers_filters :: "(bytes \<Rightarrow> string) \<Rightarrow> (string \<Rightarrow> string + bytes) \<Rightarrow> bool" where
  "query_providers_filters enc dec =
     (let features = JObj [(''mtp'', JStr ''a''), (''speculative'', JStr ''dflash'')];
          c = with_node enc 1 (sample_model_with_features ''shared'' 2 8 features) ''shared'' new_catalog;
          filters = (from_query_map [])\<lparr>qf_model := Some ''shared'', qf_features_all := [''mtp''],
            qf_min_available_slots := Some 1, qf_online_only := False\<rparr> in
      case fst (query_providers enc dec 0 filters 40 (\<lambda>_. None) c new_tracker) of
        [hit] \<Rightarrow> po_available_slots hit = 8 \<and> po_active_requests hit = 0
      | _ \<Rightarrow> False)"

definition provider_snapshot_includes_features :: "(bytes \<Rightarrow> string) \<Rightarrow> bool" where
  "provider_snapshot_includes_features enc \<longleftrightarrow>
     (let p = provider_snapshot enc (replicate 32 9, ''m'',
          sample_model_with_features ''m'' 1 4 (JObj [(''speculative'', JStr ''dflash'')])) in
      json_pointer [''features'', ''speculative''] p = Some (JStr ''dflash'') \<and>
      json_get ''available_slots'' p = Some (json_u64 3))"

definition parses_feature_value_query_params :: bool where
  "parses_feature_value_query_params \<longleftrightarrow>
     (let f = from_query_map [(''model'', ''m''), (''features_all'', ''mtp''),
          (''feature_speculative'', ''dflash''), (''min_available_slots'', ''1'')] in
      qf_model f = Some ''m'' \<and> qf_features_all f = [''mtp''] \<and>
      map_of (qf_feature_value_contains f) ''speculative'' = Some ''dflash'')"

lemmas catalog_defs = with_node_def upsert_node_def rebuild_union_def adverts_def new_catalog_def merge_model_entry_def
  sample_model_def sample_model_with_features_def sparkl_object_def providers_array_def with_providers_def
  apply_aggregated_load_def add_load_def provider_active_def provider_concurrency_def catalog_contains_def
  list_cached_json_def catalog_list_def List.map_filter_def or_else_def u64_or_0_def Let_def

lemma catalog_upsert_remove_rebuilds_union: "catalog_upsert_remove_rebuilds_union enc"
  by (simp add: catalog_upsert_remove_rebuilds_union_def catalog_defs remove_node_def)

lemma catalog_merges_same_id_across_nodes: "catalog_merges_same_id_across_nodes enc"
  by (simp add: catalog_merges_same_id_across_nodes_def catalog_defs provider_snapshot_def build_offering_with_load_def
      catalog_active_def entry_concurrency_def u32_or_0_def json_u32_def sat_add_def json_u64_def)

lemma parse_model_entries_keeps_metadata:
  "parse body = Inr (JObj [(''data'', JArr [JObj [(''id'', JStr ''m1''), (''context_length'', json_u64 100),
      (''sparkl'', JObj [(''concurrency'', json_u64 4)])]])]) \<Longrightarrow>
    parse_model_entries_keeps_metadata parse body"
  by (simp add: parse_model_entries_keeps_metadata_def parse_model_entries_def insert_entry_def)

lemma provider_snapshot_includes_features: "provider_snapshot_includes_features enc"
  by (simp add: provider_snapshot_includes_features_def provider_snapshot_def build_offering_with_load_def
      sample_model_with_features_def catalog_active_def entry_concurrency_def slots_left_def u32_or_0_def u64_or_0_def
      or_else_def parse_features_map_def insert_feature_def json_u32_def sat_sub_def Let_def)

lemma split_mtp: "filter (\<lambda>x. x \<noteq> []) (map trim (split_on '','' ''mtp'')) = [''mtp'']"
  by (simp add: split_on_eval trim_graph graph_char_def)

lemma parses_feature_value_query_params: "parses_feature_value_query_params"
  by (simp add: split_mtp parses_feature_value_query_params_def from_query_map_def feature_params_def insert_feature_param_def
      strip_prefix_def split_csv_def Let_def)

lemma query_providers_filters:
  assumes laws: "hex_laws enc dec"
  shows "query_providers_filters enc dec"
proof -
  have "parse_node_id_hex dec (node_id_hex enc (replicate 32 1)) = Inr (replicate 32 1)"
    by (rule node_id_text_roundtrip [OF laws]) (simp_all add: trim_graph [OF node_id_hex_graph [OF laws]])
  then show ?thesis
    by (simp add: query_providers_filters_def catalog_defs query_providers_def query_one_def snapshot_def
        slot_for_def new_tracker_def build_offering_with_load_def passes_def from_query_map_def slots_left_def
        entry_concurrency_def u32_or_0_def sat_sub_def parse_features_map_def insert_feature_def live_status_def
        feature_params_def split_csv_def)
qed

section \<open>Sessions and metering\<close>

definition session_test_data :: string where
  "session_test_data = concat
     [''0000000000000000000000000000000000000000000000000000000000000020'',
      ''000000000000000000000000f39fd6e51aad88f6f4ce6ab8827279cfffb92266'',
      ''877f5a2d994b90eaaf84250d4898ab049539460eeecb2614216526d4cefd2ed8'',
      ''19901b5106ee310093b779e131891ec328afec79c93bff6c3872832f6156ba31'',
      ''0000000000000000000000000000000000000000000000000000000000000000'',
      ''0000000000000000000000000000000000000000000000000000de0b6b3a7640000'',
      ''0000000000000000000000000000000000000000000000000000000000000000'',
      ''0000000000000000000000000000000000000000000000000000000000000000'',
      ''0000000000000000000000000000000000000000000000000000000000000000'',
      ''0000000000000000000000000000000000000000000000000000de0b6b3a7640000'',
      ''000000000000000000000000000000000000000000000000000000006a22d31c'',
      ''0000000000000000000000000000000000000000000000000000000000000000'',
      ''0000000000000000000000000000000000000000000000000000000000000000'',
      ''0000000000000000000000000000000000000000000000000000000000000000'']"

definition test_session :: "chain_session option" where
  "test_session =
     (case sample_dec session_test_data of
        Inl e \<Rightarrow> None
      | Inr raw \<Rightarrow> (case decode_session_head raw of Inl e \<Rightarrow> None | Inr s \<Rightarrow> Some s))"

definition decode_session_head_skips_offset :: bool where
  "decode_session_head_skips_offset =
     (case test_session of
        None \<Rightarrow> False
      | Some s \<Rightarrow>
          sample_enc (cs_user s) = ''f39fd6e51aad88f6f4ce6ab8827279cfffb92266'' \<and>
          sample_enc (cs_node_id s) = ''877f5a2d994b90eaaf84250d4898ab049539460eeecb2614216526d4cefd2ed8'' \<and>
          \<not> cs_settled s \<and> is_open s)"

lemma zero_address_bytes: "zero_address = [0, 0, 0, 0, 0, 0, 0, 0, 0, 0, 0, 0, 0, 0, 0, 0, 0, 0, 0, 0]"
  by (simp add: zero_address_def eval_nat_numeral)

lemmas session_decoding = test_session_def session_test_data_def digit_val_def decode_session_head_def
  session_head_bytes_def u256_at_def address_at_def bytes32_at_def u8_at_def u64_at_def bool_at_def word_at_def
  bind_sum_def session_struct_offset_def session_head_words_def Let_def

lemma decode_session_head_skips_offset: "decode_session_head_skips_offset"
  by (simp add: decode_session_head_skips_offset_def session_decoding is_open_def zero_address_bytes sample_enc_def
      hex_fixed_two digit_char_def)

text \<open>Two words of the test data have 67 digits, so what follows the first of them is not aligned: the
  test reads a locked amount 4096 times smaller than the one written there, and the settled flag from the
  middle of a word.\<close>

lemma session_test_data_misaligned:
  "map_option cs_locked_internal test_session = Some (10 ^ 18 div 4096)"
  by (simp add: session_decoding u128_saturating_def)

definition text_values :: "(string \<times> json) list \<Rightarrow> string \<Rightarrow> json option" where
  "text_values values text = map_of values text"

definition usage_object :: "(string \<times> u64) list \<Rightarrow> json" where
  "usage_object counts = JObj [(''usage'', JObj (map (\<lambda>(k, n). (k, json_u64 n)) counts))]"

definition extracts_usage_from_completion_json :: bool where
  "extracts_usage_from_completion_json \<longleftrightarrow>
     (let body = ''{\"usage\":{\"prompt_tokens\":100,\"completion_tokens\":50}}'';
          parse = text_values [(body, usage_object [(''prompt_tokens'', 100), (''completion_tokens'', 50)])] in
      extract_usage_from_body parse body = Some \<lparr>pu_input_tokens = 100, pu_output_tokens = 50\<rparr>)"

definition blank_line :: string where
  "blank_line = [CHR 0x0A, CHR 0x0A]"

definition extracts_usage_from_sse_tail :: bool where
  "extracts_usage_from_sse_tail \<longleftrightarrow>
     (let empty = ''{\"choices\":[]}'';
          tail = ''{\"usage\":{\"prompt_tokens\":10,\"completion_tokens\":5}}'';
          parse = text_values [(empty, JObj [(''choices'', JArr [])]),
            (tail, usage_object [(''prompt_tokens'', 10), (''completion_tokens'', 5)])];
          sse = ''data: '' @ empty @ blank_line @ ''data: '' @ tail @ blank_line @ ''data: [DONE]'' @ blank_line in
      extract_usage_from_sse_body parse (\<lambda>_. None) sse = Some \<lparr>pu_input_tokens = 10, pu_output_tokens = 5\<rparr>)"

definition extracts_output_from_receipt :: bool where
  "extracts_output_from_receipt \<longleftrightarrow>
     (let b64 = ''eyJ0b2tlbl9jb3VudCI6OTAwfQ=='';
          event = ''{\"choices\":[],\"sparkl\":{\"seq\":18,\"receipt\":\"'' @ b64 @ ''\"}}'';
          parse = text_values [(event, JObj [(''choices'', JArr []),
            (''sparkl'', JObj [(''seq'', json_u64 18), (''receipt'', JStr b64)])])];
          receipt_of = (\<lambda>t. if t = b64 then Some 900 else None) in
      extract_usage_from_sse_body parse receipt_of (''data: '' @ event @ blank_line) =
        Some \<lparr>pu_input_tokens = 0, pu_output_tokens = 900\<rparr>)"

lemma extracts_usage_from_completion_json: "extracts_usage_from_completion_json"
  by (simp add: extracts_usage_from_completion_json_def text_values_def usage_object_def extract_usage_from_body_def
      extract_usage_from_json_def or_else_def Let_def)

lemma extracts_usage_from_sse_tail: "extracts_usage_from_sse_tail"
  by (simp add: extracts_usage_from_sse_tail_def text_values_def usage_object_def blank_line_def
      extract_usage_from_sse_body_def iter_sse_event_values_def sse_event_value_def split_on_eval first_line_def trim_space_graph graph_char_def
      List.map_filter_def scan_event_def extract_usage_from_json_def sparkl_receipt_output_tokens_def or_else_def Let_def)

lemma extracts_output_from_receipt: "extracts_output_from_receipt"
  by (simp add: extracts_output_from_receipt_def text_values_def blank_line_def
      extract_usage_from_sse_body_def iter_sse_event_values_def sse_event_value_def split_on_eval first_line_def
      trim_space_graph graph_char_def List.map_filter_def scan_event_def extract_usage_from_json_def
      sparkl_receipt_output_tokens_def Let_def)

section \<open>Keys and signatures\<close>

text \<open>The package reads the text of a key back, with the prefix that the router writes.\<close>

definition generates_and_reload ::
  "(string \<Rightarrow> string + 'k) \<Rightarrow> (bytes \<Rightarrow> string) \<Rightarrow> ('k \<Rightarrow> bytes) \<Rightarrow> ('k \<Rightarrow> bytes) \<Rightarrow> 'k \<Rightarrow> 'k \<Rightarrow> bool" where
  "generates_and_reload parse enc to_bytes address_of drawn1 drawn2 =
     (case load_or_generate parse enc to_bytes address_of drawn1 working_io [] NoFile of
        (Inr m1, file) \<Rightarrow>
          (case load_or_generate parse enc to_bytes address_of drawn2 working_io [] file of
             (Inr m2, file') \<Rightarrow> km_generated m1 \<and> \<not> km_generated m2 \<and> km_address m1 = km_address m2 \<and>
               km_private_key_hex m1 = km_private_key_hex m2
           | _ \<Rightarrow> False)
      | _ \<Rightarrow> False)"

definition config_inline_overrides_file ::
  "(string \<Rightarrow> string + 'k) \<Rightarrow> (bytes \<Rightarrow> string) \<Rightarrow> ('k \<Rightarrow> bytes) \<Rightarrow> ('k \<Rightarrow> bytes) \<Rightarrow> 'k \<Rightarrow> 'k \<Rightarrow> bool" where
  "config_inline_overrides_file parse enc to_bytes address_of drawn signer =
     (case load_or_generate parse enc to_bytes address_of drawn working_io [] NoFile of
        (r, file) \<Rightarrow>
          (case load_or_generate parse enc to_bytes address_of drawn working_io (signer_to_hex enc to_bytes signer) file of
             (Inr m, file') \<Rightarrow> km_address m = address_of signer
           | _ \<Rightarrow> False))"

lemma signer_text_trims:
  assumes "hex_laws enc dec"
  shows "trim (signer_to_hex enc to_bytes k) = signer_to_hex enc to_bytes k" "signer_to_hex enc to_bytes k \<noteq> []"
  using trim_graph [OF node_id_hex_graph [OF assms]] by (simp_all add: signer_to_hex_def node_id_hex_def)

lemma key_file_tests:
  assumes "hex_laws enc dec" "\<And>k. parse (signer_to_hex enc to_bytes k) = Inr k"
  shows "generates_and_reload parse enc to_bytes address_of drawn1 drawn2"
    and "config_inline_overrides_file parse enc to_bytes address_of drawn1 signer"
  by (simp_all add: signer_text_trims [OF assms(1)] assms(2) generates_and_reload_def config_inline_overrides_file_def load_or_generate_def working_io_def
      persist_key_file_def material_of_def parse_signer_def with_context_def Let_def)

definition sign_and_verify_roundtrip ::
  "(bytes \<Rightarrow> string) \<Rightarrow> (string \<Rightarrow> string + bytes) \<Rightarrow> (bytes \<Rightarrow> bytes) \<Rightarrow> (bytes \<Rightarrow> string + 'vk) \<Rightarrow>
   ('vk \<Rightarrow> bytes \<Rightarrow> bytes \<Rightarrow> string + unit) \<Rightarrow> ('sk \<Rightarrow> bytes) \<Rightarrow> ('sk \<Rightarrow> bytes \<Rightarrow> bytes) \<Rightarrow> 'sk \<Rightarrow> (nat \<Rightarrow> bytes) \<Rightarrow> bool" where
  "sign_and_verify_roundtrip enc dec keccak vk_of vk_verify public_key sign signing_key fill_bytes \<longleftrightarrow>
     (let payload = connect_challenge_payload keccak (random_nonce fill_bytes) 42;
          sig = sign signing_key payload in
      verify_connect_signature dec vk_of vk_verify payload (enc sig) (public_key signing_key) = Inr ())"

lemma hex_keeps_start:
  "hex_laws enc dec \<Longrightarrow> trim_start_matches ''0x'' (enc bs) = enc bs"
  using hex_no_prefix [OF hex_lawsD(2), of enc dec bs]
  by (simp add: trim_start_matches_def strip_prefix_def trim_with_id split: if_splits)

lemma sign_and_verify_roundtrip:
  assumes "hex_laws enc dec" "\<And>k m. length (sign k m) = 64"
    and "\<And>k m. \<exists>vk. vk_of (public_key k) = Inr vk \<and> vk_verify vk m (sign k m) = Inr ()"
  shows "sign_and_verify_roundtrip enc dec keccak vk_of vk_verify public_key sign signing_key fill_bytes"
  using assms(2,3) by (simp add: sign_and_verify_roundtrip_def Let_def verify_connect_signature_ok
      hex_keeps_start [OF assms(1)] hex_lawsD(1) [OF assms(1)])

definition eip191_accepts_wallet_v_byte ::
  "(bytes \<Rightarrow> string) \<Rightarrow> (string \<Rightarrow> string + bytes) \<Rightarrow> (bytes \<Rightarrow> bytes) \<Rightarrow> (bytes \<Rightarrow> u8 \<Rightarrow> bytes \<Rightarrow> bytes option) \<Rightarrow>
   (bytes \<Rightarrow> u8 \<times> bytes) \<Rightarrow> bytes \<Rightarrow> bool" where
  "eip191_accepts_wallet_v_byte enc dec keccak recover sign pubkey \<longleftrightarrow>
     (let message = ''sparkl-activate:3:24'';
          (rec_id, compact) = sign (eip191_hash keccak message);
          wire = compact @ [rec_id + 27] in
      recover_eip191_signer dec keccak recover message (enc wire) = Some (drop 12 (keccak (drop 1 pubkey))))"

lemma eip191_accepts_wallet_v_byte:
  assumes "hex_laws enc dec"
    and "\<And>digest. length (snd (sign digest)) = 64 \<and> fst (sign digest) < 4 \<and>
      recover (snd (sign digest)) (fst (sign digest)) digest = Some pubkey"
  shows "eip191_accepts_wallet_v_byte enc dec keccak recover sign pubkey"
proof -
  let ?digest = "eip191_hash keccak ''sparkl-activate:3:24''"
  obtain rec_id compact where sign: "sign ?digest = (rec_id, compact)" by fastforce
  with assms(2) [of ?digest] have law: "length compact = 64" "rec_id < 4" "recover compact rec_id ?digest = Some pubkey"
    by simp_all
  then have "unat rec_id < 4"
    by (simp add: word_less_nat_alt)
  then have "27 \<le> rec_id + 27" "take_bit 2 rec_id = rec_id"
    by (simp_all add: word_le_nat_alt word_unat_eq_iff unat_word_ariths unsigned_take_bit_eq take_bit_eq_mod)
  then show ?thesis
    using law hex_lawsD(1) [OF assms(1)] hex_no_prefix [OF hex_lawsD(2) [OF assms(1)]]
    by (simp add: eip191_accepts_wallet_v_byte_def recover_eip191_signer_def sign nth_append Let_def)
qed

end
