(* ===== verification/Spec2Isabelle.thy ===== *)
theory Spec2Isabelle
  imports Chat_Properties Chat_Progress Usage_Ledger Metrics Connection_Loop Connect_Phases Http_Api
    Process_Run Wire_Format Models_Fetch Mock_Node Unit_Tests
begin

text \<open>
  \<^bold>\<open>sparkl-router: a verification development\<close>

  The router stands between consumers with an OpenAI-style API and provider nodes that run models.
  A node connects to the router over a WebSocket (its \<^emph>\<open>tunnel\<close>), proves who it is and then serves the
  requests that the router multiplexes over that tunnel. A consumer holds an escrow session on a
  chain; its bearer token names the session, the session names the node, and the tokens a request
  used are batched and recorded on the chain.

  \<^bold>\<open>Theories and the code they model\<close> (paths under \<open>src/src\<close>)

  Foundations:
  \<^item> \<open>Router_Prelude\<close>: machine words, saturating and wrapping arithmetic of Rust, big-endian
    codecs, durations in nanoseconds, counting in lists.
  \<^item> \<open>Rust_Strings\<close>: the string operations of the standard library that the code calls
    (\<open>strip_prefix\<close>, \<open>trim\<close>, \<open>split\<close>, \<open>parse\<close>, number formatting) over UTF-8 bytes.
  \<^item> \<open>Router_Interfaces\<close>: the contracts between components, as locales: \<open>keyed_table\<close> (the hash
    maps), \<open>invariant_system\<close> (state machines with an invariant), \<open>measured_system\<close> (systems that
    conserve a quantity), \<open>amortised_system\<close> (systems whose cost a potential and the budgets of their
    events bound), \<open>simulation\<close> (a system that implements an abstract one),
    \<open>demultiplexer\<close> (one shared wire, a view per request).
  \<^item> \<open>Json_Value\<close>: JSON values and the accessors of the JSON package.

  Components:
  \<^item> \<open>Capacity\<close> (\<open>capacity/mod.rs\<close>): the capacity tracker. Slots are elements of a heap, an
    \<open>Arc<Slot>\<close> is an index; \<open>acquire\<close> is a machine with one step per atomic access, so all
    interleavings of concurrent requests are runs of \<open>cap_step\<close>. \<open>Capacity_Refinement\<close>: that machine
    implements a counting semaphore per model. \<open>Capacity_Progress\<close>: how long its retry loops can run, and a
    state in which requests wait beside free places.
  \<^item> \<open>Protocol\<close> (\<open>protocol.rs\<close>), \<open>Tunnel_Dispatch\<close> (\<open>tunnel/dispatch.rs\<close>, \<open>NodeTunnel\<close> of
    \<open>state.rs\<close>): frames, the pending map, bounded channels, routing, forwarding. \<open>Wire_Format\<close>: the
    JSON form of the frames.
  \<^item> \<open>Node_Auth\<close> (\<open>node_auth.rs\<close>), \<open>Tunnel_Connect\<close> (\<open>tunnel/connect.rs\<close>), \<open>Tunnel_Lifecycle\<close>
    (\<open>tunnel/lifecycle.rs\<close>): the handshake, the replacement of an old tunnel, inbound frames, the
    writer, the ping loop, the clean-up, and the router as a system of connections (\<open>router_step\<close>).
    \<open>Connection_Loop\<close>: one connection from handshake to clean-up, as a run of that system.
    \<open>Connect_Phases\<close>: connecting at the grain of its shared accesses, with connections interleaved.
  \<^item> \<open>Offerings\<close>, \<open>Models_Catalog\<close>, \<open>Catalog_Query\<close>, \<open>Models_Refresh\<close>
    (\<open>consumer/offerings.rs\<close>, \<open>models.rs\<close>, \<open>catalog.rs\<close>): what nodes advertise, the merged union
    with its load, provider queries, refreshes. \<open>Models_Fetch\<close>: the fetch of a node's models over its tunnel,
    with one step per await, while the tunnel serves others.
  \<^item> \<open>Router_State\<close> (\<open>RouterState\<close> of \<open>state.rs\<close>, \<open>tunnel/registry.rs\<close>), \<open>Telemetry\<close>
    (\<open>telemetry/mod.rs\<close>), \<open>Router_Status\<close> and \<open>Subscriptions\<close> (\<open>admin.rs\<close>, \<open>status/*.rs\<close>).
  \<^item> \<open>Chain_Session\<close>, \<open>Chain_Cache\<close>, \<open>Chain_Watcher\<close>, \<open>Usage_Submit\<close>, \<open>Settlement_Key\<close>
    (\<open>chain/*.rs\<close>): decoding escrow sessions, the session cache, the event watcher, submission of
    usage with retries, the signing key.
  \<^item> \<open>Consumer_Auth\<close> (\<open>consumer/bearer.rs\<close>, \<open>middleware.rs\<close>), \<open>Activate\<close>
    (\<open>consumer/activate.rs\<close>), \<open>Metering\<close> (\<open>consumer/metering.rs\<close>), \<open>Sse_Response\<close>
    (\<open>consumer/sse.rs\<close>), \<open>Usage_Batch\<close> (\<open>consumer/usage_batch.rs\<close>), \<open>Forward\<close>
    (\<open>consumer/forward.rs\<close>): the consumer API, one request at a time.
  \<^item> \<open>Chat_Service\<close>: the life of many chat requests at once (\<open>forward.rs\<close>, \<open>sse.rs\<close>, \<open>middleware.rs\<close>)
    on the shared router, admission control and batches, as the step function \<open>chat_step\<close> with one
    step per await; \<open>Chat_Safety\<close> and \<open>Chat_Invariant\<close> hold its invariant, \<open>Chat_Properties\<close> what
    follows from it. \<open>Chat_Steps\<close> says what one step moves; on it rest \<open>Chat_Progress\<close> (requests can
    always end), \<open>Usage_Ledger\<close> (what requests meter, joined with the critical sections of the batcher)
    and \<open>Metrics\<close> (\<open>metrics.rs\<close> and where the handlers count).
  \<^item> \<open>Http_Api\<close> (\<open>routes.rs\<close>, handlers of \<open>catalog.rs\<close> and \<open>status/nodes.rs\<close>): which request reaches which
    handler behind which guard, and the answers of the handlers that read.
  \<^item> \<open>Router_Config\<close> (\<open>config.rs\<close>), \<open>Process_Start\<close> (\<open>main.rs\<close>, \<open>RecordUsageClient::new\<close>): the
    configuration with its defaults, the start of the process and its drain; the properties of a
    started process are below. \<open>Process_Run\<close>: the two servers, the shutdown notification and the end.
  \<^item> \<open>Unit_Tests\<close>: the unit tests of the repository, run on the model.
  \<^item> \<open>Mock_Node\<close> (\<open>tests/mock_node.rs\<close> and the node's side of \<open>tests/integration_tunnel.rs\<close>, beside
    \<open>src/src\<close>): the repository's own client of the wire protocol; its handshake, its pongs and its answers
    are composed with the router's own definitions.

  \<^bold>\<open>Conventions\<close>

  \<^item> Text is a list of UTF-8 bytes (\<open>string\<close>), node ids and hashes are byte lists. Integers keep their
    width (\<open>u32\<close>, \<open>u64\<close>, \<open>u128\<close>); signed times are integers with the wrap-around written out.
  \<^item> Hash maps are association lists with distinct keys whose order is the order of iteration;
    nothing proved depends on a particular order. Locks that guard one operation are left out:
    each critical section is one step.
  \<^item> Packages are parameters: hexadecimal, base58, keccak, sha256, HMAC, ed25519, secp256k1, the
    reading and printing of JSON text, and calls to the chain. What a property needs of them is a
    named hypothesis (\<open>hex_laws\<close>, \<open>uuid_laws\<close>, \<open>json_laws\<close>, \<open>signing_laws\<close>), with an instance in its witness
    (\<open>sample_enc\<close> and \<open>sample_dec\<close>, \<open>sample_json\<close>, \<open>sample_signing\<close>).
  \<^item> Clocks, random numbers, the outcome of network calls and the choice of the next event are
    inputs. Errors are values (\<open>Inl\<close>); a panic is \<open>None\<close> or a flag.

  \<^bold>\<open>What the lemmas show\<close>

  Each component has its invariant and its preservation lemmas (\<open>queue_inv\<close>, \<open>admit_inv\<close>,
  \<open>tunnel_wf\<close>, \<open>registry_wf\<close>, \<open>slots_wf\<close>, the ledger of \<open>Usage_Batch\<close>, \<open>service_inv\<close> of the chat service:
  who owns which capacity guard and which node serves whom), exact characterisations of
  its decisions (handshake, session guard, chat checks, queries, activation), round trips of its
  codecs and the bounds of its arithmetic. Several theorems record behaviour that a reader of the
  code might not expect; they are listed as findings in the manifest.

  \<^bold>\<open>Bounds and termination\<close>

  All loops but one are structural recursions over what the environment supplies (frames, events,
  attempts) and need no fuel; a bus receiver ends because its position advances. Endless tasks
  (pinger, sweeper, watcher) are sequences of their turns. The retry loop of the admission is not
  bounded by itself: \<open>acquire_is_lock_free\<close> bounds the accesses of a run by what else happens in it, and
  \<open>every_request_can_end\<close> ends a request that is left alone in at most nine steps. A request of
  \<open>Unit_Tests\<close> takes at most five turns, which suffices for a request alone (four to a decision).

  \<^bold>\<open>Not modelled\<close>

  Reading and printing JSON text, and how the configuration package merges file and environment
  (packages); the text that the metrics exporter serves; logging; the matching of path patterns; the bound of the outbox
  (a send that waits for room succeeds later); the concurrency limit of the HTTP server,
  which only delays requests; the assertions of the integration tests, whose parts are theorems
  (\<open>mock_node_connects\<close>, \<open>chat_answer_end_to_end\<close>, \<open>collected_answer_exact\<close>).
\<close>

section \<open>The started process\<close>

lemma started_service:
  "start_router P sockets E loaded files = (Inr pr, files') \<Longrightarrow>
    pr_service pr = new_service (cc_session_cache_ttl_secs (cf_chain (pr_config pr)))"
  by (erule start_router_ok)

text \<open>C23: A process that started without a usage client, because settlement is off or because the contract
  did not name its key, never meters: whatever requests it serves, no usage is queued, batched or
  submitted, and its drain at shutdown submits nothing; all the while its router stays consistent.\<close>

theorem process_without_client_never_meters:
  assumes "start_router P sockets E loaded files = (Inr pr, files')" "pr_client pr = None"
    and "reachable_by (chat_step X (chat_config_of (pr_config pr) (pr_client pr \<noteq> None) K)) (pr_service pr) S"
  shows "sv_records S = [] \<and> bt_sessions (sv_usage S) = [] \<and>
    bt_jobs (sv_usage (drain_at_shutdown pr fetch now S)) = [] \<and> registry_wf (sv_router S)"
proof -
  let ?K = "chat_config_of (pr_config pr) (pr_client pr \<noteq> None) K"
  have reach: "reachable_by (chat_step X ?K) (new_service (cc_session_cache_ttl_secs (cf_chain (pr_config pr)))) S"
    using assms(3) by (simp only: started_service [OF assms(1)])
  have "unmetered S"
    using unmetered_reachable [OF reach] by (simp add: chat_config_of_def assms(2))
  then show ?thesis
    using service_invD(1) [OF service_reaches [OF reach]]
    by (simp add: unmetered_def drain_at_shutdown_def assms(2))
qed

theorem process_without_client_never_meters_witness:
  "\<exists>pr files' S. start_router sample_packages (\<lambda>_. Inr ()) sample_start (Inr sample_loaded) (\<lambda>_. NoFile) = (Inr pr, files') \<and>
    chat_step sample_externals (chat_config_of (pr_config pr) False sample_config) (pr_service pr)
      (ChatRequest (\<lambda>_. Inl []) 0 None [] []) = Some S \<and> length (sv_chats S) = 1 \<and>
    bt_jobs (sv_usage (drain_at_shutdown pr (\<lambda>_. Inl []) 5 S)) = []"
proof -
  obtain c files' where boot: "bootstrap_key sample_packages sample_start sample_loaded (\<lambda>_. NoFile) = (Inr c, files')"
    and c: "\<not> se_enabled (cf_settlement c)"
    by (simp add: bootstrap_key_def bootstrap_def load_or_generate_def ensure_record_usage_role_def
        ensure_gas_funded_def resolve_data_dir_def path_join_def key_path_def key_filename_def signer_to_hex_def working_io_def sample_packages_def sample_start_def
        sample_loaded_def default_settlement_config_def material_of_def persist_key_file_def
        with_context_def bind_sum_def zero_address_def min_balance_wei_def)
  obtain pr where start: "start_router sample_packages (\<lambda>_. Inr ()) sample_start (Inr sample_loaded) (\<lambda>_. NoFile) =
      (Inr pr, files')" and client: "pr_client pr = None"
    using c by (simp add: start_router_def boot with_context_def bind_sum_def Let_def start_client_def is_active_def)
      (simp add: sample_start_def)
  let ?step = "chat_step sample_externals (chat_config_of (pr_config pr) (pr_client pr \<noteq> None) sample_config)"
  obtain S where S: "?step (pr_service pr) (ChatRequest (\<lambda>_. Inl []) 0 None [] []) = Some S"
    by (simp add: chat_step_def)
  have "reachable_by ?step (pr_service pr) S"
    by (rule reach_step [of ?step, OF reach_start [of ?step] S])
  from process_without_client_never_meters [OF start client this]
  have "bt_jobs (sv_usage (drain_at_shutdown pr (\<lambda>_. Inl []) 5 S)) = []" by simp
  moreover have "length (sv_chats S) = 1"
    using S by (auto simp: chat_step_def request_chat_def require_v1_session_def started_service [OF start] new_service_def)
  ultimately show ?thesis
    using start S client by (intro exI [of _ pr] exI [of _ files'] exI [of _ S]) simp
qed

end
